(* ===== verification/Prelude.thy ===== *)
theory Prelude
  imports Main "HOL-Library.Word" "HOL-Library.Monad_Syntax"
begin

text \<open>
  Shared vocabulary of the development.

  \<^item> C objects are byte lists (\<open>byte list\<close>); a pointer into an object is an offset.
  \<^item> The \<open>option\<close> monad is the monad of calls: \<open>Some r\<close> means that the call returns \<open>r\<close>
    and every access on the way was inside its object; \<open>None\<close> means that the call does not
    return with defined behaviour (an access outside an object, a division by zero, or a
    loop that never ends).  A theorem \<open>f x = Some r\<close> is therefore total correctness.
  \<^item> Machine integers are words of the width the i386 build gives them: \<open>int\<close>, \<open>long\<close> and
    pointers have 32 bits.  Multi-byte fields are little-endian (\<^verbatim>\<open>src/main/eb/little_bswap.h\<close>
    makes \<open>le32_to_cpu\<close> the identity on this machine).
\<close>

unbundle bit_operations_syntax

type_synonym byte = "8 word"
type_synonym u16 = "16 word"
type_synonym u32 = "32 word"
type_synonym u64 = "64 word"

named_theorems layout_simps "decoding and encoding of the little-endian layouts"
named_theorems buffer_simps "reads and writes inside byte buffers"

text \<open>The call monad.\<close>

definition require :: "bool \<Rightarrow> unit option" where
  "require b = (if b then Some () else None)"

text \<open>Little-endian integers in memory.\<close>

primrec le_word :: "byte list \<Rightarrow> 'a::len word" where
  "le_word [] = 0"
| "le_word (b # bs) = ucast b OR push_bit 8 (le_word bs)"

primrec le_bytes :: "nat \<Rightarrow> 'a::len word \<Rightarrow> byte list" where
  "le_bytes 0 w = []"
| "le_bytes (Suc n) w = ucast w # le_bytes n (drop_bit 8 w)"

text \<open>Reading and writing a range of an object.\<close>

definition bytes_at :: "nat \<Rightarrow> nat \<Rightarrow> 'a list \<Rightarrow> 'a list" where
  "bytes_at off n xs = take n (drop off xs)"

definition rd :: "'a list \<Rightarrow> nat \<Rightarrow> nat \<Rightarrow> 'a list option" where
  "rd xs off n = (if off + n \<le> length xs then Some (bytes_at off n xs) else None)"

definition put_bytes :: "nat \<Rightarrow> 'a list \<Rightarrow> 'a list \<Rightarrow> 'a list" where
  "put_bytes off ys xs = take off xs @ ys @ drop (off + length ys) xs"

definition wr :: "'a list \<Rightarrow> nat \<Rightarrow> 'a list \<Rightarrow> 'a list option" where
  "wr xs off ys = (if off + length ys \<le> length xs then Some (put_bytes off ys xs) else None)"

definition rd1 :: "'a list \<Rightarrow> nat \<Rightarrow> 'a option" where
  "rd1 xs i = (if i < length xs then Some (xs ! i) else None)"

text \<open>A field of a packed struct at a fixed offset.\<close>

definition field16 :: "nat \<Rightarrow> byte list \<Rightarrow> u16" where
  "field16 off bs = le_word (bytes_at off 2 bs)"

definition field32 :: "nat \<Rightarrow> byte list \<Rightarrow> u32" where
  "field32 off bs = le_word (bytes_at off 4 bs)"

definition field64 :: "nat \<Rightarrow> byte list \<Rightarrow> u64" where
  "field64 off bs = le_word (bytes_at off 8 bs)"

subsection \<open>The call monad\<close>

lemma require_simps [simp]:
  "require True = Some ()"
  "require False = None"
  by (simp_all add: require_def)

lemma require_Some_iff [simp]: "require b = Some u \<longleftrightarrow> b"
  by (simp add: require_def)

lemma bind_require: "(require b \<bind> f) = (if b then f () else None)"
  by (simp add: require_def)

subsection \<open>Bounds of machine words\<close>

lemma unat_u8_less: "unat (w :: byte) < 256"
proof -
  have "unat w < 2 ^ LENGTH(8)" by (rule unsigned_less)
  then show ?thesis by simp
qed

lemma unat_u16_less: "unat (w :: u16) < 65536"
proof -
  have "unat w < 2 ^ LENGTH(16)" by (rule unsigned_less)
  then show ?thesis by simp
qed

lemma unat_u32_less: "unat (w :: u32) < 4294967296"
proof -
  have "unat w < 2 ^ LENGTH(32)" by (rule unsigned_less)
  then show ?thesis by simp
qed

lemma unat_u64_less: "unat (w :: u64) < 18446744073709551616"
proof -
  have "unat w < 2 ^ LENGTH(64)" by (rule unsigned_less)
  then show ?thesis by simp
qed

lemmas unat_bounds = unat_u8_less unat_u16_less unat_u32_less unat_u64_less

lemma unat_u32_minus_one: "unat (- 1 :: u32) = 4294967295"
  by (simp add: unsigned_minus_1_eq_mask mask_eq_exp_minus_1)

subsection \<open>Fields of machine words\<close>

lemma unat_and_mask: "unat (x AND mask n) = unat (x::'a::len word) mod 2 ^ n"
  by (simp only: take_bit_eq_mask [symmetric] unsigned_take_bit_eq) (simp only: take_bit_eq_mod)

lemma unat_and_255: "unat (x AND 255) = unat (x::'a::len word) mod 256"
  using unat_and_mask [of x 8] by (simp add: mask_eq_exp_minus_1)

lemma unat_and_15: "unat (x AND 15) = unat (x::'a::len word) mod 16"
  using unat_and_mask [of x 4] by (simp add: mask_eq_exp_minus_1)

lemma unat_drop_bit: "unat (drop_bit n x) = unat (x::'a::len word) div 2 ^ n"
  by (simp only: unsigned_drop_bit_eq) (simp add: drop_bit_eq_div take_bit_nat_eq_self)

lemma unat_ucast_byte: "unat (ucast x :: byte) = unat (x::'a::len word) mod 256"
  by (simp add: unsigned_ucast_eq take_bit_eq_mod)

lemma unat_ucast_u16_u32: "unat (ucast (x :: u16) :: u32) = unat x"
  using unat_u16_less [of x] by (simp add: unsigned_ucast_eq take_bit_nat_eq_self)

lemma unat_ucast_u32_u64: "unat (ucast (x :: u32) :: u64) = unat x"
  using unat_u32_less [of x] by (simp add: unsigned_ucast_eq take_bit_nat_eq_self)

lemma sint_small: "unat (w :: u32) < 2147483648 \<Longrightarrow> sint w = int (unat w)"
proof -
  assume "unat w < 2147483648"
  then have "uint w < 2147483648" unfolding uint_nat by linarith
  moreover have "- 2147483648 \<le> uint w" using uint_ge_0 [of w] by linarith
  ultimately have "sint w = uint w" using signed_take_bit_int_eq_self [of 31 "uint w"] by (simp add: sint_uint)
  then show ?thesis unfolding uint_nat .
qed

lemma unat_scast_small: "unat (w :: u32) < 2147483648 \<Longrightarrow> unat (scast w :: u64) = unat w"
  by (simp add: scast_eq sint_small unat_of_nat del: of_nat_unat)

text \<open>Putting a field above the low \<open>n\<close> bits.\<close>

lemma unat_push_or:
  fixes a b :: "'a::len word"
  assumes "unat b < 2 ^ n" "(unat a + 1) * 2 ^ n \<le> 2 ^ LENGTH('a)"
  shows "unat (push_bit n a OR b) = unat a * 2 ^ n + unat b"
proof -
  have t: "take_bit n b = b" using assms(1) by (simp add: word_unat_eq_iff unsigned_take_bit_eq take_bit_nat_eq_self)
  have "k < n" if "bit b k" for k using that by (subst (asm) t [symmetric]) (simp add: bit_take_bit_iff)
  then have "push_bit n a AND b = 0" by (intro bit_word_eqI) (fastforce simp: bit_push_bit_iff bit_and_iff)
  then have "push_bit n a OR b = push_bit n a + b" by (simp add: disjunctive_add_eq_or)
  moreover have s: "unat a * 2 ^ n + unat b < 2 ^ LENGTH('a)" using assms by (simp add: algebra_simps)
  then have "unat (push_bit n a) = unat a * 2 ^ n"
    by (simp only: unsigned_push_bit_eq) (simp add: push_bit_eq_mult take_bit_nat_eq_self)
  ultimately show ?thesis using s by (simp add: unat_word_ariths)
qed

lemmas unat_field = unat_and_255 unat_and_15 unat_drop_bit unat_ucast_byte

subsection \<open>Little-endian round trips\<close>

lemma byte_and_255 [simp]: "(b :: byte) AND 255 = b"
proof -
  have "(255 :: byte) = - 1" by simp
  then show ?thesis by (simp only: and.right_neutral)
qed

lemma bit_beyond: "LENGTH('a) \<le> k \<Longrightarrow> \<not> bit (w :: 'a::len word) (k + n)"
  by (auto dest: bit_imp_le_length)

lemma length_le_bytes [simp, layout_simps]: "length (le_bytes n w) = n"
  by (induction n arbitrary: w) simp_all

lemma le_bytes_numeral [simp]:
  "le_bytes (numeral k) w = ucast w # le_bytes (pred_numeral k) (drop_bit 8 w)"
  by (simp add: numeral_eq_Suc)

lemma bit_le_word:
  "bit (le_word bs :: 'a::len word) i \<longleftrightarrow>
     i < LENGTH('a) \<and> i div 8 < length bs \<and> bit (bs ! (i div 8)) (i mod 8)"
proof (induction bs arbitrary: i)
  case Nil
  then show ?case by simp
next
  case (Cons b bs)
  show ?case
  proof (cases "i < 8")
    case True
    then show ?thesis by (auto simp: bit_simps)
  next
    case False
    then have "i div 8 = Suc ((i - 8) div 8)" and "i mod 8 = (i - 8) mod 8"
      by (simp_all add: le_div_geq le_mod_geq)
    with False show ?thesis
      by (auto simp: bit_simps Cons.IH dest: bit_imp_le_length)
  qed
qed

lemma bit_nth_le_bytes:
  "k < n \<Longrightarrow> bit (le_bytes n w ! k) j \<longleftrightarrow> j < 8 \<and> bit w (8 * k + j)"
proof (induction n arbitrary: w k)
  case 0
  then show ?case by simp
next
  case (Suc n)
  then show ?case
    by (cases k) (auto simp: bit_simps add.assoc dest: bit_imp_le_length)
qed

lemma le_word_le_bytes [layout_simps]:
  "LENGTH('a) \<le> 8 * n \<Longrightarrow> le_word (le_bytes n (w :: 'a::len word)) = w"
  by (rule bit_word_eqI) (auto simp: bit_le_word bit_nth_le_bytes)

lemma le_bytes_le_word [layout_simps]:
  assumes "8 * n \<le> LENGTH('a)" "length bs = n"
  shows "le_bytes n (le_word bs :: 'a::len word) = bs"
proof (rule nth_equalityI)
  show "length (le_bytes n (le_word bs :: 'a word)) = length bs" using assms by simp
next
  fix k assume "k < length (le_bytes n (le_word bs :: 'a word))"
  then have k: "k < n" by simp
  show "le_bytes n (le_word bs :: 'a word) ! k = bs ! k"
  proof (rule bit_word_eqI)
    fix j assume "j < LENGTH(8)"
    then have j: "j < 8" by simp
    with k have "(8 * k + j) div 8 = k" and "(8 * k + j) mod 8 = j" by simp_all
    moreover have "8 * k + j < LENGTH('a)" using k j assms(1) by linarith
    ultimately show "bit (le_bytes n (le_word bs :: 'a word) ! k) j \<longleftrightarrow> bit (bs ! k) j"
      using k j assms(2) by (simp add: bit_nth_le_bytes bit_le_word)
  qed
qed

lemma le_word_append_zeros [layout_simps]: "le_word (bs @ replicate n 0) = le_word bs"
  by (rule bit_word_eqI) (auto simp: bit_le_word nth_append)

subsection \<open>Buffers\<close>

lemma replicate_numeral: "replicate (numeral k) x = x # replicate (pred_numeral k) x"
  by (simp add: numeral_eq_Suc)

lemma length_bytes_at [simp, buffer_simps]: "length (bytes_at off n xs) = min n (length xs - off)"
  by (simp add: bytes_at_def)

lemma nth_bytes_at [simp, buffer_simps]:
  "i < n \<Longrightarrow> off + i < length xs \<Longrightarrow> bytes_at off n xs ! i = xs ! (off + i)"
  by (simp add: bytes_at_def)

lemma bytes_at_all [simp]: "length xs \<le> n \<Longrightarrow> bytes_at 0 n xs = xs"
  by (simp add: bytes_at_def)

lemma bytes_at_0 [simp]: "bytes_at off 0 xs = []"
  by (simp add: bytes_at_def)

lemma bytes_at_append_left [buffer_simps]:
  "off + n \<le> length xs \<Longrightarrow> bytes_at off n (xs @ ys) = bytes_at off n xs"
  by (simp add: bytes_at_def)

lemma bytes_at_append_right [buffer_simps]:
  "length xs \<le> off \<Longrightarrow> bytes_at off n (xs @ ys) = bytes_at (off - length xs) n ys"
  by (simp add: bytes_at_def)

lemma bytes_at_bytes_at [buffer_simps]:
  "a + m \<le> n \<Longrightarrow> bytes_at a m (bytes_at off n xs) = bytes_at (off + a) m xs"
  by (simp add: bytes_at_def drop_take min_def ac_simps)

lemma bytes_at_split: "bytes_at off (m + n) xs = bytes_at off m xs @ bytes_at (off + m) n xs"
  by (simp add: bytes_at_def take_add ac_simps)

lemma rd_Some_iff [buffer_simps]:
  "rd xs off n = Some ys \<longleftrightarrow> off + n \<le> length xs \<and> ys = bytes_at off n xs"
  by (auto simp: rd_def)

lemma rd_None_iff [buffer_simps]: "rd xs off n = None \<longleftrightarrow> length xs < off + n"
  by (auto simp: rd_def)

lemma rd1_Some_iff [buffer_simps]: "rd1 xs i = Some x \<longleftrightarrow> i < length xs \<and> x = xs ! i"
  by (auto simp: rd1_def)

lemma rd1_None_iff [buffer_simps]: "rd1 xs i = None \<longleftrightarrow> length xs \<le> i"
  by (auto simp: rd1_def)

lemma length_put_bytes [simp, buffer_simps]:
  "off + length ys \<le> length xs \<Longrightarrow> length (put_bytes off ys xs) = length xs"
  by (simp add: put_bytes_def)

lemma bytes_at_put_same [buffer_simps]:
  "off + length ys \<le> length xs \<Longrightarrow> bytes_at off (length ys) (put_bytes off ys xs) = ys"
  by (simp add: put_bytes_def bytes_at_def)

lemma put_bytes_prefix [simp]: "put_bytes 0 ys xs = ys @ drop (length ys) xs"
  by (simp add: put_bytes_def)

lemma wr_Some_iff [buffer_simps]:
  "wr xs off ys = Some zs \<longleftrightarrow> off + length ys \<le> length xs \<and> zs = put_bytes off ys xs"
  by (auto simp: wr_def)

lemma put_bytes_append:
  "off + length xs + length ys \<le> length buf \<Longrightarrow>
   put_bytes (off + length xs) ys (put_bytes off xs buf) = put_bytes off (xs @ ys) buf"
  by (simp add: put_bytes_def ac_simps)

lemma put_bytes_Nil [simp]: "put_bytes off [] buf = buf"
  by (simp add: put_bytes_def)

lemma bytes_at_put_before [buffer_simps]:
  "a + n \<le> off \<Longrightarrow> off + length ys \<le> length xs \<Longrightarrow> bytes_at a n (put_bytes off ys xs) = bytes_at a n xs"
  by (simp add: bytes_at_def put_bytes_def take_drop)

lemma put_bytes_overwrite:
  "length ys = length zs \<Longrightarrow> off + length ys \<le> length xs \<Longrightarrow>
   put_bytes off zs (put_bytes off ys xs) = put_bytes off zs xs"
  by (simp add: put_bytes_def)

lemma put_bytes_self:
  "off + n \<le> length xs \<Longrightarrow> put_bytes off (bytes_at off n xs) xs = xs"
  by (simp add: put_bytes_def bytes_at_def) (metis add.commute append_take_drop_id drop_drop)

end
