(* ===== verification/Sha1.thy ===== *)
theory Sha1
  imports Prelude
begin

text \<open>
  SHA-1 (\<^verbatim>\<open>src/sha1.c\<close>, \<^verbatim>\<open>src/sha1.h\<close>) and the length-prefixed hash \<open>shax\<close> of
  \<^verbatim>\<open>src/loader_init.c\<close>.  The streaming context is modelled field by field; the reference
  definition below it is the block algorithm of FIPS 180, and the main result is that any
  sequence of \<open>SHA1Input\<close> calls followed by \<open>SHA1Result\<close> yields the reference digest of the
  concatenated input.
\<close>

section \<open>The implementation\<close>

record SHA1Context =
  Intermediate_Hash :: "u32 list"
  Length_Low :: u32
  Length_High :: u32
  Message_Block_Index :: nat
  Message_Block :: "byte list"
  Computed :: int
  Corrupted :: int

definition shaSuccess :: int where "shaSuccess = 0"
definition shaNull :: int where "shaNull = 1"
definition shaInputTooLong :: int where "shaInputTooLong = 2"
definition shaStateError :: int where "shaStateError = 3"

definition SHA1CircularShift :: "nat \<Rightarrow> u32 \<Rightarrow> u32" where
  "SHA1CircularShift bits w = push_bit bits w OR drop_bit (32 - bits) w"

definition SHA1Reset :: "SHA1Context option \<Rightarrow> int \<times> SHA1Context option" where
  "SHA1Reset context =
     (case context of
        None \<Rightarrow> (shaNull, None)
      | Some c \<Rightarrow> (shaSuccess, Some (c\<lparr>
          Length_Low := 0, Length_High := 0, Message_Block_Index := 0,
          Intermediate_Hash := [0x67452301, 0xEFCDAB89, 0x98BADCFE, 0x10325476, 0xC3D2E1F0],
          Computed := 0, Corrupted := 0\<rparr>)))"

text \<open>One word of the message schedule from four octets, most significant first.\<close>

definition block_word :: "byte list \<Rightarrow> nat \<Rightarrow> u32" where
  "block_word block t =
     push_bit 24 (ucast (block ! (t * 4))) OR push_bit 16 (ucast (block ! (t * 4 + 1)))
     OR push_bit 8 (ucast (block ! (t * 4 + 2))) OR ucast (block ! (t * 4 + 3))"

fun extend_schedule :: "nat \<Rightarrow> u32 list \<Rightarrow> u32 list" where
  "extend_schedule 0 W = W"
| "extend_schedule (Suc k) W =
     (let t = length W in
      extend_schedule k
        (W @ [SHA1CircularShift 1 (W ! (t - 3) XOR W ! (t - 8) XOR W ! (t - 14) XOR W ! (t - 16))]))"

definition message_schedule :: "byte list \<Rightarrow> u32 list" where
  "message_schedule block = extend_schedule 64 (map (block_word block) [0..<16])"

type_synonym sha_regs = "u32 \<times> u32 \<times> u32 \<times> u32 \<times> u32"

definition sha_round ::
  "(u32 \<Rightarrow> u32 \<Rightarrow> u32 \<Rightarrow> u32) \<Rightarrow> u32 \<Rightarrow> u32 list \<Rightarrow> nat \<Rightarrow> sha_regs \<Rightarrow> sha_regs" where
  "sha_round f K W t r =
     (case r of (A, B, C, D, E) \<Rightarrow>
        let temp = SHA1CircularShift 5 A + f B C D + E + W ! t + K
        in (temp, A, SHA1CircularShift 30 B, C, D))"

definition SHA1ProcessMessageBlock :: "SHA1Context \<Rightarrow> SHA1Context" where
  "SHA1ProcessMessageBlock c =
     (let W = message_schedule (Message_Block c);
          H = Intermediate_Hash c;
          r0 = (H ! 0, H ! 1, H ! 2, H ! 3, H ! 4);
          r1 = fold (sha_round (\<lambda>B C D. (B AND C) OR (NOT B AND D)) 0x5A827999 W) [0..<20] r0;
          r2 = fold (sha_round (\<lambda>B C D. B XOR C XOR D) 0x6ED9EBA1 W) [20..<40] r1;
          r3 = fold (sha_round (\<lambda>B C D. (B AND C) OR (B AND D) OR (C AND D)) 0x8F1BBCDC W)
                 [40..<60] r2;
          r4 = fold (sha_round (\<lambda>B C D. B XOR C XOR D) 0xCA62C1D6 W) [60..<80] r3
      in (case r4 of (A, B, C, D, E) \<Rightarrow>
            c\<lparr>Intermediate_Hash := [H ! 0 + A, H ! 1 + B, H ! 2 + C, H ! 3 + D, H ! 4 + E],
               Message_Block_Index := 0\<rparr>))"

text \<open>\<open>Message_Block[Message_Block_Index++] = v\<close>, inside the 64-byte array.\<close>

definition put_octet :: "byte \<Rightarrow> SHA1Context \<Rightarrow> SHA1Context option" where
  "put_octet v c =
     (if Message_Block_Index c < 64
      then Some (c\<lparr>Message_Block := (Message_Block c)[Message_Block_Index c := v],
                   Message_Block_Index := Message_Block_Index c + 1\<rparr>)
      else None)"

function put_zeros_upto :: "nat \<Rightarrow> SHA1Context \<Rightarrow> SHA1Context option" where
  "put_zeros_upto lim c =
     (if Message_Block_Index c < lim then put_octet 0 c \<bind> put_zeros_upto lim else Some c)"
  by pat_completeness auto
termination
  by (relation "measure (\<lambda>(lim, c). lim - Message_Block_Index c)")
    (auto simp: put_octet_def split: if_splits)

declare put_zeros_upto.simps [simp del]

definition SHA1PadMessage :: "SHA1Context \<Rightarrow> SHA1Context option" where
  "SHA1PadMessage c =
     do {
       c \<leftarrow> (if Message_Block_Index c > 55
             then do {
               c \<leftarrow> put_octet 0x80 c;
               c \<leftarrow> put_zeros_upto 64 c;
               put_zeros_upto 56 (SHA1ProcessMessageBlock c)
             }
             else do {
               c \<leftarrow> put_octet 0x80 c;
               put_zeros_upto 56 c
             });
       Some (SHA1ProcessMessageBlock
         (c\<lparr>Message_Block := (Message_Block c)
             [56 := ucast (drop_bit 24 (Length_High c)), 57 := ucast (drop_bit 16 (Length_High c)),
              58 := ucast (drop_bit 8 (Length_High c)), 59 := ucast (Length_High c),
              60 := ucast (drop_bit 24 (Length_Low c)), 61 := ucast (drop_bit 16 (Length_Low c)),
              62 := ucast (drop_bit 8 (Length_Low c)), 63 := ucast (Length_Low c)]\<rparr>))
     }"

definition SHA1HashSize :: nat where "SHA1HashSize = 20"

text \<open>
  \<open>SHA1Result\<close>: the last component is what is stored into \<open>Message_Digest\<close> (\<open>None\<close>: nothing is
  stored).
\<close>

definition digest_octet :: "u32 list \<Rightarrow> nat \<Rightarrow> byte" where
  "digest_octet H i = ucast (drop_bit (8 * (3 - i mod 4)) (H ! (i div 4)))"

definition SHA1Result ::
  "SHA1Context option \<Rightarrow> bool \<Rightarrow> (int \<times> SHA1Context option \<times> byte list option) option" where
  "SHA1Result context digest_nonnull =
     (case context of
        None \<Rightarrow> Some (shaNull, None, None)
      | Some c \<Rightarrow>
          if \<not> digest_nonnull then Some (shaNull, Some c, None)
          else if Corrupted c \<noteq> 0 then Some (Corrupted c, Some c, None)
          else do {
            c \<leftarrow> (if Computed c = 0
                  then do {
                    c \<leftarrow> SHA1PadMessage c;
                    Some (c\<lparr>Message_Block := replicate 64 0, Length_Low := 0,
                            Length_High := 0, Computed := 1\<rparr>)
                  }
                  else Some c);
            Some (shaSuccess, Some c, Some (map (digest_octet (Intermediate_Hash c)) [0..<SHA1HashSize]))
          })"

definition input_octet :: "byte \<Rightarrow> SHA1Context \<Rightarrow> SHA1Context option" where
  "input_octet b c =
     do {
       c \<leftarrow> put_octet (b AND 0xFF) c;
       let c = c\<lparr>Length_Low := Length_Low c + 8\<rparr>;
       let c = (if Length_Low c = 0
                then (let c = c\<lparr>Length_High := Length_High c + 1\<rparr>
                      in if Length_High c = 0 then c\<lparr>Corrupted := 1\<rparr> else c)
                else c);
       Some (if Message_Block_Index c = 64 then SHA1ProcessMessageBlock c else c)
     }"

fun input_loop :: "nat \<Rightarrow> byte list \<Rightarrow> SHA1Context \<Rightarrow> SHA1Context option" where
  "input_loop 0 message c = Some c"
| "input_loop (Suc n) message c =
     (if Corrupted c \<noteq> 0 then Some c
      else (case message of
              [] \<Rightarrow> None
            | b # bs \<Rightarrow> input_octet b c \<bind> input_loop n bs))"

definition SHA1Input ::
  "SHA1Context option \<Rightarrow> byte list option \<Rightarrow> u32 \<Rightarrow> (int \<times> SHA1Context option) option" where
  "SHA1Input context message_array len =
     (if len = 0 then Some (shaSuccess, context)
      else (case (context, message_array) of
              (Some c, Some msg) \<Rightarrow>
                if Computed c \<noteq> 0 then Some (shaStateError, Some (c\<lparr>Corrupted := shaStateError\<rparr>))
                else if Corrupted c \<noteq> 0 then Some (Corrupted c, Some c)
                else do {
                  c \<leftarrow> input_loop (unat len) msg c;
                  Some (shaSuccess, Some c)
                }
            | _ \<Rightarrow> Some (shaNull, context)))"

text \<open>\<open>shax\<close>: hash the four little-endian octets of \<open>len\<close>, then \<open>len\<close> octets of data.\<close>

definition shax :: "SHA1Context \<Rightarrow> byte list \<Rightarrow> u32 \<Rightarrow> byte list option" where
  "shax context data len =
     do {
       let (_, ctx) = SHA1Reset (Some context);
       (_, ctx) \<leftarrow> SHA1Input ctx (Some (le_bytes 4 len)) 4;
       (_, ctx) \<leftarrow> SHA1Input ctx (Some data) len;
       (_, _, result) \<leftarrow> SHA1Result ctx True;
       result
     }"

section \<open>Reference definition\<close>

definition sha_f :: "nat \<Rightarrow> u32 \<Rightarrow> u32 \<Rightarrow> u32 \<Rightarrow> u32" where
  "sha_f t x y z =
     (if t < 20 then (x AND y) XOR (NOT x AND z)
      else if t < 40 then x XOR y XOR z
      else if t < 60 then (x AND y) XOR (x AND z) XOR (y AND z)
      else x XOR y XOR z)"

definition sha_K :: "nat \<Rightarrow> u32" where
  "sha_K t = (if t < 20 then 0x5A827999 else if t < 40 then 0x6ED9EBA1
              else if t < 60 then 0x8F1BBCDC else 0xCA62C1D6)"

function sha_W :: "byte list \<Rightarrow> nat \<Rightarrow> u32" where
  "sha_W M t =
     (if t < 16
      then le_word (rev (bytes_at (4 * t) 4 M))
      else word_rotl 1 (sha_W M (t - 3) XOR sha_W M (t - 8) XOR sha_W M (t - 14) XOR sha_W M (t - 16)))"
  by pat_completeness auto
termination by (relation "measure snd") auto

declare sha_W.simps [simp del]

definition sha_step :: "byte list \<Rightarrow> nat \<Rightarrow> sha_regs \<Rightarrow> sha_regs" where
  "sha_step M t r =
     (case r of (a, b, c, d, e) \<Rightarrow>
        (word_rotl 5 a + sha_f t b c d + e + sha_K t + sha_W M t, a, word_rotl 30 b, c, d))"

definition sha_compress :: "u32 list \<Rightarrow> byte list \<Rightarrow> u32 list" where
  "sha_compress H M =
     (case fold (sha_step M) [0..<80] (H ! 0, H ! 1, H ! 2, H ! 3, H ! 4) of
        (a, b, c, d, e) \<Rightarrow> [H ! 0 + a, H ! 1 + b, H ! 2 + c, H ! 3 + d, H ! 4 + e])"

definition sha_pad :: "byte list \<Rightarrow> byte list" where
  "sha_pad m =
     m @ [0x80] @ replicate ((119 - length m mod 64) mod 64) 0
       @ rev (le_bytes 8 (of_nat (8 * length m) :: u64))"

fun sha_blocks :: "u32 list \<Rightarrow> byte list \<Rightarrow> u32 list" where
  "sha_blocks H m =
     (if length m < 64 then H else sha_blocks (sha_compress H (take 64 m)) (drop 64 m))"

declare sha_blocks.simps [simp del]

definition sha_H0 :: "u32 list" where
  "sha_H0 = [0x67452301, 0xEFCDAB89, 0x98BADCFE, 0x10325476, 0xC3D2E1F0]"

definition sha1_spec :: "byte list \<Rightarrow> byte list" where
  "sha1_spec m = concat (map (\<lambda>h. rev (le_bytes 4 h)) (sha_blocks sha_H0 (sha_pad m)))"

section \<open>Vocabulary of the proofs\<close>

text \<open>
  \<open>sha_tail m\<close>: the octets after the last full block; \<open>length_field\<close>: the stored length;
  \<open>absorbed c m\<close>: the context \<open>c\<close> has taken in exactly the message \<open>m\<close> (the invariant of the
  streaming interface); \<open>sha1_calls\<close>: a reset, one input call per chunk and a result call.
\<close>

definition sha_tail :: "byte list \<Rightarrow> byte list" where
  "sha_tail m = drop (64 * (length m div 64)) m"

definition length_field :: "u32 \<Rightarrow> u32 \<Rightarrow> byte list" where
  "length_field hi lo =
    [ucast (drop_bit 24 hi), ucast (drop_bit 16 hi), ucast (drop_bit 8 hi), ucast hi,
     ucast (drop_bit 24 lo), ucast (drop_bit 16 lo), ucast (drop_bit 8 lo), ucast lo]"

fun SHA1Inputs :: "SHA1Context option \<Rightarrow> byte list list \<Rightarrow> SHA1Context option option" where
  "SHA1Inputs ctx [] = Some ctx"
| "SHA1Inputs ctx (b # bs) =
     do {
       (_, ctx) \<leftarrow> SHA1Input ctx (Some b) (of_nat (length b));
       SHA1Inputs ctx bs
     }"

definition sha1_calls :: "SHA1Context \<Rightarrow> byte list list \<Rightarrow> byte list option" where
  "sha1_calls c chunks =
     do {
       let (_, ctx) = SHA1Reset (Some c);
       ctx \<leftarrow> SHA1Inputs ctx chunks;
       (_, _, digest) \<leftarrow> SHA1Result ctx True;
       digest
     }"

definition blank_context :: SHA1Context where
  "blank_context = \<lparr>Intermediate_Hash = replicate 5 0, Length_Low = 0, Length_High = 0,
     Message_Block_Index = 0, Message_Block = replicate 64 0, Computed = 0, Corrupted = 0\<rparr>"

section \<open>The compression function is the reference one\<close>

lemma circular_shift_rotl:
  assumes "0 < n" "n < 32"
  shows "SHA1CircularShift n w = word_rotl n w"
proof (rule bit_word_eqI)
  fix i assume "i < LENGTH(32)"
  then have "(i + (32 - n)) mod 32 = (if i < n then 32 + i - n else i - n)"
    using assms by (auto simp: mod_if)
  then show "bit (SHA1CircularShift n w) i \<longleftrightarrow> bit (word_rotl n w) i"
    using assms \<open>i < LENGTH(32)\<close>
    by (auto simp: SHA1CircularShift_def bit_simps dest: bit_imp_le_length)
qed

lemma bytes_at_4: "off + 4 \<le> length M \<Longrightarrow>
   bytes_at off 4 M = [M ! off, M ! (off + 1), M ! (off + 2), M ! (off + 3)]"
  by (rule nth_equalityI) (auto simp: numeral_eq_Suc less_Suc_eq)

lemma block_word_schedule:
  "length M = 64 \<Longrightarrow> t < 16 \<Longrightarrow> block_word M t = sha_W M t"
  by (simp add: block_word_def sha_W.simps [of M t] bytes_at_4 push_bit_or ac_simps)

lemma length_extend_schedule [simp]: "length (extend_schedule k W) = length W + k"
  by (induction k arbitrary: W) (simp_all add: Let_def)

lemma extend_schedule_correct:
  assumes "16 \<le> length W" "\<forall>t < length W. W ! t = sha_W M t" "t < length W + k"
  shows "extend_schedule k W ! t = sha_W M t"
  using assms
proof (induction k arbitrary: W)
  case 0
  then show ?case by simp
next
  case (Suc k)
  let ?n = "length W"
  let ?w = "SHA1CircularShift 1 (W ! (?n - 3) XOR W ! (?n - 8) XOR W ! (?n - 14) XOR W ! (?n - 16))"
  have "?w = sha_W M ?n"
    using Suc.prems(1,2) by (simp add: circular_shift_rotl sha_W.simps [of M ?n])
  then have "\<forall>t < length (W @ [?w]). (W @ [?w]) ! t = sha_W M t"
    using Suc.prems(2) by (auto simp: nth_append less_Suc_eq)
  moreover have "16 \<le> length (W @ [?w])" "t < length (W @ [?w]) + k"
    using Suc.prems by simp_all
  ultimately have "extend_schedule k (W @ [?w]) ! t = sha_W M t"
    by (intro Suc.IH)
  then show ?case by (simp only: extend_schedule.simps Let_def)
qed

lemma message_schedule_correct:
  "length M = 64 \<Longrightarrow> t < 80 \<Longrightarrow> message_schedule M ! t = sha_W M t"
  unfolding message_schedule_def
  by (rule extend_schedule_correct) (auto simp: block_word_schedule)

lemma choose_or_xor: "(x AND y) OR (NOT x AND z) = (x AND y) XOR (NOT x AND (z :: u32))"
  by (rule bit_word_eqI) (auto simp: bit_simps)

lemma majority_or_xor:
  "(x AND y) OR (x AND z) OR (y AND z) = (x AND y) XOR (x AND z) XOR (y AND (z :: u32))"
  by (rule bit_word_eqI) (auto simp: bit_simps)

lemma round_step:
  assumes "length M = 64" "t < 80" "\<And>B C D. f B C D = sha_f t B C D" "K = sha_K t"
  shows "sha_round f K (message_schedule M) t r = sha_step M t r"
  using assms by (auto simp: sha_round_def sha_step_def message_schedule_correct
      circular_shift_rotl Let_def ac_simps split: prod.split)

lemma fold_rounds:
  assumes "length M = 64" "j \<le> 80"
    and "\<And>t B C D. i \<le> t \<Longrightarrow> t < j \<Longrightarrow> f B C D = sha_f t B C D"
    and "\<And>t. i \<le> t \<Longrightarrow> t < j \<Longrightarrow> K = sha_K t"
  shows "fold (sha_round f K (message_schedule M)) [i..<j] r = fold (sha_step M) [i..<j] r"
  by (rule fold_cong) (use assms in \<open>auto intro!: round_step\<close>)

lemma upto_split: "i \<le> j \<Longrightarrow> j \<le> k \<Longrightarrow> [i..<k] = [i..<j] @ [j..<k]" for i j k :: nat
  using upt_add_eq_append [of i j "k - j"] by simp

lemma upto_80: "[0..<80] = [0..<20] @ [20..<40] @ [40..<60] @ [60..<80]"
  by (simp only: upto_split [of 0 20 80] upto_split [of 20 40 80] upto_split [of 40 60 80])

lemma process_block_correct:
  assumes "length (Message_Block c) = 64"
  shows "SHA1ProcessMessageBlock c =
    c\<lparr>Intermediate_Hash := sha_compress (Intermediate_Hash c) (Message_Block c),
       Message_Block_Index := 0\<rparr>"
  unfolding SHA1ProcessMessageBlock_def Let_def sha_compress_def upto_80
  by (simp add: fold_rounds assms sha_f_def sha_K_def choose_or_xor majority_or_xor
      del: upt_rec_numeral split: prod.split)

section \<open>Streaming\<close>

lemma length_sha_compress [simp]: "length (sha_compress H M) = 5"
  by (simp add: sha_compress_def split: prod.split del: upt_rec_numeral)

lemma length_sha_blocks: "length H = 5 \<Longrightarrow> length (sha_blocks H m) = 5"
proof (induction H m rule: sha_blocks.induct)
  case (1 H m)
  then show ?case by (subst sha_blocks.simps) auto
qed

lemma length_sha_tail [simp]: "length (sha_tail m) = length m mod 64"
  by (simp add: sha_tail_def minus_mult_div_eq_mod)

lemma sha_tail_append:
  assumes "length m mod 64 + length xs < 64"
  shows "sha_tail (m @ xs) = sha_tail m @ xs"
proof -
  have "length m + length xs = 64 * (length m div 64) + (length m mod 64 + length xs)" by simp
  then have "(length m + length xs) div 64 = length m div 64"
    using assms by (metis add.right_neutral div_less div_mult_self4 zero_neq_numeral)
  then show ?thesis by (simp add: sha_tail_def)
qed

lemma sha_blocks_append:
  assumes "length m mod 64 + length xs \<le> 64"
  shows "sha_blocks H (m @ xs) =
    (if length m mod 64 + length xs = 64
     then sha_compress (sha_blocks H m) (sha_tail m @ xs)
     else sha_blocks H m)"
  using assms
proof (induction H m rule: sha_blocks.induct)
  case (1 H m)
  show ?case
  proof (cases "length m < 64")
    case True
    with "1.prems" show ?thesis
      by (auto simp: sha_tail_def sha_blocks.simps [of H "m @ xs"] sha_blocks.simps [of H m] sha_blocks.simps [of _ "[]"])
  next
    case False
    then have "length (drop 64 m) mod 64 = length m mod 64"
      and "length m div 64 = Suc (length (drop 64 m) div 64)"
      by (simp_all add: le_mod_geq le_div_geq)
    with False "1.IH" "1.prems" show ?thesis
      by (simp add: sha_tail_def sha_blocks.simps [of H "m @ xs"] sha_blocks.simps [of H m] add.commute)
  qed
qed

lemma sha_blocks_aligned:
  assumes "length m mod 64 = 0" "length xs = 64"
  shows "sha_blocks H (m @ xs) = sha_compress (sha_blocks H m) xs"
proof -
  have "sha_tail m = []" using assms(1) by (metis length_0_conv length_sha_tail)
  then show ?thesis using assms by (simp add: sha_blocks_append)
qed

lemma put_octet_eq:
  "length (Message_Block c) = 64 \<Longrightarrow> Message_Block_Index c < 64 \<Longrightarrow>
   put_octet v c = Some (c\<lparr>Message_Block := put_bytes (Message_Block_Index c) [v] (Message_Block c),
                           Message_Block_Index := Suc (Message_Block_Index c)\<rparr>)"
  by (simp add: put_octet_def put_bytes_def upd_conv_take_nth_drop)

lemma put_zeros_upto_eq:
  assumes "length (Message_Block c) = 64" "Message_Block_Index c \<le> lim" "lim \<le> 64"
  shows "put_zeros_upto lim c =
    Some (c\<lparr>Message_Block := put_bytes (Message_Block_Index c)
                (replicate (lim - Message_Block_Index c) 0) (Message_Block c),
            Message_Block_Index := lim\<rparr>)"
  using assms
proof (induction lim c rule: put_zeros_upto.induct)
  case (1 lim c)
  show ?case
  proof (cases "Message_Block_Index c < lim")
    case False
    with "1.prems" show ?thesis
      by (simp add: put_zeros_upto.simps [of lim c] put_bytes_def)
  next
    case True
    let ?i = "Message_Block_Index c"
    let ?d = "c\<lparr>Message_Block := put_bytes ?i [0] (Message_Block c), Message_Block_Index := Suc ?i\<rparr>"
    have d: "put_octet 0 c = Some ?d" using True "1.prems" by (simp add: put_octet_eq)
    have "put_zeros_upto lim ?d = Some (?d\<lparr>Message_Block :=
        put_bytes (Suc ?i) (replicate (lim - Suc ?i) 0) (Message_Block ?d), Message_Block_Index := lim\<rparr>)"
      using "1.IH" [OF True, of ?d] d True "1.prems" by simp
    moreover have "put_bytes (Suc ?i) (replicate (lim - Suc ?i) 0) (put_bytes ?i [0] (Message_Block c))
        = put_bytes ?i (replicate (lim - ?i) 0) (Message_Block c)"
      using True "1.prems" by (auto simp: put_bytes_def Suc_diff_Suc [symmetric] simp del: Suc_diff_Suc)
    ultimately show ?thesis
      using True d by (simp add: put_zeros_upto.simps [of lim c])
  qed
qed

lemma list_of_8: "length zs = 8 \<Longrightarrow>
    \<exists>p0 p1 p2 p3 p4 p5 p6 p7. zs = [p0, p1, p2, p3, p4, p5, p6, p7]"
  by (auto simp: numeral_eq_Suc length_Suc_conv)

lemma update_last_8:
  assumes "length xs = 64"
  shows "xs[56 := a, 57 := b, 58 := c, 59 := d, 60 := e, 61 := f, 62 := g, 63 := h]
         = take 56 xs @ [a, b, c, d, e, f, g, h]"
proof -
  define ys where "ys = take 56 xs"
  obtain p0 p1 p2 p3 p4 p5 p6 p7 where "drop 56 xs = [p0, p1, p2, p3, p4, p5, p6, p7]"
    using list_of_8 [of "drop 56 xs"] assms by auto
  then have "xs = ys @ [p0, p1, p2, p3, p4, p5, p6, p7]"
    unfolding ys_def by (metis append_take_drop_id)
  moreover have "length ys = 56" using assms by (simp add: ys_def)
  ultimately show ?thesis by (simp add: list_update_append)
qed

lemma length_length_field [simp]: "length (length_field hi lo) = 8"
  by (simp add: length_field_def)

lemma update_length_field:
  "length xs = 64 \<Longrightarrow>
   xs[56 := ucast (drop_bit 24 hi), 57 := ucast (drop_bit 16 hi), 58 := ucast (drop_bit 8 hi),
      59 := ucast hi, 60 := ucast (drop_bit 24 lo), 61 := ucast (drop_bit 16 lo),
      62 := ucast (drop_bit 8 lo), 63 := ucast lo] = take 56 xs @ length_field hi lo"
  by (simp only: update_last_8 length_field_def)

lemma length_octets:
  assumes "unat hi * 2 ^ 32 + unat lo = n"
  shows "rev (le_bytes 8 (of_nat n :: u64)) = length_field hi lo"
proof -
  have "(of_nat n :: u64) = push_bit 32 (ucast hi) + ucast lo"
    by (simp add: push_bit_eq_mult flip: assms)
  also have "\<dots> = push_bit 32 (ucast hi) OR ucast lo"
    by (rule disjunctive_add) (auto simp: bit_simps dest: bit_imp_le_length)
  finally have w: "(of_nat n :: u64) = push_bit 32 (ucast hi) OR ucast lo" .
  have "le_bytes 8 (push_bit 32 (ucast hi) OR ucast lo :: u64) =
     [ucast lo, ucast (drop_bit 8 lo), ucast (drop_bit 16 lo), ucast (drop_bit 24 lo),
      ucast hi, ucast (drop_bit 8 hi), ucast (drop_bit 16 hi), ucast (drop_bit 24 hi)]"
    by (auto intro!: bit_word_eqI simp: bit_simps bit_beyond)
  then show ?thesis by (simp add: w length_field_def)
qed
definition absorbed :: "SHA1Context \<Rightarrow> byte list \<Rightarrow> bool" where
  "absorbed c m \<longleftrightarrow>
     Intermediate_Hash c = sha_blocks sha_H0 m
     \<and> Message_Block_Index c = length m mod 64
     \<and> length (Message_Block c) = 64
     \<and> take (length m mod 64) (Message_Block c) = sha_tail m
     \<and> unat (Length_High c) * 2 ^ 32 + unat (Length_Low c) = 8 * length m
     \<and> Computed c = 0 \<and> Corrupted c = 0"

lemma absorbed_reset:
  "length (Message_Block c) = 64 \<Longrightarrow>
   \<exists>c'. SHA1Reset (Some c) = (shaSuccess, Some c') \<and> absorbed c' []"
  by (simp add: SHA1Reset_def absorbed_def sha_tail_def sha_H0_def sha_blocks.simps)

lemma length_counter_step:
  fixes hi lo :: u32
  assumes "unat hi * 2 ^ 32 + unat lo = 8 * n" "8 * Suc n < 2 ^ 64"
  shows "lo + 8 = 0 \<Longrightarrow> hi + 1 \<noteq> 0 \<and> unat (hi + 1) * 2 ^ 32 + unat (lo + 8) = 8 * Suc n"
    and "lo + 8 \<noteq> 0 \<Longrightarrow> unat hi * 2 ^ 32 + unat (lo + 8) = 8 * Suc n"
proof -
  have n: "unat hi * 4294967296 + unat lo = 8 * n" using assms(1) by simp
  then have "unat lo = 8 * (n - 536870912 * unat hi)" by linarith
  then obtain k where k: "unat lo = 8 * k" by blast
  have "unat lo < 4294967296" using unsigned_less [of lo] by simp
  then have "Suc k \<le> 536870912" using k by simp
  then have le: "unat lo + 8 \<le> 4294967296" using k by simp
  have sum: "unat (lo + 8) = (unat lo + 8) mod 4294967296" by (simp add: unat_word_ariths)
  { assume z: "lo + 8 = 0"
    then have "(unat lo + 8) mod 4294967296 = 0" using sum by simp
    then have l: "unat lo + 8 = 4294967296" using le by (cases "unat lo + 8 = 4294967296") auto
    then have "unat hi + 1 < 4294967296" using assms(2) n by simp
    moreover have "unat (hi + 1) = (unat hi + 1) mod 4294967296" by (simp add: unat_word_ariths)
    ultimately have "unat (hi + 1) = unat hi + 1" by simp
    then show "hi + 1 \<noteq> 0 \<and> unat (hi + 1) * 2 ^ 32 + unat (lo + 8) = 8 * Suc n"
      using n l z by auto }
  { assume "lo + 8 \<noteq> 0"
    then have "(unat lo + 8) mod 4294967296 \<noteq> 0" using sum by (metis unat_eq_zero)
    then have "unat lo + 8 < 4294967296" using le by (cases "unat lo + 8 = 4294967296") auto
    then show "unat hi * 2 ^ 32 + unat (lo + 8) = 8 * Suc n" using sum n by simp }
qed

lemma absorbed_input_octet:
  assumes "absorbed c m" "8 * Suc (length m) < 2 ^ 64"
  shows "\<exists>c'. input_octet b c = Some c' \<and> absorbed c' (m @ [b])"
proof -
  let ?i = "Message_Block_Index c"
  let ?B = "put_bytes ?i [b] (Message_Block c)"
  have i: "?i = length m mod 64" "?i < 64" and len: "length (Message_Block c) = 64"
    and tk: "take ?i (Message_Block c) = sha_tail m"
    and cnt: "unat (Length_High c) * 2 ^ 32 + unat (Length_Low c) = 8 * length m"
    and st: "Computed c = 0" "Corrupted c = 0" "Intermediate_Hash c = sha_blocks sha_H0 m"
    using assms(1) by (auto simp: absorbed_def)
  have B: "length ?B = 64" "take (Suc ?i) ?B = sha_tail m @ [b]"
    using len i tk by (auto simp: put_bytes_def)
  define hi where "hi = (if Length_Low c + 8 = 0 then Length_High c + 1 else Length_High c)"
  let ?d = "c\<lparr>Message_Block := ?B, Message_Block_Index := Suc ?i,
              Length_Low := Length_Low c + 8, Length_High := hi\<rparr>"
  have cnt': "unat hi * 2 ^ 32 + unat (Length_Low c + 8) = 8 * Suc (length m)"
    and nz: "Length_Low c + 8 = 0 \<Longrightarrow> hi \<noteq> 0"
    using length_counter_step [OF cnt assms(2)] by (auto simp: hi_def)
  have run: "input_octet b c = Some (if Suc ?i = 64 then SHA1ProcessMessageBlock ?d else ?d)"
    using i len nz
    by (auto simp: input_octet_def put_octet_eq Let_def hi_def split: if_splits)
  show ?thesis
  proof (cases "Suc ?i = 64")
    case True
    then have "take 64 ?B = sha_tail m @ [b]" using B(2) by simp
    then have "?B = sha_tail m @ [b]" using B(1) by simp
    moreover have "Suc (length m) mod 64 = 0" using True i by (simp add: mod_Suc)
    ultimately show ?thesis
      using True i B run cnt' st
      by (simp add: process_block_correct absorbed_def sha_blocks_append sha_tail_append
          sha_tail_def [of "m @ [b]"] div_Suc)
  next
    case False
    then have m: "Suc (length m) mod 64 = Suc ?i" using i by (simp add: mod_Suc)
    with False i B run cnt' st show ?thesis
      by (simp add: absorbed_def sha_blocks_append sha_tail_append)
  qed
qed

lemma absorbed_input_loop:
  assumes "absorbed c m" "n \<le> length bs" "8 * (length m + n) < 2 ^ 64"
  shows "\<exists>c'. input_loop n bs c = Some c' \<and> absorbed c' (m @ take n bs)"
  using assms
proof (induction n arbitrary: bs c m)
  case 0
  then show ?case by simp
next
  case (Suc n)
  then obtain b bs' where bs: "bs = b # bs'" by (cases bs) auto
  from Suc.prems obtain d where d: "input_octet b c = Some d" "absorbed d (m @ [b])"
    using absorbed_input_octet [of c m b] by auto
  then have "\<exists>c'. input_loop n bs' d = Some c' \<and> absorbed c' ((m @ [b]) @ take n bs')"
    using Suc.prems bs by (intro Suc.IH) auto
  moreover have "Corrupted c = 0" using Suc.prems(1) by (simp add: absorbed_def)
  ultimately show ?case using bs d by simp
qed

lemma absorbed_SHA1Input:
  assumes "absorbed c m" "unat len \<le> length bs" "8 * (length m + unat len) < 2 ^ 64"
  shows "\<exists>c'. SHA1Input (Some c) (Some bs) len = Some (shaSuccess, Some c') \<and>
              absorbed c' (m @ take (unat len) bs)"
proof (cases "len = 0")
  case True
  with assms(1) show ?thesis by (simp add: SHA1Input_def)
next
  case False
  with absorbed_input_loop [OF assms] assms(1) show ?thesis
    by (auto simp: SHA1Input_def absorbed_def)
qed

lemma pad_message_two_blocks:
  assumes "length (Message_Block c) = 64" "Message_Block_Index c < 64" "55 < Message_Block_Index c"
  shows "\<exists>c'. SHA1PadMessage c = Some c' \<and> Intermediate_Hash c' =
    sha_compress
      (sha_compress (Intermediate_Hash c) (take (Message_Block_Index c) (Message_Block c)
         @ 0x80 # replicate (63 - Message_Block_Index c) 0))
      (replicate 56 0 @ length_field (Length_High c) (Length_Low c))"
proof -
  let ?i = "Message_Block_Index c" and ?B = "Message_Block c"
  have B: "put_bytes (Suc ?i) (replicate (63 - ?i) 0) (put_bytes ?i [0x80] ?B) =
      take ?i ?B @ 0x80 # replicate (63 - ?i) 0"
    using assms by (simp add: put_bytes_def)
  show ?thesis
    using assms unfolding SHA1PadMessage_def
    by (simp add: put_octet_eq put_zeros_upto_eq process_block_correct update_length_field B)
qed

lemma pad_message_one_block:
  assumes "length (Message_Block c) = 64" "Message_Block_Index c \<le> 55"
  shows "\<exists>c'. SHA1PadMessage c = Some c' \<and> Intermediate_Hash c' =
    sha_compress (Intermediate_Hash c) (take (Message_Block_Index c) (Message_Block c)
         @ 0x80 # replicate (55 - Message_Block_Index c) 0
         @ length_field (Length_High c) (Length_Low c))"
proof -
  let ?i = "Message_Block_Index c" and ?B = "Message_Block c"
  have B: "take 56 (put_bytes (Suc ?i) (replicate (55 - ?i) 0) (put_bytes ?i [0x80] ?B)) =
      take ?i ?B @ 0x80 # replicate (55 - ?i) 0"
  proof -
    have "56 - ?i = Suc (55 - ?i)" using assms(2) by simp
    then show ?thesis using assms by (simp add: put_bytes_def)
  qed
  show ?thesis
    using assms unfolding SHA1PadMessage_def
    by (simp add: put_octet_eq put_zeros_upto_eq process_block_correct update_length_field B)
qed

lemma absorbed_SHA1PadMessage:
  assumes "absorbed c m"
  shows "\<exists>c'. SHA1PadMessage c = Some c' \<and> Intermediate_Hash c' = sha_blocks sha_H0 (sha_pad m)"
proof -
  let ?r = "length m mod 64" and ?L = "length_field (Length_High c) (Length_Low c)"
  have i: "Message_Block_Index c = ?r" and len: "length (Message_Block c) = 64"
    and tk: "take ?r (Message_Block c) = sha_tail m" and H: "Intermediate_Hash c = sha_blocks sha_H0 m"
    and L: "rev (le_bytes 8 (of_nat (8 * length m) :: u64)) = ?L"
    using assms length_octets [of "Length_High c" "Length_Low c" "8 * length m"]
    by (auto simp: absorbed_def)
  show ?thesis
  proof (cases "?r > 55")
    case True
    let ?p = "0x80 # replicate (63 - ?r) 0"
    have z: "(119 - ?r) mod 64 = (63 - ?r) + 56" using True by simp
    have pad: "sha_pad m = (m @ ?p) @ replicate 56 0 @ ?L"
      unfolding sha_pad_def L z replicate_add by simp
    have "(length m + Suc (63 - ?r)) mod 64 = 0" by presburger
    then have "sha_blocks sha_H0 (sha_pad m) =
        sha_compress (sha_blocks sha_H0 (m @ ?p)) (replicate 56 0 @ ?L)"
      unfolding pad by (intro sha_blocks_aligned) simp_all
    also have "sha_blocks sha_H0 (m @ ?p) = sha_compress (sha_blocks sha_H0 m) (sha_tail m @ ?p)"
      using sha_blocks_append [of m ?p sha_H0] by simp
    finally show ?thesis
      using pad_message_two_blocks [of c] True i len tk H by simp
  next
    case False
    let ?p = "0x80 # replicate (55 - ?r) 0"
    have z: "(119 - ?r) mod 64 = 55 - ?r" using False by (simp add: le_mod_geq)
    have pad: "sha_pad m = m @ ?p @ ?L"
      unfolding sha_pad_def L z by simp
    have "sha_blocks sha_H0 (sha_pad m) = sha_compress (sha_blocks sha_H0 m) (sha_tail m @ ?p @ ?L)"
      unfolding pad using sha_blocks_append [of m "?p @ ?L" sha_H0] False by simp
    then show ?thesis
      using pad_message_one_block [of c] False i len tk H by simp
  qed
qed

lemma digest_octets:
  assumes "length H = 5"
  shows "map (digest_octet H) [0..<SHA1HashSize] = concat (map (\<lambda>h. rev (le_bytes 4 h)) H)"
proof -
  obtain a b c d e where "H = [a, b, c, d, e]"
    using assms by (auto simp: numeral_eq_Suc length_Suc_conv)
  then show ?thesis by (simp add: SHA1HashSize_def digest_octet_def upt_conv_Cons)
qed

lemma absorbed_SHA1Result:
  assumes "absorbed c m"
  shows "\<exists>c'. SHA1Result (Some c) True = Some (shaSuccess, Some c', Some (sha1_spec m)) \<and> Computed c' = 1"
proof -
  obtain c' where c': "SHA1PadMessage c = Some c'" "Intermediate_Hash c' = sha_blocks sha_H0 (sha_pad m)"
    using absorbed_SHA1PadMessage [OF assms] by blast
  have "length (sha_blocks sha_H0 (sha_pad m)) = 5" by (rule length_sha_blocks) (simp add: sha_H0_def)
  then show ?thesis
    using assms c' by (simp add: SHA1Result_def absorbed_def sha1_spec_def digest_octets)
qed

lemma absorbed_SHA1Inputs:
  assumes "absorbed c m" "\<forall>b \<in> set chunks. length b < 2 ^ 32"
    "8 * (length m + length (concat chunks)) < 2 ^ 64"
  shows "\<exists>c'. SHA1Inputs (Some c) chunks = Some (Some c') \<and> absorbed c' (m @ concat chunks)"
  using assms
proof (induction chunks arbitrary: c m)
  case Nil
  then show ?case by simp
next
  case (Cons b bs)
  have len: "unat (of_nat (length b) :: u32) = length b"
    using Cons.prems(2) by (simp add: unat_of_nat)
  then obtain d where d: "SHA1Input (Some c) (Some b) (of_nat (length b)) = Some (shaSuccess, Some d)"
      "absorbed d (m @ b)"
    using absorbed_SHA1Input [OF Cons.prems(1), of "of_nat (length b)" b] Cons.prems(3) by auto
  then show ?case
    using Cons.IH [OF d(2)] Cons.prems(2,3) by (simp add: add.assoc)
qed

lemmas absorbed_runs = absorbed_reset absorbed_SHA1Input absorbed_SHA1Inputs absorbed_SHA1Result

section \<open>Properties\<close>

text \<open>
  C1: However a message of fewer than \<open>2 ^ 61\<close> octets is cut into \<open>SHA1Input\<close> calls, reset,
  input and result return exactly the FIPS 180 digest of the whole message, starting from a
  context with arbitrary contents.
\<close>

theorem sha1_streaming_correct:
  assumes "length (Message_Block c) = 64" "\<forall>b \<in> set chunks. length b < 2 ^ 32"
    "8 * length (concat chunks) < 2 ^ 64"
  shows "sha1_calls c chunks = Some (sha1_spec (concat chunks))"
proof -
  obtain c0 where c0: "SHA1Reset (Some c) = (shaSuccess, Some c0)" "absorbed c0 []"
    using absorbed_reset [OF assms(1)] by blast
  then obtain c1 where c1: "SHA1Inputs (Some c0) chunks = Some (Some c1)" "absorbed c1 (concat chunks)"
    using absorbed_SHA1Inputs [OF c0(2) assms(2)] assms(3) by auto
  then show ?thesis
    using absorbed_SHA1Result [OF c1(2)] c0(1) by (auto simp: sha1_calls_def)
qed

lemma sha1_streaming_correct_witness:
  "sha1_calls blank_context [[0x61], [0x62, 0x63]] = Some (sha1_spec [0x61, 0x62, 0x63])"
  using sha1_streaming_correct [of blank_context "[[0x61], [0x62, 0x63]]"]
  by (simp add: blank_context_def)

text \<open>
  \<open>shax\<close> hashes the little-endian length word followed by the data, and never leaves its
  buffers, when \<open>data\<close> holds at least \<open>len\<close> octets.
\<close>

theorem shax_correct:
  assumes "length (Message_Block c) = 64" "unat len \<le> length data"
  shows "shax c data len = Some (sha1_spec (le_bytes 4 len @ take (unat len) data))"
proof -
  have lt: "unat len < 2 ^ 32" using unsigned_less [of len] by simp
  obtain c0 where c0: "SHA1Reset (Some c) = (shaSuccess, Some c0)" "absorbed c0 []"
    using absorbed_reset [OF assms(1)] by blast
  obtain c1 where c1: "SHA1Input (Some c0) (Some (le_bytes 4 len)) 4 = Some (shaSuccess, Some c1)"
      "absorbed c1 (le_bytes 4 len)"
    using absorbed_SHA1Input [OF c0(2), of 4 "le_bytes 4 len"] by (auto simp del: le_bytes_numeral)
  obtain c2 where c2: "SHA1Input (Some c1) (Some data) len = Some (shaSuccess, Some c2)"
      "absorbed c2 (le_bytes 4 len @ take (unat len) data)"
    using absorbed_SHA1Input [OF c1(2) assms(2)] lt by (auto simp del: le_bytes_numeral)
  obtain c3 where "SHA1Result (Some c2) True = Some (shaSuccess, Some c3,
      Some (sha1_spec (le_bytes 4 len @ take (unat len) data)))"
    using absorbed_SHA1Result [OF c2(2)] by blast
  then show ?thesis using c0(1) c1(1) c2(1) by (simp add: shax_def del: le_bytes_numeral)
qed

lemma shax_correct_witness:
  "shax blank_context [0x61, 0x62, 0x63] 2 = Some (sha1_spec [2, 0, 0, 0, 0x61, 0x62])"
  using shax_correct [of blank_context 2 "[0x61, 0x62, 0x63]"]
  by (simp add: blank_context_def)

text \<open>
  Once a digest has been taken from a context that absorbed a message, feeding it more data
  reports \<open>shaStateError\<close>, and the poisoned context refuses to yield a digest with the same code.
\<close>

theorem sha1_input_after_result:
  assumes "absorbed c m" "len \<noteq> 0"
  shows "\<exists>c1 c2 d. SHA1Result (Some c) True = Some (shaSuccess, Some c1, Some d)
    \<and> SHA1Input (Some c1) (Some data) len = Some (shaStateError, Some c2)
    \<and> SHA1Result (Some c2) True = Some (shaStateError, Some c2, None)"
proof -
  obtain c1 where "SHA1Result (Some c) True = Some (shaSuccess, Some c1, Some (sha1_spec m))"
      "Computed c1 = 1"
    using absorbed_SHA1Result [OF assms(1)] by blast
  with assms(2) show ?thesis
    by (simp add: SHA1Input_def SHA1Result_def shaStateError_def)
qed

lemma sha1_input_after_result_witness:
  "\<exists>c1 c2 d. SHA1Result (snd (SHA1Reset (Some blank_context))) True = Some (shaSuccess, Some c1, Some d)
    \<and> SHA1Input (Some c1) (Some [7]) 1 = Some (shaStateError, Some c2)
    \<and> SHA1Result (Some c2) True = Some (shaStateError, Some c2, None)"
proof -
  have "length (Message_Block blank_context) = 64" by (simp add: blank_context_def)
  then obtain c where c: "SHA1Reset (Some blank_context) = (shaSuccess, Some c)" "absorbed c []"
    using absorbed_reset by blast
  have nz: "(1 :: u32) \<noteq> 0" by simp
  show ?thesis using sha1_input_after_result [OF c(2) nz, of "[7]"] by (simp add: c(1))
qed

text \<open>
  The octet that brings the length counter to \<open>2 ^ 64\<close> bits marks the context corrupted, and
  from then on both entry points return the code 1, which is \<open>shaNull\<close> and not
  \<open>shaInputTooLong\<close>.
\<close>

theorem sha1_too_long_code:
  assumes "Length_Low c = - 8" "Length_High c = - 1" "Message_Block_Index c < 63" "Computed c = 0"
  shows "\<exists>c'. input_octet b c = Some c'
    \<and> SHA1Input (Some c') (Some data) 1 = Some (shaNull, Some c')
    \<and> SHA1Result (Some c') True = Some (shaNull, Some c', None)
    \<and> shaNull \<noteq> shaInputTooLong"
  using assms
  by (simp add: input_octet_def put_octet_def Let_def SHA1Input_def SHA1Result_def
      shaNull_def shaInputTooLong_def)

lemma sha1_too_long_code_witness:
  "\<exists>c'. input_octet 0 (blank_context\<lparr>Length_Low := - 8, Length_High := - 1\<rparr>) = Some c'
    \<and> SHA1Input (Some c') (Some [9]) 1 = Some (shaNull, Some c')
    \<and> SHA1Result (Some c') True = Some (shaNull, Some c', None)
    \<and> shaNull \<noteq> shaInputTooLong"
  by (rule sha1_too_long_code) (simp_all add: blank_context_def)

end
