(* ===== verification/Cstring.thy ===== *)
theory Cstring
  imports Prelude
begin

text \<open>
  The C string routines: \<^verbatim>\<open>src/main/string.c\<close>, and \<open>strcpy\<close>, \<open>strlen\<close>, \<open>memcmp\<close> of
  \<^verbatim>\<open>src/loader_init.c\<close>.

  A \<open>char *\<close> argument is the rest of its object from that address on; a pointer result is an
  offset from the argument (\<open>None\<close> for \<open>NULL\<close>).  \<open>char\<close> is signed on this machine, so
  comparisons read bytes with \<open>sint\<close>.  Reading or writing past the end of the object gives no
  result (outer \<open>None\<close>).
\<close>

section \<open>The routines\<close>

text \<open>A string literal with its terminator.\<close>

definition lit :: "string \<Rightarrow> byte list" where
  "lit s = map of_char s @ [0]"

definition is_space :: "byte \<Rightarrow> bool" where
  "is_space l \<longleftrightarrow> l = 0x20 \<or> l = 0x09 \<or> l = 0x0A \<or> l = 0x0D"

fun match :: "byte list \<Rightarrow> byte list \<Rightarrow> nat option option" where
  "match l [] = None"
| "match l (c # m) =
     (if c = 0 then Some (Some 0)
      else (case l of
              [] \<Rightarrow> None
            | d # l' \<Rightarrow> if d \<noteq> c then Some None else map_option (map_option Suc) (match l' m)))"

text \<open>
  \<open>strncpy\<close>: in \<open>while (*src && n--)\<close> the test of \<open>n\<close> still decrements it, so leaving the first
  loop with \<open>n\<close> equal to 0 leaves the wrapped value behind for the second loop.
\<close>

fun strncpy_copy :: "byte list \<Rightarrow> byte list \<Rightarrow> u32 \<Rightarrow> (byte list \<times> byte list \<times> u32) option" where
  "strncpy_copy dst [] n = None"
| "strncpy_copy dst (c # src) n =
     (if c = 0 then Some ([], dst, n)
      else if n = 0 then Some ([], dst, n - 1)
      else (case dst of
              [] \<Rightarrow> None
            | _ # dst' \<Rightarrow> do {
                (w, d, k) \<leftarrow> strncpy_copy dst' src (n - 1);
                Some (c # w, d, k)
              }))"

fun strncpy_fill :: "byte list \<Rightarrow> u32 \<Rightarrow> byte list option" where
  "strncpy_fill dst n =
     (if n = 0 then Some dst
      else (case dst of [] \<Rightarrow> None | _ # dst' \<Rightarrow> map_option (Cons 0) (strncpy_fill dst' (n - 1))))"

declare strncpy_fill.simps [simp del]

definition strncpy :: "byte list \<Rightarrow> byte list \<Rightarrow> u32 \<Rightarrow> byte list option" where
  "strncpy dst src n =
     do {
       (w, d, k) \<leftarrow> strncpy_copy dst src n;
       z \<leftarrow> strncpy_fill d k;
       Some (w @ z)
     }"

fun strcpy :: "byte list \<Rightarrow> byte list \<Rightarrow> byte list option" where
  "strcpy dst [] = None"
| "strcpy [] (c # src) = None"
| "strcpy (_ # dst) (c # src) =
     (if c = 0 then Some (0 # dst) else map_option (Cons c) (strcpy dst src))"

fun strcat :: "byte list \<Rightarrow> byte list \<Rightarrow> byte list option" where
  "strcat [] src = None"
| "strcat (d # dst) src =
     (if d \<noteq> 0 then map_option (Cons d) (strcat dst src) else strcpy (d # dst) src)"

fun strlen :: "byte list \<Rightarrow> nat option" where
  "strlen [] = None"
| "strlen (c # s) = (if c = 0 then Some 0 else map_option Suc (strlen s))"

fun strncmp :: "byte list \<Rightarrow> byte list \<Rightarrow> u32 \<Rightarrow> int option" where
  "strncmp [] s2 n = (if n = 0 then Some 0 else None)"
| "strncmp (a # s1) s2 n =
     (if n = 0 then Some 0
      else (case s2 of
              [] \<Rightarrow> None
            | b # s2' \<Rightarrow>
                if sint a > sint b then Some 1
                else if sint a < sint b then Some (- 1)
                else if a = 0 then Some 0
                else strncmp s1 s2' (n - 1)))"

fun strchr :: "byte list \<Rightarrow> int \<Rightarrow> nat option option" where
  "strchr [] c = None"
| "strchr (a # s) c =
     (if a = 0 then Some None
      else if c = sint a then Some (Some 0)
      else map_option (map_option Suc) (strchr s c))"

text \<open>The scan of \<open>strrchr\<close> walks down from the terminator and stops before the first character.\<close>

fun strrchr_scan :: "byte list \<Rightarrow> int \<Rightarrow> nat \<Rightarrow> nat option" where
  "strrchr_scan s c 0 = None"
| "strrchr_scan s c (Suc e) = (if c = sint (s ! Suc e) then Some (Suc e) else strrchr_scan s c e)"

definition strrchr :: "byte list \<Rightarrow> int \<Rightarrow> nat option option" where
  "strrchr s c = do { e \<leftarrow> strlen s; Some (strrchr_scan s c e) }"

text \<open>
  \<open>strtok_simple\<close>: the static \<open>last\<close> is an offset into the object \<open>buf\<close> being tokenised; the
  result is the returned pointer, the changed object and the new \<open>last\<close>.
\<close>

definition strtok_simple ::
  "byte list \<Rightarrow> nat option \<Rightarrow> byte \<Rightarrow> nat option \<Rightarrow> (nat option \<times> byte list \<times> nat option) option" where
  "strtok_simple buf inp c prev =
     (case (if inp = None then prev else inp) of
        None \<Rightarrow> Some (None, buf, prev)
      | Some i \<Rightarrow> do {
          a \<leftarrow> rd1 buf i;
          let i = (if a = c then i + 1 else i);
          tmp \<leftarrow> strchr (drop i buf) (sint c);
          (case tmp of
             Some k \<Rightarrow> do {
               buf \<leftarrow> wr buf (i + k) [0];
               Some (Some i, buf, Some (i + k + 1))
             }
           | None \<Rightarrow> Some (Some i, buf, None))
        })"

fun memcmp :: "byte list \<Rightarrow> byte list \<Rightarrow> nat \<Rightarrow> int option" where
  "memcmp cs ct 0 = Some 0"
| "memcmp (a # cs) (b # ct) (Suc n) =
     (if uint a - uint b \<noteq> 0 then Some (uint a - uint b) else memcmp cs ct n)"
| "memcmp cs ct (Suc n) = None"

text \<open>Tokenising a whole path: the first call gets the buffer, later calls \<open>NULL\<close>.\<close>

definition cstr_at :: "byte list \<Rightarrow> nat \<Rightarrow> byte list" where
  "cstr_at buf i = takeWhile (\<lambda>b. b \<noteq> 0) (drop i buf)"

fun strtok_all :: "nat \<Rightarrow> byte list \<Rightarrow> nat option \<Rightarrow> byte \<Rightarrow> nat option \<Rightarrow> byte list list option" where
  "strtok_all 0 buf inp c prev = None"
| "strtok_all (Suc fuel) buf inp c prev =
     do {
       (r, buf, prev) \<leftarrow> strtok_simple buf inp c prev;
       (case r of
          None \<Rightarrow> Some []
        | Some i \<Rightarrow> do {
            rest \<leftarrow> strtok_all fuel buf None c prev;
            Some (cstr_at buf i # rest)
          })
     }"

fun join_path :: "byte \<Rightarrow> byte list list \<Rightarrow> byte list" where
  "join_path c [] = []"
| "join_path c [s] = s"
| "join_path c (s # ss) = s @ c # join_path c ss"

section \<open>Terminated strings\<close>

lemma sint_eq_iff: "sint a = sint b \<longleftrightarrow> a = b" for a b :: "'a::len word"
  by (auto intro: word_uint_eqI simp: uint_sint)

lemma sint_eq_zero: "sint a = 0 \<longleftrightarrow> a = 0" for a :: "'a::len word"
  using sint_eq_iff [of a 0] by simp

lemma takeWhile_cstring [simp]: "0 \<notin> set s \<Longrightarrow> takeWhile (\<lambda>b. b \<noteq> 0) (s @ 0 # r) = s"
  by (induction s) auto

lemma strlen_cstring [simp]: "0 \<notin> set s \<Longrightarrow> strlen (s @ 0 # r) = Some (length s)"
  by (induction s) auto

lemma strlen_SomeD: "strlen s = Some n \<Longrightarrow> n < length s \<and> s ! n = 0 \<and> 0 \<notin> set (take n s)"
  by (induction s arbitrary: n) (auto split: if_splits)

lemma strlen_None_iff: "strlen s = None \<longleftrightarrow> 0 \<notin> set s"
  by (induction s) auto

lemma cstring_cases:
  assumes "strlen s = Some n"
  obtains t r where "s = t @ 0 # r" "length t = n" "0 \<notin> set t"
proof -
  from strlen_SomeD [OF assms] have "s = take n s @ 0 # drop (Suc n) s" "length (take n s) = n"
    "0 \<notin> set (take n s)"
    by (simp_all add: id_take_nth_drop [symmetric]) (metis id_take_nth_drop)
  then show ?thesis using that by blast
qed

lemma strcpy_cstring:
  "0 \<notin> set s \<Longrightarrow> length s < length dst \<Longrightarrow>
   strcpy dst (s @ 0 # r) = Some (s @ 0 # drop (Suc (length s)) dst)"
proof (induction s arbitrary: dst)
  case Nil
  then show ?case by (cases dst) auto
next
  case (Cons a s)
  then show ?case by (cases dst) auto
qed

lemma strcpy_overflow:
  "0 \<notin> set s \<Longrightarrow> length dst \<le> length s \<Longrightarrow> strcpy dst (s @ 0 # r) = None"
proof (induction s arbitrary: dst)
  case Nil
  then show ?case by (cases dst) auto
next
  case (Cons a s)
  then show ?case by (cases dst) auto
qed

lemma length_strcpy: "strcpy dst src = Some d \<Longrightarrow> length d = length dst"
  by (induction dst src arbitrary: d rule: strcpy.induct) (auto split: if_splits)

lemma strcat_cstring:
  "0 \<notin> set d \<Longrightarrow> strcat (d @ 0 # r) src = map_option (\<lambda>x. d @ x) (strcpy (0 # r) src)"
  by (cases "strcpy (0 # r) src"; induction d; auto)

lemma strchr_hit:
  "0 \<notin> set s \<Longrightarrow> \<forall>b \<in> set s. sint b \<noteq> c \<Longrightarrow> a \<noteq> 0 \<Longrightarrow> sint a = c \<Longrightarrow>
   strchr (s @ a # r) c = Some (Some (length s))"
  by (induction s) auto

lemma strchr_miss:
  "0 \<notin> set s \<Longrightarrow> \<forall>b \<in> set s. sint b \<noteq> c \<Longrightarrow> strchr (s @ 0 # r) c = Some None"
  by (induction s) auto

lemma match_cstring:
  "0 \<notin> set m \<Longrightarrow> 0 \<notin> set s \<Longrightarrow>
   match (s @ 0 # r) (m @ 0 # q) =
     Some (if take (length m) s = m then Some (length m) else None)"
proof (induction m arbitrary: s)
  case Nil
  then show ?case by simp
next
  case (Cons c m)
  then show ?case by (cases s) auto
qed

lemma lit_no_nul: "lit s = map of_char s @ 0 # []"
  by (simp add: lit_def)

section \<open>Copying\<close>

lemma strncpy_copy_cstring:
  assumes "0 \<notin> set s" "length s \<le> unat n" "unat n \<le> length dst"
  shows "strncpy_copy dst (s @ 0 # r) n = Some (s, drop (length s) dst, n - of_nat (length s))"
  using assms
proof (induction s arbitrary: dst n)
  case Nil
  then show ?case by simp
next
  case (Cons c s)
  then obtain d dst' where dst: "dst = d # dst'" by (cases dst) auto
  have n: "n \<noteq> 0" using Cons.prems(2) by auto
  then have u: "unat (n - 1) = unat n - 1" by (simp add: unat_minus_one)
  have "strncpy_copy dst' (s @ 0 # r) (n - 1) =
      Some (s, drop (length s) dst', (n - 1) - of_nat (length s))"
    using Cons.prems dst u by (intro Cons.IH) auto
  then show ?case using Cons.prems(1) dst n by (simp add: algebra_simps)
qed

lemma strncpy_copy_exhausted:
  assumes "0 \<notin> set s" "unat n < length s" "strncpy_copy dst (s @ r) n = Some (w, d, k)"
  shows "k = - 1 \<and> length d \<le> length dst"
  using assms
proof (induction s arbitrary: dst n w)
  case Nil
  then show ?case by simp
next
  case (Cons c s)
  show ?case
  proof (cases "n = 0")
    case True
    with Cons.prems show ?thesis by auto
  next
    case False
    then have "unat (n - 1) = unat n - 1" by (simp add: unat_minus_one)
    moreover have "0 < unat n" using False by (simp add: unat_gt_0)
    ultimately have "unat (n - 1) < length s" using Cons.prems(2) by simp
    with Cons.IH Cons.prems False show ?thesis
      by (auto split: list.splits bind_splits) fastforce+
  qed
qed

lemma strncpy_fill_eq:
  "strncpy_fill d n =
     (if unat n \<le> length d then Some (replicate (unat n) 0 @ drop (unat n) d) else None)"
proof (induction d arbitrary: n)
  case Nil
  then show ?case by (simp add: strncpy_fill.simps unat_eq_0)
next
  case (Cons a d)
  show ?case
  proof (cases "n = 0")
    case True
    then show ?thesis by (simp add: strncpy_fill.simps)
  next
    case False
    then obtain k where "unat n = Suc k" "unat (n - 1) = k"
      by (metis Suc_pred unat_gt_0 unat_minus_one diff_Suc_1)
    with False Cons.IH [of "n - 1"] show ?thesis by (simp add: strncpy_fill.simps [of "a # d"])
  qed
qed

section \<open>Tokenising\<close>

lemma strtok_simple_component:
  assumes "s \<noteq> []" "0 \<notin> set s" "c \<notin> set s" "c \<noteq> 0"
    and "(if inp = None then prev else inp) = Some (length pre)"
  shows "strtok_simple (pre @ s @ c # r) inp c prev =
      Some (Some (length pre), pre @ s @ 0 # r, Some (length pre + length s + 1))"
    and "strtok_simple (pre @ s @ 0 # r) inp c prev = Some (Some (length pre), pre @ s @ 0 # r, None)"
proof -
  obtain a t where s: "s = a # t" using assms(1) by (cases s) auto
  have ne: "\<forall>b \<in> set s. sint b \<noteq> sint c" using assms(3) by (auto simp: sint_eq_iff)
  have rd: "rd1 (pre @ s @ q) (length pre) = Some a" "a \<noteq> c" for q
    using s assms(3) by (auto simp: rd1_def nth_append)
  have "strchr (s @ c # r) (sint c) = Some (Some (length s))"
    using assms ne by (intro strchr_hit) auto
  then show "strtok_simple (pre @ s @ c # r) inp c prev =
      Some (Some (length pre), pre @ s @ 0 # r, Some (length pre + length s + 1))"
    using assms(5) rd by (simp add: strtok_simple_def Let_def wr_def put_bytes_def del: if_split)
  have "strchr (s @ 0 # r) (sint c) = Some None"
    using assms ne by (intro strchr_miss) auto
  then show "strtok_simple (pre @ s @ 0 # r) inp c prev = Some (Some (length pre), pre @ s @ 0 # r, None)"
    using assms(5) rd by (simp add: strtok_simple_def Let_def del: if_split)
qed

lemma cstr_at_component [simp]: "0 \<notin> set s \<Longrightarrow> cstr_at (pre @ s @ 0 # r) (length pre) = s"
  by (simp add: cstr_at_def)

definition path_component :: "byte \<Rightarrow> byte list \<Rightarrow> bool" where
  "path_component c s \<longleftrightarrow> s \<noteq> [] \<and> 0 \<notin> set s \<and> c \<notin> set s"

lemma strtok_all_components:
  assumes "\<forall>s \<in> set ss. path_component c s" "ss \<noteq> []" "length ss < fuel" "c \<noteq> 0"
    and "(if inp = None then prev else inp) = Some (length pre)"
  shows "strtok_all fuel (pre @ join_path c ss @ 0 # r) inp c prev = Some ss"
  using assms
proof (induction ss arbitrary: fuel inp prev pre)
  case Nil
  then show ?case by simp
next
  case (Cons s ss)
  then obtain f where fuel: "fuel = Suc f" by (cases fuel) auto
  have s: "s \<noteq> []" "0 \<notin> set s" "c \<notin> set s" using Cons.prems(1) by (auto simp: path_component_def)
  show ?case
  proof (cases ss)
    case Nil
    obtain g where "f = Suc g" using Cons.prems(3) fuel Nil by (cases f) auto
    with Nil show ?thesis
      using strtok_simple_component(2) [OF s Cons.prems(4,5)] s fuel by (simp add: strtok_simple_def)
  next
    case (Cons t ts)
    let ?tail = "join_path c ss @ 0 # r"
    have "strtok_all f ((pre @ s @ [0]) @ ?tail) None c (Some (length (pre @ s @ [0]))) = Some ss"
      using Cons.prems Cons fuel by (intro Cons.IH) auto
    then show ?thesis
      using strtok_simple_component(1) [OF s Cons.prems(4,5), of ?tail] s fuel Cons by simp
  qed
qed

section \<open>Searching backwards\<close>

lemma strrchr_scan_Some:
  "strrchr_scan s c e = Some k \<longleftrightarrow>
     0 < k \<and> k \<le> e \<and> c = sint (s ! k) \<and> (\<forall>j. k < j \<and> j \<le> e \<longrightarrow> c \<noteq> sint (s ! j))"
proof -
  define hit where "hit j \<longleftrightarrow> c = sint (s ! j)" for j
  have "strrchr_scan s c e = Some k \<longleftrightarrow>
     0 < k \<and> k \<le> e \<and> hit k \<and> (\<forall>j. k < j \<and> j \<le> e \<longrightarrow> \<not> hit j)"
  proof (induction e)
    case (Suc e)
    have "strrchr_scan s c (Suc e) = (if hit (Suc e) then Some (Suc e) else strrchr_scan s c e)"
      by (simp add: hit_def)
    then show ?case using Suc by (cases "hit (Suc e)") (auto simp: le_Suc_eq)
  qed auto
  then show ?thesis by (simp only: hit_def)
qed

lemma strrchr_scan_None:
  "strrchr_scan s c e = None \<longleftrightarrow> (\<forall>j. 0 < j \<and> j \<le> e \<longrightarrow> c \<noteq> sint (s ! j))"
  by (induction e) (auto simp: le_Suc_eq)

section \<open>Properties\<close>

text \<open>
  When the source string fits (its length is at most \<open>n\<close>, and \<open>n\<close> at most the size of the
  destination), \<open>strncpy\<close> copies it, pads with zeros up to \<open>n\<close> and leaves the rest alone.
\<close>

theorem strncpy_fits:
  assumes "0 \<notin> set s" "length s \<le> unat n" "unat n \<le> length dst"
  shows "strncpy dst (s @ 0 # r) n =
    Some (s @ replicate (unat n - length s) 0 @ drop (unat n) dst)"
proof -
  have "length s < 2 ^ 32" using assms(2) unat_u32_less [of n] by simp
  then have "unat (n - of_nat (length s)) = unat n - length s"
    using assms(2) by (simp add: unat_sub word_le_nat_alt unat_of_nat)
  then show ?thesis
    using assms by (simp add: strncpy_def strncpy_copy_cstring strncpy_fill_eq)
qed

lemma strncpy_fits_witness:
  "strncpy [9, 9, 9, 9, 9] [0x61, 0x62, 0] 4 = Some [0x61, 0x62, 0, 0, 9]"
  using strncpy_fits [of "[0x61, 0x62]" 4 "[9, 9, 9, 9, 9]" "[]"] by (simp add: replicate_numeral)

text \<open>
  When the source is longer than \<open>n\<close>, \<open>strncpy\<close> never returns with defined behaviour: the
  count wraps to \<open>2 ^ 32 - 1\<close> and the padding loop runs out of any destination smaller than that.
\<close>

theorem strncpy_truncation_overruns:
  assumes "0 \<notin> set s" "unat n < length s" "length dst < 2 ^ 32 - 1"
  shows "strncpy dst (s @ r) n = None"
proof (cases "strncpy_copy dst (s @ r) n")
  case None
  then show ?thesis by (simp add: strncpy_def)
next
  case (Some x)
  then obtain w d k where x: "strncpy_copy dst (s @ r) n = Some (w, d, k)" by (cases x) auto
  then have "k = - 1" "length d \<le> length dst"
    using strncpy_copy_exhausted [OF assms(1,2)] by blast+
  then show ?thesis using x assms(3) by (simp add: strncpy_def strncpy_fill_eq unat_u32_minus_one)
qed

lemma strncpy_truncation_overruns_witness: "strncpy (replicate 8 0) [0x62, 0x2F, 0x61, 0] 2 = None"
  using strncpy_truncation_overruns [of "[0x62, 0x2F, 0x61]" 2 "replicate 8 0" "[0]"] by simp

text \<open>
  C28: \<open>strncpy\<close> copies a string that has at most \<open>n\<close> characters, pads with zeros up to \<open>n\<close> and leaves the
  rest alone; for a longer one its counter wraps around to \<open>2 ^ 32 - 1\<close> and the padding runs out of the
  destination, whatever its size.
\<close>

theorem strncpy_copies_or_overruns:
  assumes "0 \<notin> set s" "unat n \<le> length dst" "length dst < 2 ^ 32 - 1"
  shows "strncpy dst (s @ 0 # r) n =
    (if length s \<le> unat n then Some (s @ replicate (unat n - length s) 0 @ drop (unat n) dst) else None)"
  using strncpy_fits [OF assms(1) _ assms(2)] strncpy_truncation_overruns [OF assms(1) _ assms(3), of n "0 # r"] by simp

lemma strncpy_copies_or_overruns_witness:
  "strncpy [9, 9, 9, 9, 9] [0x61, 0x62, 0] 4 = Some [0x61, 0x62, 0, 0, 9] \<and> strncpy (replicate 8 0) [0x62, 0x2F, 0x61, 0] 2 = None"
  using strncpy_copies_or_overruns [of "[0x61, 0x62]" 4 "[9, 9, 9, 9, 9]" "[]"]
    strncpy_copies_or_overruns [of "[0x62, 0x2F, 0x61]" 2 "replicate 8 0" "[]"] by (simp add: replicate_numeral)

text \<open>
  C29: Splitting a path with \<open>strtok_simple\<close>, the first call on the buffer and the later ones on
  \<open>NULL\<close>, yields exactly its components, with or without a leading separator.
\<close>

theorem strtok_splits_path:
  assumes "\<forall>s \<in> set ss. path_component c s" "ss \<noteq> []" "c \<noteq> 0"
  shows "strtok_all (Suc (length ss)) (join_path c ss @ 0 # r) (Some 0) c prev = Some ss
    \<and> strtok_all (Suc (length ss)) (c # join_path c ss @ 0 # r) (Some 0) c prev = Some ss"
proof
  note tok = strtok_all_components [OF assms(1,2) _ assms(3), where fuel = "Suc (length ss)" and r = r]
  show "strtok_all (Suc (length ss)) (join_path c ss @ 0 # r) (Some 0) c prev = Some ss"
    using tok [of "Some 0" prev "[]"] by (simp del: strtok_all.simps)
  have "strtok_all (Suc (length ss)) ([c] @ join_path c ss @ 0 # r) (Some 1) c prev = Some ss"
    using tok [of "Some 1" prev "[c]"] by (simp del: strtok_all.simps)
  moreover obtain b t where "join_path c ss = b # t" "b \<noteq> c"
    using assms(1,2) by (cases "(c, ss)" rule: join_path.cases) (auto simp: path_component_def neq_Nil_conv)
  then have "strtok_simple (c # join_path c ss @ 0 # r) (Some 0) c prev =
      strtok_simple ([c] @ join_path c ss @ 0 # r) (Some 1) c prev"
    by (simp add: strtok_simple_def rd1_def Let_def)
  ultimately show "strtok_all (Suc (length ss)) (c # join_path c ss @ 0 # r) (Some 0) c prev = Some ss"
    by simp
qed

lemma strtok_splits_path_witness:
  "strtok_all 3 [0x2F, 0x61, 0x2F, 0x62, 0] (Some 0) 0x2F None = Some [[0x61], [0x62]]"
  using strtok_splits_path [of "[[0x61], [0x62]]" "0x2F" "[]" None]
  by (simp add: path_component_def numeral_3_eq_3 del: strtok_all.simps)

text \<open>
  \<open>strncmp\<close> of a component against a directory name of the component's length is 0 exactly
  when the bytes are equal, and the name need not be terminated.
\<close>

theorem strncmp_component:
  assumes "0 \<notin> set s" "length s \<le> length t" "length s < 2 ^ 32"
  shows "strncmp (s @ 0 # r) t (of_nat (length s)) = Some 0 \<longleftrightarrow> take (length s) t = s"
  using assms
proof (induction s arbitrary: t)
  case Nil
  then show ?case by simp
next
  case (Cons a s)
  then obtain b t' where t: "t = b # t'" by (cases t) auto
  have nz: "(of_nat (length (a # s)) :: u32) \<noteq> 0"
    using Cons.prems(3) by (simp add: word_of_nat_eq_0_iff take_bit_nat_eq_self del: of_nat_Suc)
      (auto dest!: dvd_imp_le)
  have "(of_nat (length (a # s)) - 1 :: u32) = of_nat (length s)" by simp
  with Cons nz t show ?case
    by (auto simp: sint_eq_iff linorder_neq_iff [of "sint a" "sint b"] simp del: of_nat_Suc)
qed

lemma strncmp_component_witness:
  "strncmp [0x62, 0x6F, 0] [0x62, 0x6F, 0x6F, 0x74] 2 = Some 0"
  using strncmp_component [of "[0x62, 0x6F]" "[0x62, 0x6F, 0x6F, 0x74]" "[]"] by simp

text \<open>
  \<open>strrchr\<close> returns the greatest position of the character in the string, but it never looks
  at position 0: a character that occurs only at the front is reported as absent.
\<close>

theorem strrchr_last_but_first:
  assumes "0 \<notin> set s" "c \<noteq> 0"
  shows "(strrchr (s @ 0 # r) (sint c) = Some (Some k) \<longleftrightarrow>
           0 < k \<and> k < length s \<and> s ! k = c \<and> (\<forall>j < length s. k < j \<longrightarrow> s ! j \<noteq> c))
    \<and> (strrchr (s @ 0 # r) (sint c) = Some None \<longleftrightarrow> (\<forall>j < length s. 0 < j \<longrightarrow> s ! j \<noteq> c))"
proof -
  let ?b = "s @ 0 # r"
  have hit: "sint c = sint (?b ! j) \<longleftrightarrow> j < length s \<and> s ! j = c" if "j \<le> length s" for j
    using that assms(2) by (cases "j = length s") (auto simp: nth_append sint_eq_iff sint_eq_zero)
  have res: "strrchr ?b (sint c) = Some (strrchr_scan ?b (sint c) (length s))"
    using assms(1) by (simp add: strrchr_def)
  have "strrchr_scan ?b (sint c) (length s) = Some k \<longleftrightarrow>
      0 < k \<and> k < length s \<and> s ! k = c \<and> (\<forall>j < length s. k < j \<longrightarrow> s ! j \<noteq> c)"
    unfolding strrchr_scan_Some by (auto simp: hit) (simp add: nth_append)
  moreover have "strrchr_scan ?b (sint c) (length s) = None \<longleftrightarrow>
      (\<forall>j < length s. 0 < j \<longrightarrow> s ! j \<noteq> c)"
    unfolding strrchr_scan_None by (auto simp: hit)
  ultimately show ?thesis by (simp add: res)
qed

lemma strrchr_last_but_first_witness:
  "strrchr [0x2F, 0x61, 0] (sint (0x2F :: byte)) = Some None"
  using strrchr_last_but_first [of "[0x2F, 0x61]" "0x2F" "[]" 1]
  by (auto simp: less_Suc_eq nth_Cons')

end
