(* ===== verification/Misc.thy ===== *)
theory Misc
  imports Cstring
begin

text \<open>
  The support routines of \<^verbatim>\<open>src/main/eb/misc.c\<close> that the network code uses: the Internet checksum,
  the random number generator, the comparison of strings without case, and the parsing of numbers
  and addresses.  \<open>unsigned long\<close> is a 32-bit word; strings are byte objects with their NUL, and
  reading past the object is \<open>None\<close>.
\<close>

section \<open>The Internet checksum\<close>

fun ipchksum_loop :: "nat \<Rightarrow> u32 \<Rightarrow> byte list \<Rightarrow> u32" where
  "ipchksum_loop i acc [] = acc"
| "ipchksum_loop i acc (b # bs) =
     (let value = ucast b;
          value = (if odd i then push_bit 8 value else value);
          acc = acc + value;
          acc = (if acc > 0xFFFF then (acc + drop_bit 16 acc) AND 0xFFFF else acc)
      in ipchksum_loop (i + 1) acc bs)"

definition ipchksum :: "byte list \<Rightarrow> u32 \<Rightarrow> u16 option" where
  "ipchksum data len =
     do {
       bs \<leftarrow> rd data 0 (unat len);
       Some (NOT (ucast (ipchksum_loop 0 0 bs)) AND 0xFFFF)
     }"

definition bswap_16 :: "u16 \<Rightarrow> u16" where
  "bswap_16 w = push_bit 8 w OR drop_bit 8 w"

definition add_ipchksums :: "u32 \<Rightarrow> u16 \<Rightarrow> u16 \<Rightarrow> u16" where
  "add_ipchksums offset acc new =
     (let acc = NOT acc AND 0xFFFF;
          new = NOT new AND 0xFFFF;
          new = (if offset AND 1 \<noteq> 0 then bswap_16 new else new);
          checksum = ucast acc + ucast new :: u32;
          checksum = (if checksum > 0xFFFF then checksum - 0xFFFF else checksum)
      in ucast (NOT checksum AND 0xFFFF))"

section \<open>Random numbers\<close>

text \<open>An \<open>int32_t\<close> is its value; \<open>i32\<close> is the conversion of a result to that type.\<close>

definition i32 :: "int \<Rightarrow> int" where
  "i32 k = signed_take_bit 31 k"

text \<open>C division rounds towards zero.\<close>

definition c_div :: "int \<Rightarrow> int \<Rightarrow> int" where
  "c_div a b = (if a < 0 then - ((- a) div b) else a div b)"

text \<open>
  The first argument is the value of \<open>currticks\<close>, the second the station address, six bytes;
  \<open>seed\<close> is the static variable.
\<close>

definition random_seed :: "u32 \<Rightarrow> byte list \<Rightarrow> int \<Rightarrow> int" where
  "random_seed ticks node seed =
     (if seed = 0 then sint (ticks + le_word (take 4 node) + scast (le_word (take 2 (drop 4 node)) :: u16) :: u32)
      else seed)"

definition random :: "u32 \<Rightarrow> byte list \<Rightarrow> int \<Rightarrow> int" where
  "random ticks node seed =
     (let seed = random_seed ticks node seed;
          q = c_div seed 53668;
          seed = i32 (i32 (40014 * i32 (seed - i32 (53668 * q))) - i32 (12211 * q))
      in if seed < 0 then i32 (seed + 2147483563) else seed)"

section \<open>Strings and numbers\<close>

fun strcasecmp :: "byte list \<Rightarrow> byte list \<Rightarrow> int option" where
  "strcasecmp (a # as) (b # bs) =
     (if a \<noteq> 0 \<and> b \<noteq> 0 \<and> a AND NOT 0x20 = b AND NOT 0x20 then strcasecmp as bs
      else Some (sint (a AND NOT 0x20) - sint (b AND NOT 0x20)))"
| "strcasecmp as bs = None"

text \<open>The result is the value and the number of characters consumed.\<close>

fun strtoul_loop :: "u32 \<Rightarrow> nat \<Rightarrow> byte list \<Rightarrow> (u32 \<times> nat) option" where
  "strtoul_loop ret n [] = None"
| "strtoul_loop ret n (p # ps) =
     (if 0x30 \<le> p \<and> p \<le> 0x39 then strtoul_loop (ret * 10 + ucast (p - 0x30)) (n + 1) ps else Some (ret, n))"

text \<open>With another base the end pointer is not set; the callers only use 10.\<close>

definition strtoul :: "byte list \<Rightarrow> int \<Rightarrow> (u32 \<times> nat) option" where
  "strtoul p base = (if base \<noteq> 10 then Some (0, 0) else strtoul_loop 0 0 p)"

definition bswap_32 :: "u32 \<Rightarrow> u32" where
  "bswap_32 w = push_bit 24 w OR (push_bit 8 w AND 0xFF0000) OR (drop_bit 8 w AND 0xFF00) OR drop_bit 24 w"

text \<open>
  The loop of \<open>inet_aton\<close>; the first argument counts the remaining numbers after this one, the
  result is the address and the characters consumed, or \<open>None\<close> inside when the text is refused.
\<close>

fun inet_aton_loop :: "nat \<Rightarrow> byte list \<Rightarrow> nat \<Rightarrow> u32 \<Rightarrow> (u32 \<times> nat) option option" where
  "inet_aton_loop j start p ip =
     do {
       (val, n) \<leftarrow> strtoul (drop p start) 10;
       if n = 0 \<or> val > 255 then Some None
       else if j = 0 then Some (Some (push_bit 8 ip OR val, p + n))
       else do {
         c \<leftarrow> rd1 start (p + n);
         if c \<noteq> 0x2E then Some None
         else inet_aton_loop (j - 1) start (p + n + 1) (push_bit 8 ip OR val)
       }
     }"

declare inet_aton_loop.simps [simp del]

definition inet_aton :: "byte list \<Rightarrow> (u32 option \<times> int) option" where
  "inet_aton start =
     do {
       r \<leftarrow> inet_aton_loop 3 start 0 0;
       Some (case r of None \<Rightarrow> (None, 0) | Some (ip, n) \<Rightarrow> (Some (bswap_32 ip), int n))
     }"

section \<open>The checksum is a ones' complement sum\<close>

text \<open>
  The sum of the 16-bit little-endian words of the data, the first byte at an even or odd place, and
  the representative that ones' complement addition gives: 0 only for 0, otherwise from 1 to 65535.
\<close>

fun ones_total :: "nat \<Rightarrow> byte list \<Rightarrow> nat" where
  "ones_total i [] = 0"
| "ones_total i (b # bs) = (if odd i then 256 * unat b else unat b) + ones_total (i + 1) bs"

definition ones_rep :: "nat \<Rightarrow> nat" where
  "ones_rep t = (if t = 0 then 0 else (t - 1) mod 65535 + 1)"

lemma ones_rep_le: "ones_rep t \<le> 65535"
proof -
  have "(t - Suc 0) mod 65535 < 65535" by simp
  then have "(t - Suc 0) mod 65535 \<le> 65534" by linarith
  then show ?thesis by (simp add: ones_rep_def)
qed

lemma ones_rep_add:
  assumes "v \<le> 65535"
  shows "ones_rep (t + v) = (if ones_rep t + v > 65535 then ones_rep t + v - 65535 else ones_rep t + v)"
proof (cases "t = 0")
  case True
  then show ?thesis using assms by (auto simp: ones_rep_def)
next
  case False
  define m where "m = (t - Suc 0) mod 65535"
  have m: "m < 65535" by (simp add: m_def)
  have "(t + v - 1) mod 65535 = (m + v) mod 65535" using False by (simp add: m_def mod_simps)
  also have "\<dots> = (if m + v \<ge> 65535 then m + v - 65535 else m + v)"
    using m assms by (simp add: mod_if le_mod_geq)
  finally show ?thesis using False m by (auto simp: ones_rep_def simp flip: m_def)
qed

lemma ipchksum_loop_rep:
  assumes "unat acc = ones_rep t"
  shows "unat (ipchksum_loop i acc bs) = ones_rep (t + ones_total i bs)"
  using assms
proof (induction bs arbitrary: i acc t)
  case (Cons b bs)
  define v :: u32 where "v = (if odd i then push_bit 8 (ucast b) else ucast b)"
  have b: "unat (ucast b :: u32) = unat b" using unat_u8_less [of b] by (simp add: unsigned_ucast_eq take_bit_nat_eq_self)
  then have v: "unat v = (if odd i then 256 * unat b else unat b)" "unat v \<le> 65280"
    using unat_u8_less [of b] by (auto simp: v_def push_bit_eq_mult unat_word_ariths)
  have a: "unat acc \<le> 65535" using Cons.prems ones_rep_le by simp
  then have s: "unat (acc + v) = unat acc + unat v" using v(2) by (simp add: unat_word_ariths)
  define acc' where "acc' = (if acc + v > 0xFFFF then (acc + v + drop_bit 16 (acc + v)) AND 0xFFFF else acc + v)"
  have "unat acc' = ones_rep (t + unat v)"
  proof (cases "acc + v > 0xFFFF")
    case True
    then have g: "65535 < unat acc + unat v" using s by (simp add: word_less_nat_alt)
    then have d: "unat (drop_bit 16 (acc + v)) = 1" using s a v(2) by (simp add: unat_drop_bit)
    have "unat ((acc + v + drop_bit 16 (acc + v)) AND mask 16) = unat (acc + v + drop_bit 16 (acc + v)) mod 2 ^ 16"
      by (rule unat_and_mask)
    also have "unat (acc + v + drop_bit 16 (acc + v)) = unat acc + unat v + 1"
      using s d a v(2) by (subst unat_word_ariths) simp
    also have "(unat acc + unat v + 1) mod 2 ^ 16 = unat acc + unat v - 65535"
      using g a v(2) by (simp add: mod_if le_mod_geq)
    finally show ?thesis using True g Cons.prems v(2) by (simp add: acc'_def ones_rep_add mask_eq_exp_minus_1)
  next
    case False
    then show ?thesis using s Cons.prems v(2) by (simp add: acc'_def ones_rep_add word_less_nat_alt)
  qed
  then have "unat (ipchksum_loop (i + 1) acc' bs) = ones_rep (t + unat v + ones_total (i + 1) bs)" by (rule Cons.IH)
  moreover have "ipchksum_loop i acc (b # bs) = ipchksum_loop (i + 1) acc' bs"
    by (simp add: acc'_def v_def Let_def)
  ultimately show ?case using v(1) by (simp add: add.assoc)
qed simp

lemma unat_not_u16: "unat (NOT (w :: u16)) = 65535 - unat w"
proof -
  have "NOT w = - 1 - w" by (simp add: not_eq_complement)
  moreover have "w \<le> - 1" by simp
  moreover have "unat (- 1 :: u16) = 65535" by (simp add: unsigned_minus_1_eq_mask mask_eq_exp_minus_1)
  ultimately show ?thesis using unat_sub [of w "- 1"] by simp
qed

lemma and_u16_all: "(x :: u16) AND 0xFFFF = x"
proof -
  have "(0xFFFF :: u16) = - 1" by simp
  then show ?thesis by (simp only: and.right_neutral)
qed

lemma ipchksum_rep:
  assumes "length data < 2 ^ 32"
  shows "\<exists>c. ipchksum data (of_nat (length data)) = Some c \<and> unat c = 65535 - ones_rep (ones_total 0 data)"
proof -
  have u: "unat (of_nat (length data) :: u32) = length data" using assms by (simp add: unat_of_nat)
  have l: "unat (ipchksum_loop 0 0 data) = ones_rep (ones_total 0 data)"
    using ipchksum_loop_rep [of 0 0 0 data] by (simp add: ones_rep_def)
  then have "unat (ucast (ipchksum_loop 0 0 data) :: u16) = ones_rep (ones_total 0 data)"
    using ones_rep_le [of "ones_total 0 data"] by (simp add: unsigned_ucast_eq take_bit_nat_eq_self)
  then show ?thesis using u by (simp add: ipchksum_def rd_def unat_not_u16 and_u16_all)
qed

lemma ones_total_append: "ones_total i (a @ b) = ones_total i a + ones_total (i + length a) b"
  by (induction a arbitrary: i) simp_all

lemma ones_total_parity: "even i = even j \<Longrightarrow> ones_total i b = ones_total j b"
proof (induction b arbitrary: i j)
  case (Cons x b)
  then show ?case using Cons.IH [of "Suc i" "Suc j"] by simp
qed simp

lemma ones_total_two: "even i \<Longrightarrow> ones_total i (le_bytes 2 (c :: u16) @ b) = unat c + ones_total i b"
proof -
  assume "even i"
  moreover have "ones_total (Suc (Suc i)) b = ones_total i b" by (rule ones_total_parity) simp
  moreover have "unat c = unat c mod 256 + 256 * (unat c div 256)" by simp
  moreover have "unat c div 256 < 256" using unat_u16_less [of c] by simp
  ultimately show ?thesis by (simp add: unat_ucast_byte unat_drop_bit)
qed

lemma ones_rep_cong: "x mod 65535 = y mod 65535 \<Longrightarrow> x = 0 \<longleftrightarrow> y = 0 \<Longrightarrow> ones_rep x = ones_rep y"
proof -
  assume m: "x mod 65535 = y mod 65535" and z: "x = 0 \<longleftrightarrow> y = 0"
  show ?thesis
  proof (cases "x = 0")
    case False
    then have "(x + 65534) mod 65535 = (x - 1) mod 65535" "(y + 65534) mod 65535 = (y - 1) mod 65535"
      using z mod_add_self2 [of "x - 1" 65535] mod_add_self2 [of "y - 1" 65535] by (simp_all add: add.commute)
    moreover have "(x + 65534) mod 65535 = (y + 65534) mod 65535" using m by (metis mod_add_left_eq)
    ultimately show ?thesis using False z by (simp add: ones_rep_def)
  qed (use z in \<open>simp add: ones_rep_def\<close>)
qed

lemma ones_rep_mod: "ones_rep t mod 65535 = t mod 65535"
proof (cases "t = 0")
  case False
  then have "ones_rep t = (t - 1) mod 65535 + 1" by (simp add: ones_rep_def)
  then have "ones_rep t mod 65535 = (t - 1 + 1) mod 65535" by (simp add: mod_Suc_eq)
  then show ?thesis using False by simp
qed (simp add: ones_rep_def)

lemma ones_rep_zero: "ones_rep t = 0 \<longleftrightarrow> t = 0"
  by (simp add: ones_rep_def)

lemma ones_rep_id: "x \<le> 65535 \<Longrightarrow> ones_rep x = x"
  by (auto simp: ones_rep_def)

text \<open>Swapping the bytes multiplies by 256.\<close>

definition swapped :: "nat \<Rightarrow> nat" where
  "swapped n = n mod 256 * 256 + n div 256"

lemma swapped_rep: "ones_rep (256 * t) = swapped (ones_rep t)"
proof -
  define r where "r = ones_rep t"
  have r: "r = 256 * (r div 256) + r mod 256" "r div 256 < 256" using ones_rep_le [of t] by (simp_all add: r_def)
  have s: "swapped r \<le> 65535" using r(2) by (simp add: swapped_def)
  have "(256 * t) mod 65535 = (256 * r) mod 65535" by (metis r_def ones_rep_mod mod_mult_right_eq)
  also have "256 * r = 65535 * (r div 256) + swapped r" using r(1) unfolding swapped_def by linarith
  also have "\<dots> mod 65535 = swapped r mod 65535" by (metis mod_mult_self4)
  finally have "ones_rep (256 * t) = ones_rep (swapped r)"
  proof (rule ones_rep_cong)
    show "256 * t = 0 \<longleftrightarrow> swapped r = 0" using r(1) ones_rep_zero [of t] by (auto simp: swapped_def r_def)
  qed
  then show ?thesis using ones_rep_id [OF s] by (simp add: r_def)
qed

lemma ones_total_odd: "ones_rep (ones_total 1 b) = ones_rep (256 * ones_total 0 b)"
proof (rule ones_rep_cong)
  have "ones_total (Suc i) b mod 65535 = 256 * ones_total i b mod 65535" for i
  proof (induction b arbitrary: i)
    case (Cons x b)
    define w where "w = (if odd i then 256 * unat x else unat x)"
    define w' where "w' = (if odd i then unat x else 256 * unat x)"
    have "256 * w = w' + 65535 * (if odd i then unat x else 0)" by (simp add: w_def w'_def)
    then have "w' mod 65535 = 256 * w mod 65535" by (metis mod_mult_self2)
    then have "(w' + ones_total (Suc (Suc i)) b) mod 65535 = (256 * w + 256 * ones_total (Suc i) b) mod 65535"
      using Cons.IH [of "Suc i"] by (rule mod_add_cong)
    then show ?case by (simp add: w_def w'_def algebra_simps split: if_splits)
  qed simp
  then show "ones_total 1 b mod 65535 = 256 * ones_total 0 b mod 65535" by simp
  have "ones_total (Suc i) b = 0 \<longleftrightarrow> ones_total i b = 0" for i by (induction b arbitrary: i) auto
  then show "ones_total 1 b = 0 \<longleftrightarrow> 256 * ones_total 0 b = 0" by simp
qed

lemma unat_bswap_16: "unat (bswap_16 w) = swapped (unat w)"
proof -
  have m: "(255 :: u16) = mask 8" by (simp add: mask_eq_exp_minus_1)
  have "push_bit 8 w = push_bit 8 (w AND 255)"
    unfolding m by (rule bit_word_eqI) (auto simp: bit_simps)
  moreover have "unat (push_bit 8 (w AND 255) OR drop_bit 8 w) = unat (w AND 255) * 2 ^ 8 + unat (drop_bit 8 w)"
    using unat_u16_less [of w] by (intro unat_push_or) (simp_all add: unat_drop_bit unat_and_255)
  ultimately show ?thesis by (simp add: bswap_16_def swapped_def unat_drop_bit unat_and_255)
qed

lemma unat_not_low: "unat (x :: u32) \<le> 65535 \<Longrightarrow> unat (ucast (NOT x AND 0xFFFF) :: u16) = 65535 - unat x"
proof -
  assume x: "unat x \<le> 65535"
  have "NOT x = - 1 - x" by (simp add: not_eq_complement)
  then have n: "unat (NOT x) = 4294967295 - unat x" using unat_sub [of x "- 1"] by (simp add: unat_u32_minus_one)
  have "unat (NOT x AND mask 16) = unat (NOT x) mod 2 ^ 16" by (rule unat_and_mask)
  then have "unat (NOT x AND 0xFFFF) = (4294967295 - unat x) mod 65536" using n by (simp add: mask_eq_exp_minus_1)
  also have "\<dots> = 65535 - unat x"
  proof -
    have "4294967295 - unat x = 65536 * 65535 + (65535 - unat x)" using x by linarith
    then show ?thesis by (simp only: mod_mult_self4) simp
  qed
  finally show ?thesis by (simp add: unsigned_ucast_eq take_bit_nat_eq_self)
qed

text \<open>
  A header with the checksum in its place verifies: computing the checksum with the field set to
  zero, storing it (in memory order) and summing again gives 0, wherever the field starts at an even
  offset.\<close>

theorem ipchksum_verifies:
  assumes "even (length a)" "length a + 2 + length b < 2 ^ 32"
    "ipchksum (a @ [0, 0] @ b) (of_nat (length a + 2 + length b)) = Some c"
  shows "ipchksum (a @ le_bytes 2 c @ b) (of_nat (length a + 2 + length b)) = Some 0"
proof -
  define t where "t = ones_total 0 (a @ [0, 0] @ b)"
  have c: "unat c = 65535 - ones_rep t"
    using ipchksum_rep [of "a @ [0, 0] @ b"] assms(2,3) by (auto simp: t_def)
  have "ones_total 0 (a @ le_bytes 2 c @ b) = t + unat c"
    using assms(1) ones_total_two [of "length a" c b] ones_total_two [of "length a" 0 b] by (simp add: ones_total_append t_def)
  then have "ones_rep (ones_total 0 (a @ le_bytes 2 c @ b)) = 65535"
    using c ones_rep_le [of t] ones_rep_add [of "unat c" t] by simp
  then show ?thesis
    using ipchksum_rep [of "a @ le_bytes 2 c @ b"] assms(2) by (auto simp: word_unat_eq_iff)
qed

lemma add_ipchksums_parts:
  assumes "length a + length b < 2 ^ 32" "ipchksum a (of_nat (length a)) = Some c" "ipchksum b (of_nat (length b)) = Some d"
  shows "ipchksum (a @ b) (of_nat (length a + length b)) = Some (add_ipchksums (of_nat (length a)) c d)"
proof -
  let ?ta = "ones_total 0 a" and ?tb = "ones_total 0 b" and ?t = "ones_total (length a) b"
  have c: "unat (NOT c) = ones_rep ?ta" "unat (NOT d) = ones_rep ?tb"
    using ipchksum_rep [of a] ipchksum_rep [of b] assms ones_rep_le [of ?ta] ones_rep_le [of ?tb] by (auto simp: unat_not_u16)
  define new where "new = (if of_nat (length a) AND (1 :: u32) \<noteq> 0 then bswap_16 (NOT d) else NOT d)"
  have "unat (of_nat (length a) AND (mask 1 :: u32)) = length a mod 2"
    using assms(1) unat_and_mask [of "of_nat (length a) :: u32" 1] by (simp add: unat_of_nat)
  then have odd: "of_nat (length a) AND (1 :: u32) \<noteq> 0 \<longleftrightarrow> odd (length a)"
    by (simp add: word_unat_eq_iff odd_iff_mod_2_eq_one)
  have "unat new = ones_rep ?t"
  proof (cases "odd (length a)")
    case True
    then have "ones_rep ?t = swapped (ones_rep ?tb)"
      using ones_total_parity [of "length a" 1 b] ones_total_odd [of b] swapped_rep [of ?tb] by simp
    then show ?thesis using True odd c(2) by (simp add: new_def unat_bswap_16)
  next
    case False
    then show ?thesis using odd c(2) ones_total_parity [of "length a" 0 b] by (simp add: new_def)
  qed
  then have n: "unat (ucast new :: u32) = ones_rep ?t" "unat (ucast (NOT c) :: u32) = ones_rep ?ta"
    using c by (simp_all add: unat_ucast_u16_u32)
  have r: "ones_rep (?ta + ?t) = ones_rep (?ta + ones_rep ?t)"
    by (rule ones_rep_cong) (metis mod_add_right_eq ones_rep_mod, simp add: ones_rep_zero)
  define x where "x = (if (ucast (NOT c) + ucast new :: u32) > 0xFFFF then ucast (NOT c) + ucast new - 0xFFFF else ucast (NOT c) + ucast new :: u32)"
  have s: "unat (ucast (NOT c) + ucast new :: u32) = ones_rep ?ta + ones_rep ?t"
    using n ones_rep_le [of ?ta] ones_rep_le [of ?t] by (simp add: unat_word_ariths)
  have x: "unat x = ones_rep (?ta + ?t)"
  proof (cases "(ucast (NOT c) + ucast new :: u32) > 0xFFFF")
    case True
    then have "unat (ucast (NOT c) + ucast new - 0xFFFF :: u32) = ones_rep ?ta + ones_rep ?t - 65535"
      using s by (subst unat_sub) (simp_all add: word_le_nat_alt word_less_nat_alt)
    then show ?thesis using True s r ones_rep_add [OF ones_rep_le [of ?t], of ?ta] by (simp add: x_def word_less_nat_alt)
  next
    case False
    then show ?thesis using s r ones_rep_add [OF ones_rep_le [of ?t], of ?ta] by (simp add: x_def word_less_nat_alt)
  qed
  have "add_ipchksums (of_nat (length a)) c d = ucast (NOT x AND 0xFFFF)"
    unfolding add_ipchksums_def Let_def and_u16_all new_def [symmetric] x_def [symmetric] ..
  moreover have "unat (ucast (NOT x AND 0xFFFF) :: u16) = 65535 - unat x" using x ones_rep_le by (intro unat_not_low) simp
  ultimately show ?thesis using x ipchksum_rep [of "a @ b"] assms(1) by (auto simp: ones_total_append word_unat_eq_iff)
qed

text \<open>
  C19: Checksums of parts compose: the checksum of the second part, added with the offset where it
  starts, gives the checksum of the whole, for even and odd offsets.\<close>

theorem add_ipchksums_append:
  assumes "length a + length b < 2 ^ 32" "ipchksum a (of_nat (length a)) = Some c" "ipchksum b (of_nat (length b)) = Some d"
  shows "ipchksum (a @ b) (of_nat (length a + length b)) = Some (add_ipchksums (of_nat (length a)) c d)"
  using assms by (rule add_ipchksums_parts)

theorem ipchksum_verifies_witness:
  "ipchksum ([0x45, 0] @ le_bytes 2 (0xFFBA :: u16) @ [0, 0]) 6 = Some 0"
  using ipchksum_verifies [of "[0x45, 0]" "[0, 0]" 65466] by (simp add: ipchksum_def rd_def)

theorem add_ipchksums_append_witness:
  "ipchksum ([1, 2, 3] @ [4, 5]) 5 = Some (add_ipchksums 3 0xFDFB 0xFAFB)"
  using add_ipchksums_append [of "[1, 2, 3]" "[4, 5]" 65019 64251] by (simp add: ipchksum_def rd_def)

section \<open>The random number generator\<close>

lemma i32_id: "- 2147483648 \<le> k \<Longrightarrow> k < 2147483648 \<Longrightarrow> i32 k = k"
  by (simp add: i32_def signed_take_bit_int_eq_self)

text \<open>
  Whatever the 32-bit seed, the generator multiplies it by 40014 modulo 2147483563: the split of
  the product that the code computes never leaves the 32-bit range.  The numbers lie between 0 and
  2147483562.\<close>

theorem random_is_lcg:
  assumes "- 2147483648 \<le> seed" "seed < 2147483648"
  shows "random ticks node seed = 40014 * random_seed ticks node seed mod 2147483563"
proof -
  define x where "x = random_seed ticks node seed"
  have x: "- 2147483648 \<le> x" "x < 2147483648"
    using assms sint_ge [of "ticks + le_word (take 4 node) + scast (le_word (take 2 (drop 4 node)) :: u16)"]
      sint_lt [of "ticks + le_word (take 4 node) + scast (le_word (take 2 (drop 4 node)) :: u16)"]
    by (auto simp: x_def random_seed_def)
  define q where "q = c_div x 53668"
  define v where "v = 40014 * (x - 53668 * q) - 12211 * q"
  have d: "53668 * (y div 53668) + y mod 53668 = y" "0 \<le> y mod 53668" "y mod 53668 < 53668" for y :: int by simp_all
  have q: "- 40014 \<le> q" "q \<le> 40014" "- 53668 < x - 53668 * q" "x - 53668 * q < 53668"
    "0 \<le> x \<Longrightarrow> 0 \<le> q \<and> 0 \<le> x - 53668 * q" "x < 0 \<Longrightarrow> q \<le> 0 \<and> x - 53668 * q \<le> 0"
    using x d [of x] d [of "- x"] unfolding q_def c_div_def by (auto split: if_splits) 
  have v: "- 2147483563 < v" "v < 2147483563"
    using q by (cases "0 \<le> x"; simp add: v_def; linarith)+
  have i: "i32 (53668 * q) = 53668 * q" "i32 (x - 53668 * q) = x - 53668 * q" "i32 (40014 * (x - 53668 * q)) = 40014 * (x - 53668 * q)"
    "i32 (12211 * q) = 12211 * q" "i32 v = v" "v < 0 \<Longrightarrow> i32 (v + 2147483563) = v + 2147483563"
    using q(1-4) v by (auto intro!: i32_id)
  then have "random ticks node seed = (if v < 0 then v + 2147483563 else v)"
    unfolding random_def x_def [symmetric] Let_def q_def [symmetric] i(1-4) v_def [symmetric] i(5) using i(6) by simp
  also have "\<dots> = v mod 2147483563"
    using v mod_pos_pos_trivial [of v 2147483563] mod_pos_pos_trivial [of "v + 2147483563" 2147483563] by auto
  also have "\<dots> = (v + q * 2147483563) mod 2147483563" by (simp only: mod_mult_self1)
  also have "v + q * 2147483563 = 40014 * x" by (simp add: v_def)
  finally show ?thesis by (simp add: x_def)
qed

theorem random_is_lcg_witness: "random 5 [0, 0, 0, 0, 0, 0] (- 7) = 2147203465"
  using random_is_lcg [of "- 7" 5 "[0, 0, 0, 0, 0, 0]"] by (simp add: random_seed_def)

section \<open>Numbers and addresses\<close>

text \<open>The decimal notation of a number.\<close>

fun dec :: "nat \<Rightarrow> byte list" where
  "dec n = (if n < 10 then [of_nat (48 + n)] else dec (n div 10) @ [of_nat (48 + n mod 10)])"

declare dec.simps [simp del]

definition is_digit :: "byte \<Rightarrow> bool" where
  "is_digit c \<longleftrightarrow> 0x30 \<le> c \<and> c \<le> 0x39"

lemma strtoul_loop_digit:
  "n < 10 \<Longrightarrow> strtoul_loop ret k (of_nat (48 + n) # ps) = strtoul_loop (ret * 10 + of_nat n) (k + 1) ps"
proof -
  assume n: "n < 10"
  then have u: "unat (of_nat (48 + n) :: byte) = 48 + n" unfolding unat_of_nat by simp
  have "unat (ucast (of_nat (48 + n) - 0x30 :: byte) :: u32) = n"
    using n by (simp add: unsigned_ucast_eq take_bit_nat_eq_self unat_of_nat)
  then have "ucast (of_nat (48 + n) - 0x30 :: byte) = (of_nat n :: u32)"
    using n by (simp add: word_unat_eq_iff unat_of_nat)
  moreover have "0x30 \<le> (of_nat (48 + n) :: byte)" "(of_nat (48 + n) :: byte) \<le> 0x39"
    using u n by (simp_all only: word_le_nat_alt) simp_all
  ultimately show ?thesis by (simp only: strtoul_loop.simps) simp
qed

lemma strtoul_loop_dec:
  "strtoul_loop (of_nat r) k (dec n @ ps) = strtoul_loop (of_nat (r * 10 ^ length (dec n) + n)) (k + length (dec n)) ps"
proof (induction n arbitrary: r k ps rule: dec.induct)
  case (1 n)
  show ?case
  proof (cases "n < 10")
    case True
    then show ?thesis using strtoul_loop_digit [OF True, of "of_nat r" k ps] by (simp add: dec.simps [of n] add.commute mult.commute)
  next
    case False
    let ?m = "n div 10"
    have "strtoul_loop (of_nat r) k (dec n @ ps) = strtoul_loop (of_nat r) k (dec ?m @ of_nat (48 + n mod 10) # ps)"
      using False by (simp add: dec.simps [of n])
    also have "\<dots> = strtoul_loop (of_nat (r * 10 ^ length (dec ?m) + ?m)) (k + length (dec ?m)) (of_nat (48 + n mod 10) # ps)"
      using 1 False by blast
    also have "\<dots> = strtoul_loop (of_nat (r * 10 ^ length (dec ?m) + ?m) * 10 + of_nat (n mod 10)) (k + length (dec ?m) + 1) ps"
      by (rule strtoul_loop_digit) simp
    also have "(of_nat (r * 10 ^ length (dec ?m) + ?m) * 10 + of_nat (n mod 10) :: u32) =
        of_nat ((r * 10 ^ length (dec ?m) + ?m) * 10 + n mod 10)" by (simp only: of_nat_add of_nat_mult of_nat_numeral)
    also have "(r * 10 ^ length (dec ?m) + ?m) * 10 + n mod 10 = r * 10 ^ length (dec n) + n"
    proof -
      have "length (dec n) = Suc (length (dec ?m))" using False by (simp add: dec.simps [of n])
      then show ?thesis by (simp add: algebra_simps)
    qed
    finally show ?thesis using False by (simp add: dec.simps [of n])
  qed
qed

lemma strtoul_dec: "\<not> is_digit z \<Longrightarrow> strtoul (dec n @ z # ps) 10 = Some (of_nat n, length (dec n))"
  using strtoul_loop_dec [of 0 0 n "z # ps"] by (auto simp: strtoul_def is_digit_def)

lemma length_dec_pos: "0 < length (dec n)"
  by (simp add: dec.simps [of n])

definition dotted :: "byte \<Rightarrow> byte \<Rightarrow> byte \<Rightarrow> byte \<Rightarrow> byte list" where
  "dotted a b c d = dec (unat a) @ [0x2E] @ dec (unat b) @ [0x2E] @ dec (unat c) @ [0x2E] @ dec (unat d)"

lemma inet_aton_step:
  assumes "\<not> is_digit z"
  shows "inet_aton_loop j (pre @ dec (unat (x :: byte)) @ z # ps) (length pre) ip =
    (if j = 0 then Some (Some (push_bit 8 ip OR ucast x, length pre + length (dec (unat x))))
     else if z \<noteq> 0x2E then Some None
     else inet_aton_loop (j - 1) (pre @ dec (unat x) @ z # ps) (length pre + length (dec (unat x)) + 1) (push_bit 8 ip OR ucast x))"
proof -
  have v: "(of_nat (unat x) :: u32) = ucast x" 
    using unat_u8_less [of x] by (simp add: word_unat_eq_iff unsigned_ucast_eq take_bit_nat_eq_self unat_of_nat)
  have "\<not> (255 :: u32) < ucast x" using unat_u8_less [of x]
    by (simp add: word_less_nat_alt unsigned_ucast_eq take_bit_nat_eq_self)
  then show ?thesis
    using strtoul_dec [OF assms, of "unat x" ps] length_dec_pos [of "unat x"] v
    by (simp add: inet_aton_loop.simps [of j] rd1_def nth_append)
qed

lemma address_in_memory:
  fixes a b c d :: byte
  defines "ip \<equiv> push_bit 8 (push_bit 8 (push_bit 8 (push_bit 8 0 OR ucast a) OR ucast b) OR ucast c) OR ucast d :: u32"
  shows "le_bytes 4 (bswap_32 ip) = [a, b, c, d]"
proof -
  have m: "(0xFF0000 :: u32) = push_bit 16 (mask 8)" "(0xFF00 :: u32) = push_bit 8 (mask 8)"
    by (simp_all add: mask_eq_exp_minus_1)
  have "ucast (bswap_32 ip) = a" "ucast (drop_bit 8 (bswap_32 ip)) = b" "ucast (drop_bit 16 (bswap_32 ip)) = c"
    "ucast (drop_bit 24 (bswap_32 ip)) = d"
    unfolding bswap_32_def ip_def m by (rule bit_word_eqI; auto simp: bit_simps bit_beyond dest: bit_imp_le_length)+
  then show ?thesis by (simp add: le_bytes_numeral)
qed

lemma inet_aton_of_dotted:
  assumes "\<not> is_digit z"
  shows "\<exists>addr. inet_aton (dotted a b c d @ z # rest) = Some (Some addr, int (length (dotted a b c d)))
    \<and> le_bytes 4 addr = [a, b, c, d]"
proof -
  have dot: "\<not> is_digit 0x2E" by (simp add: is_digit_def)
  let ?A = "dec (unat a)" and ?B = "dec (unat b)" and ?C = "dec (unat c)" and ?D = "dec (unat d)"
  note step = inet_aton_step [OF dot] inet_aton_step [OF assms]
  have "inet_aton_loop 3 (dotted a b c d @ z # rest) 0 0 =
      Some (Some (push_bit 8 (push_bit 8 (push_bit 8 (push_bit 8 0 OR ucast a) OR ucast b) OR ucast c) OR ucast d,
        length (dotted a b c d)))"
    using step(1) [of 3 "[]" a "?B @ 0x2E # ?C @ 0x2E # ?D @ z # rest" 0]
      step(1) [of 2 "?A @ [0x2E]" b "?C @ 0x2E # ?D @ z # rest" "push_bit 8 0 OR ucast a"]
      step(1) [of 1 "?A @ [0x2E] @ ?B @ [0x2E]" c "?D @ z # rest" "push_bit 8 (push_bit 8 0 OR ucast a) OR ucast b"]
      step(2) [of 0 "?A @ [0x2E] @ ?B @ [0x2E] @ ?C @ [0x2E]" d rest
        "push_bit 8 (push_bit 8 (push_bit 8 0 OR ucast a) OR ucast b) OR ucast c"]
    by (simp add: dotted_def add.assoc del: push_bit_of_0)
  then show ?thesis using address_in_memory [of a b c d] by (simp add: inet_aton_def)
qed

text \<open>
  C35: A dotted address is read back: the four numbers end up in memory in network order, and the
  result is the length of the text.\<close>

theorem inet_aton_dotted:
  assumes "\<not> is_digit z"
  shows "\<exists>addr. inet_aton (dotted a b c d @ z # rest) = Some (Some addr, int (length (dotted a b c d)))
    \<and> le_bytes 4 addr = [a, b, c, d]"
  using assms by (rule inet_aton_of_dotted)

theorem inet_aton_dotted_witness:
  "\<exists>addr. inet_aton (dotted 192 168 0 1 @ 0 # []) = Some (Some addr, 11) \<and> le_bytes 4 addr = [192, 168, 0, 1]"
  using inet_aton_dotted [of 0 192 168 0 1 "[]"] by (simp add: is_digit_def dotted_def dec.simps)

text \<open>
  A decimal number of any size is read modulo \<open>2 ^ 32\<close>; an address with the number 4294967297 in
  it is therefore accepted.\<close>

lemma strtoul_wraps: "\<exists>k. strtoul (dec 4294967297 @ 0x2E # []) 10 = Some (1, k)"
  using strtoul_dec [of "0x2E" 4294967297 "[]"] by (simp add: is_digit_def)

text \<open>
  The comparison without case takes a trailing blank for the end of the string: a name and the
  name followed by a blank compare equal.\<close>

theorem strcasecmp_ignores_trailing_blank:
  assumes "0 \<notin> set s"
  shows "strcasecmp (s @ [0x20, 0]) (s @ [0]) = Some 0"
  using assms by (induction s) auto

theorem strcasecmp_ignores_trailing_blank_witness: "strcasecmp ([0x61] @ [0x20, 0]) ([0x61] @ [0]) = Some 0"
  by (rule strcasecmp_ignores_trailing_blank) simp

end
