(* ===== verification/Vsprintf.thy ===== *)
theory Vsprintf
  imports Misc
begin

text \<open>
  Formatted output (\<^verbatim>\<open>src/vsprintf.c\<close>) and its use by the console (\<^verbatim>\<open>src/BootVideoHelpers.c\<close>,
  \<open>printk\<close>): reading and writing numbers, and the interpreter of format strings.

  The output goes to a byte buffer of fixed size; \<open>*str++ = c\<close> outside it is \<open>None\<close>.  An argument of
  the variable argument list is one 32-bit slot: an integer, or a pointer with the memory behind it
  (\<open>None\<close> for \<open>NULL\<close>); reading an argument that is not there is \<open>None\<close>.  The numbers that \<open>%n\<close> stores
  through its pointers are collected in order.

  Theorems: a printed number is read back by \<open>simple_strtoul\<close> and \<open>simple_strtol\<close>, a printed address
  is read back by \<open>inet_aton\<close>; formats of literal characters, \<open>%d\<close> and \<open>%s\<close> print the concatenation
  of their pieces, and \<open>printk\<close> does so exactly when it fits its buffer.
\<close>

section \<open>Reading numbers\<close>

definition isdigit :: "byte \<Rightarrow> bool" where
  "isdigit c \<longleftrightarrow> c \<ge> 0x30 \<and> c \<le> 0x39"

definition isxdigit :: "byte \<Rightarrow> bool" where
  "isxdigit c \<longleftrightarrow> c \<ge> 0x30 \<and> c \<le> 0x39 \<or> c \<ge> 0x61 \<and> c \<le> 0x66 \<or> c \<ge> 0x41 \<and> c \<le> 0x46"

definition islower :: "byte \<Rightarrow> bool" where
  "islower c \<longleftrightarrow> c \<ge> 0x61 \<and> c \<le> 0x7A"

definition toupper :: "byte \<Rightarrow> byte" where
  "toupper c = (if islower c then c - 0x20 else c)"

definition digit_value :: "byte \<Rightarrow> u32" where
  "digit_value c = (if isdigit c then ucast c - 0x30 else ucast (if islower c then toupper c else c) - 0x41 + 10)"

fun simple_strtoul_loop :: "u32 \<Rightarrow> u32 \<Rightarrow> nat \<Rightarrow> byte list \<Rightarrow> (u32 \<times> nat) option" where
  "simple_strtoul_loop base result n [] = None"
| "simple_strtoul_loop base result n (c # cp) =
     (if isxdigit c \<and> digit_value c < base
      then simple_strtoul_loop base (result * base + digit_value c) (n + 1) cp
      else Some (result, n))"

text \<open>The result and the number of characters before \<open>*endp\<close>.\<close>

definition simple_strtoul :: "byte list \<Rightarrow> u32 \<Rightarrow> (u32 \<times> nat) option" where
  "simple_strtoul cp base =
     (if base \<noteq> 0 then simple_strtoul_loop base 0 0 cp
      else do {
        c \<leftarrow> rd1 cp 0;
        if c = 0x30 then do {
          x \<leftarrow> rd1 cp 1;
          if x = 0x78 then do {
            d \<leftarrow> rd1 cp 2;
            if isxdigit d then simple_strtoul_loop 16 0 2 (drop 2 cp) else simple_strtoul_loop 8 0 1 (drop 1 cp)
          }
          else simple_strtoul_loop 8 0 1 (drop 1 cp)
        }
        else simple_strtoul_loop 10 0 0 cp
      })"

definition simple_strtol :: "byte list \<Rightarrow> u32 \<Rightarrow> (u32 \<times> nat) option" where
  "simple_strtol cp base =
     do {
       c \<leftarrow> rd1 cp 0;
       if c = 0x2D then do {
         (v, n) \<leftarrow> simple_strtoul (drop 1 cp) base;
         Some (- v, n + 1)
       }
       else simple_strtoul cp base
     }"

fun skip_atoi :: "int \<Rightarrow> byte list \<Rightarrow> (int \<times> byte list) option" where
  "skip_atoi i [] = None"
| "skip_atoi i (c # s) =
     (if isdigit c then skip_atoi (i32 (i32 (i32 (i * 10) + uint c) - 0x30)) s else Some (i, c # s))"

section \<open>Writing numbers\<close>

definition ZEROPAD :: u32 where "ZEROPAD = 1"
definition SIGN :: u32 where "SIGN = 2"
definition PLUS :: u32 where "PLUS = 4"
definition SPACE :: u32 where "SPACE = 8"
definition LEFT :: u32 where "LEFT = 16"
definition SPECIAL :: u32 where "SPECIAL = 32"
definition LARGE :: u32 where "LARGE = 64"

lemmas number_flags = ZEROPAD_def SIGN_def PLUS_def SPACE_def LEFT_def SPECIAL_def LARGE_def

definition small_digits :: "byte list" where
  "small_digits = lit ''0123456789abcdefghijklmnopqrstuvwxyz''"

definition large_digits :: "byte list" where
  "large_digits = lit ''0123456789ABCDEFGHIJKLMNOPQRSTUVWXYZ''"

text \<open>The digits in \<open>tmp\<close>, least significant first; the first argument is the room left in it.\<close>

fun tmp_digits :: "nat \<Rightarrow> byte list \<Rightarrow> u32 \<Rightarrow> u32 \<Rightarrow> byte list option" where
  "tmp_digits room digits base num =
     (if num = 0 then Some []
      else if room = 0 then None
      else do {
        d \<leftarrow> rd1 digits (unat (num mod base));
        ds \<leftarrow> tmp_digits (room - 1) digits base (num div base);
        Some (d # ds)
      })"

declare tmp_digits.simps [simp del]

text \<open>\<open>while (size-- > 0) *str++ = c\<close>: the characters, and the value that is left in \<open>size\<close>.\<close>

definition pad :: "byte \<Rightarrow> int \<Rightarrow> byte list \<times> int" where
  "pad c sz = (replicate (nat sz) c, if sz > 0 then - 1 else sz - 1)"

text \<open>
  The characters that \<open>number\<close> stores through \<open>str\<close>.  The base is 8, 10 or 16 in every call; with a
  base outside 2 to 36 the code returns a null pointer, \<open>None\<close> here.
\<close>

definition number :: "u32 \<Rightarrow> int \<Rightarrow> int \<Rightarrow> int \<Rightarrow> u32 \<Rightarrow> byte list option" where
  "number num base sz precision type =
     (let digits = (if type AND LARGE \<noteq> 0 then large_digits else small_digits);
          type = (if type AND LEFT \<noteq> 0 then type AND NOT ZEROPAD else type) in
      if base < 2 \<or> base > 36 then None
      else do {
        let c = (if type AND ZEROPAD \<noteq> 0 then 0x30 else 0x20);
        let (sign, num, sz) =
          (if type AND SIGN \<noteq> 0 then
             if sint num < 0 then (0x2D, - num, sz - 1)
             else if type AND PLUS \<noteq> 0 then (0x2B, num, sz - 1)
             else if type AND SPACE \<noteq> 0 then (0x20, num, sz - 1)
             else (0, num, sz)
           else (0, num, sz));
        let sz =
          (if type AND SPECIAL \<noteq> 0 then if base = 16 then sz - 2 else if base = 8 then sz - 1 else sz
           else sz);
        tmp \<leftarrow> (if num = 0 then Some [0x30] else tmp_digits 66 digits (of_int base) num);
        let i = int (length tmp);
        let precision = (if i > precision then i else precision);
        let sz = sz - precision;
        let (blanks, sz) = (if type AND (ZEROPAD + LEFT) = 0 then pad 0x20 sz else ([], sz));
        let prefix =
          (if type AND SPECIAL \<noteq> 0 then
             if base = 8 then [0x30] else if base = 16 then [0x30, digits ! 33] else []
           else []);
        let (fill, sz) = (if type AND LEFT = 0 then pad c sz else ([], sz));
        let (trail, sz) = pad 0x20 sz;
        Some (blanks @ (if sign \<noteq> 0 then [sign] else []) @ prefix @ fill @ replicate (nat (precision - i)) 0x30
          @ rev tmp @ trail)
      })"

section \<open>The interpreter of format strings\<close>

datatype arg = Word_arg u32 | Mem_arg "byte list option"

record printer =
  o_buf :: "byte list"
  o_base :: nat
  o_str :: nat
  o_args :: "arg list"
  o_stores :: "int list"

definition put_out :: "byte list \<Rightarrow> printer \<Rightarrow> printer option" where
  "put_out cs p =
     do {
       b \<leftarrow> wr (o_buf p) (o_str p) cs;
       Some (p\<lparr>o_buf := b, o_str := o_str p + length cs\<rparr>)
     }"

definition next_word :: "printer \<Rightarrow> (u32 \<times> printer) option" where
  "next_word p = (case o_args p of Word_arg w # as \<Rightarrow> Some (w, p\<lparr>o_args := as\<rparr>) | _ \<Rightarrow> None)"

definition next_mem :: "printer \<Rightarrow> (byte list option \<times> printer) option" where
  "next_mem p = (case o_args p of Mem_arg m # as \<Rightarrow> Some (m, p\<lparr>o_args := as\<rparr>) | _ \<Rightarrow> None)"

fun vs_flags :: "u32 \<Rightarrow> byte list \<Rightarrow> (u32 \<times> byte list) option" where
  "vs_flags flags [] = None"
| "vs_flags flags (c # fmt) =
     (if c = 0x2D then vs_flags (flags OR LEFT) fmt
      else if c = 0x2B then vs_flags (flags OR PLUS) fmt
      else if c = 0x20 then vs_flags (flags OR SPACE) fmt
      else if c = 0x23 then vs_flags (flags OR SPECIAL) fmt
      else if c = 0x30 then vs_flags (flags OR ZEROPAD) fmt
      else Some (flags, c # fmt))"

definition vs_width :: "u32 \<Rightarrow> byte list \<Rightarrow> printer \<Rightarrow> (int \<times> u32 \<times> byte list \<times> printer) option" where
  "vs_width flags fmt p =
     do {
       c \<leftarrow> rd1 fmt 0;
       if isdigit c then do {
         (w, fmt) \<leftarrow> skip_atoi 0 fmt;
         Some (w, flags, fmt, p)
       }
       else if c = 0x2A then do {
         (w, p) \<leftarrow> next_word p;
         Some (if sint w < 0 then (i32 (- sint w), flags OR LEFT, tl fmt, p) else (sint w, flags, tl fmt, p))
       }
       else Some (- 1, flags, fmt, p)
     }"

definition vs_precision :: "byte list \<Rightarrow> printer \<Rightarrow> (int \<times> byte list \<times> printer) option" where
  "vs_precision fmt p =
     do {
       c \<leftarrow> rd1 fmt 0;
       if c = 0x2E then do {
         let fmt = tl fmt;
         c \<leftarrow> rd1 fmt 0;
         (n, fmt, p) \<leftarrow>
           (if isdigit c then do {
              (n, fmt) \<leftarrow> skip_atoi 0 fmt;
              Some (n, fmt, p)
            }
            else if c = 0x2A then do {
              (w, p) \<leftarrow> next_word p;
              Some (sint w, tl fmt, p)
            }
            else Some (- 1, fmt, p));
         Some (if n < 0 then 0 else n, fmt, p)
       }
       else Some (- 1, fmt, p)
     }"

definition vs_qualifier :: "byte list \<Rightarrow> (byte option \<times> byte list) option" where
  "vs_qualifier fmt =
     do {
       c \<leftarrow> rd1 fmt 0;
       Some (if c = 0x68 \<or> c = 0x6C \<or> c = 0x4C then (Some c, tl fmt) else (None, fmt))
     }"

text \<open>\<open>while (--width > 0)\<close> of \<open>%c\<close> and \<open>while (len < width--)\<close> of \<open>%s\<close>, with the width they leave.\<close>

definition pad_char :: "int \<Rightarrow> byte list \<times> int" where
  "pad_char width = (replicate (nat (width - 1)) 0x20, if width > 1 then 0 else width - 1)"

definition pad_string :: "int \<Rightarrow> int \<Rightarrow> byte list \<times> int" where
  "pad_string len width = (replicate (nat (width - len)) 0x20, if width > len then len - 1 else width - 1)"

fun vs_len :: "u32 \<Rightarrow> byte list \<Rightarrow> nat \<Rightarrow> nat option" where
  "vs_len precision [] len = None"
| "vs_len precision (c # s) len = (if c \<noteq> 0 \<and> of_nat len < precision then vs_len precision s (len + 1) else Some len)"

text \<open>The nested calls \<open>sprintf (str, f, *r)\<close> of \<open>%@\<close> and \<open>%!\<close>, one for each byte.\<close>

type_synonym sprintf_fn = "byte list \<Rightarrow> nat \<Rightarrow> byte list \<Rightarrow> arg list \<Rightarrow> (int \<times> byte list \<times> int list) option"

fun vs_each :: "sprintf_fn \<Rightarrow> byte list \<Rightarrow> byte list \<Rightarrow> printer \<Rightarrow> printer option" where
  "vs_each sp f [] p = Some p"
| "vs_each sp f (r # rs) p =
     do {
       (n, b, _) \<leftarrow> sp (o_buf p) (o_str p) f [Word_arg (ucast r)];
       vs_each sp f rs (p\<lparr>o_buf := b, o_str := o_str p + nat n\<rparr>)
     }"

definition vs_number ::
  "u32 \<Rightarrow> int \<Rightarrow> int \<Rightarrow> byte option \<Rightarrow> int \<Rightarrow> printer \<Rightarrow> printer option" where
  "vs_number flags width precision qualifier base p =
     do {
       (w, p) \<leftarrow> next_word p;
       let num =
         (if qualifier = Some 0x68
          then if flags AND SIGN \<noteq> 0 then scast (ucast w :: u16) else ucast (ucast w :: u16)
          else w);
       cs \<leftarrow> number num base width precision flags;
       put_out cs p
     }"

text \<open>The conversion character and what it prints; the remaining format is what follows it.\<close>

definition vs_convert ::
  "sprintf_fn \<Rightarrow> u32 \<Rightarrow> int \<Rightarrow> int \<Rightarrow> byte option \<Rightarrow> byte \<Rightarrow> printer \<Rightarrow> printer option" where
  "vs_convert sp flags width precision qualifier c p =
     (if c = 0x63 then do {
        let (blanks, width) = (if flags AND LEFT = 0 then pad_char width else ([], width));
        (w, p) \<leftarrow> next_word p;
        put_out (blanks @ [ucast w] @ fst (pad_char width)) p
      }
      else if c = 0x73 then do {
        (m, p) \<leftarrow> next_mem p;
        let s = (case m of None \<Rightarrow> lit ''<NULL>'' | Some s \<Rightarrow> s);
        len \<leftarrow> vs_len (of_int precision) s 0;
        let (blanks, width) = (if flags AND LEFT = 0 then pad_string (int len) width else ([], width));
        put_out (blanks @ take len s @ fst (pad_string (int len) width)) p
      }
      else if c = 0x70 then
        (if width = - 1 then vs_number (flags OR ZEROPAD) 8 precision None 16 p
         else vs_number flags width precision None 16 p)
      else if c = 0x6E then do {
        (m, p) \<leftarrow> next_mem p;
        require (m \<noteq> None);
        Some (p\<lparr>o_stores := o_stores p @ [int (o_str p - o_base p)]\<rparr>)
      }
      else if c = 0x25 then put_out [0x25] p
      else if c = 0x6F then vs_number flags width precision qualifier 8 p
      else if c = 0x58 then vs_number (flags OR LARGE) width precision qualifier 16 p
      else if c = 0x78 then vs_number flags width precision qualifier 16 p
      else if c = 0x64 \<or> c = 0x69 then vs_number (flags OR SIGN) width precision qualifier 10 p
      else if c = 0x75 then vs_number flags width precision qualifier 10 p
      else if c = 0x40 then do {
        (w, p) \<leftarrow> next_word p;
        p \<leftarrow> vs_each sp (lit ''%d.'') (le_bytes 4 w) p;
        Some (p\<lparr>o_str := o_str p - 1\<rparr>)
      }
      else if c = 0x21 then do {
        (m, p) \<leftarrow> next_mem p;
        a \<leftarrow> m;
        a \<leftarrow> rd a 0 6;
        p \<leftarrow> vs_each sp (lit ''%02hX:'') a p;
        Some (p\<lparr>o_str := o_str p - 1\<rparr>)
      }
      else if c \<noteq> 0 then put_out [0x25, c] p
      else put_out [0x25] p)"

text \<open>One directive after its \<open>%\<close>; a \<open>NUL\<close> in place of the conversion character is left in the format.\<close>

definition vs_directive :: "sprintf_fn \<Rightarrow> byte list \<Rightarrow> printer \<Rightarrow> (printer \<times> byte list) option" where
  "vs_directive sp fmt p =
     do {
       (flags, fmt) \<leftarrow> vs_flags 0 fmt;
       (width, flags, fmt, p) \<leftarrow> vs_width flags fmt p;
       (precision, fmt, p) \<leftarrow> vs_precision fmt p;
       (qualifier, fmt) \<leftarrow> vs_qualifier fmt;
       c \<leftarrow> rd1 fmt 0;
       p \<leftarrow> vs_convert sp flags width precision qualifier c p;
       Some (p, if c = 0 then fmt else tl fmt)
     }"

lemma vs_flags_shorter: "vs_flags fl fmt = Some (fl', fmt') \<Longrightarrow> length fmt' \<le> length fmt"
  by (induction fl fmt rule: vs_flags.induct) (auto split: if_splits)

lemma skip_atoi_shorter: "skip_atoi i fmt = Some (k, fmt') \<Longrightarrow> length fmt' \<le> length fmt"
  by (induction i fmt rule: skip_atoi.induct) (auto split: if_splits)

lemma vs_width_shorter: "vs_width fl fmt p = Some (w, fl', fmt', p') \<Longrightarrow> length fmt' \<le> length fmt"
  by (auto simp: vs_width_def dest: skip_atoi_shorter split: if_splits bind_splits)

lemma vs_precision_shorter: "vs_precision fmt p = Some (n, fmt', p') \<Longrightarrow> length fmt' \<le> length fmt"
  by (auto simp: vs_precision_def Let_def dest!: skip_atoi_shorter split: if_splits bind_splits)

lemma vs_directive_shorter: "vs_directive sp fmt p = Some (p', fmt') \<Longrightarrow> length fmt' \<le> length fmt"
  by (auto simp: vs_directive_def vs_qualifier_def dest!: vs_flags_shorter vs_width_shorter vs_precision_shorter
      split: if_splits bind_splits) (linarith+)

function vs_loop :: "sprintf_fn \<Rightarrow> byte list \<Rightarrow> printer \<Rightarrow> printer option" where
  "vs_loop sp fmt p =
     do {
       c \<leftarrow> rd1 fmt 0;
       if c = 0 then Some p
       else if c \<noteq> 0x25 then do {
         p \<leftarrow> put_out [c] p;
         vs_loop sp (tl fmt) p
       }
       else do {
         (p, fmt) \<leftarrow> vs_directive sp (tl fmt) p;
         vs_loop sp fmt p
       }
     }"
  by pat_completeness auto
termination
  by (relation "measure (\<lambda>(sp, fmt, p). length fmt)")
    (auto simp: rd1_def neq_Nil_conv dest!: vs_directive_shorter split: if_splits)

declare vs_loop.simps [simp del]

definition vs_run :: "sprintf_fn \<Rightarrow> sprintf_fn" where
  "vs_run sp buf off fmt as =
     do {
       p \<leftarrow> vs_loop sp fmt \<lparr>o_buf = buf, o_base = off, o_str = off, o_args = as, o_stores = []\<rparr>;
       b \<leftarrow> wr (o_buf p) (o_str p) [0];
       Some (int (o_str p - off), b, o_stores p)
     }"

text \<open>
  \<open>vsprintf\<close> calls \<open>sprintf\<close> only for \<open>%@\<close> and \<open>%!\<close>, with formats that contain neither: calls are
  nested at most once, so the call inside a nested call is never made.
\<close>

definition vsprintf :: sprintf_fn where
  "vsprintf = vs_run (vs_run (\<lambda>buf off fmt as. None))"

definition sprintf :: sprintf_fn where
  "sprintf buf off fmt as = vsprintf buf off fmt as"


section \<open>The console\<close>

text \<open>
  \<open>printk\<close>: the contents of \<open>szBuffer\<close> that are shown, and the result.  The first argument is what
  the buffer of 1024 bytes on the stack holds before.
\<close>

definition printk :: "byte list \<Rightarrow> byte list \<Rightarrow> arg list \<Rightarrow> (byte list \<times> u16) option" where
  "printk szBuffer szFormat argList =
     do {
       (n, b, _) \<leftarrow> vsprintf szBuffer 0 szFormat argList;
       let wLength = of_int n;
       b \<leftarrow> wr b (1024 - 1) [0];
       let wLength = (if wLength > 1024 - 1 then 1024 - 1 else wLength);
       b \<leftarrow> wr b (unat wLength) [0];
       Some (b, wLength)
     }"

section \<open>Numbers are read back\<close>

lemma lit_digits:
  "small_digits = [0x30, 0x31, 0x32, 0x33, 0x34, 0x35, 0x36, 0x37, 0x38, 0x39, 0x61, 0x62, 0x63, 0x64, 0x65, 0x66,
     0x67, 0x68, 0x69, 0x6A, 0x6B, 0x6C, 0x6D, 0x6E, 0x6F, 0x70, 0x71, 0x72, 0x73, 0x74, 0x75, 0x76, 0x77, 0x78, 0x79, 0x7A, 0]"
  "large_digits = [0x30, 0x31, 0x32, 0x33, 0x34, 0x35, 0x36, 0x37, 0x38, 0x39, 0x41, 0x42, 0x43, 0x44, 0x45, 0x46,
     0x47, 0x48, 0x49, 0x4A, 0x4B, 0x4C, 0x4D, 0x4E, 0x4F, 0x50, 0x51, 0x52, 0x53, 0x54, 0x55, 0x56, 0x57, 0x58, 0x59, 0x5A, 0]"
  by (simp_all add: small_digits_def large_digits_def lit_def)

lemma length_digits [simp]: "length small_digits = 37" "length large_digits = 37"
  by (simp_all add: lit_digits)

definition number_digits :: "u32 \<Rightarrow> byte list" where
  "number_digits type = (if type AND LARGE \<noteq> 0 then large_digits else small_digits)"

lemma length_number_digits [simp]: "length (number_digits type) = 37"
  by (simp add: number_digits_def)

lemma digit_read_all:
  "list_all (\<lambda>k. isxdigit (small_digits ! k) \<and> digit_value (small_digits ! k) = of_nat k) [0..<16]"
  "list_all (\<lambda>k. isxdigit (large_digits ! k) \<and> digit_value (large_digits ! k) = of_nat k) [0..<16]"
  by code_simp+

lemma digit_read:
  assumes "k < 16"
  shows "isxdigit (number_digits type ! k)" "digit_value (number_digits type ! k) = of_nat k"
  using digit_read_all assms by (auto simp: number_digits_def list_all_iff)

text \<open>The buffer \<open>tmp\<close> of 66 characters is always large enough: each digit halves the number.\<close>

lemma unat_div_base:
  assumes "2 \<le> unat base" "unat num < 2 ^ Suc room"
  shows "unat (num div base :: u32) < 2 ^ room"
proof -
  have "unat (num div base) = unat num div unat base" by (rule unat_div)
  also have "\<dots> \<le> unat num div 2" using assms(1) by (simp add: div_le_mono2)
  also have "\<dots> < 2 ^ room" using assms(2) by simp
  finally show ?thesis .
qed

lemma tmp_digits_read:
  assumes "2 \<le> unat base" "unat base \<le> 16"
  shows "unat num < 2 ^ room \<Longrightarrow>
    \<exists>ds. tmp_digits room (number_digits type) base num = Some ds \<and> length ds \<le> room \<and> (num \<noteq> 0 \<longrightarrow> ds \<noteq> [])
      \<and> (\<forall>r n rest. simple_strtoul_loop base r n (rev ds @ rest) =
           simple_strtoul_loop base (r * base ^ length ds + num) (n + length ds) rest)"
proof (induction room arbitrary: num)
  case 0
  then have "num = 0" by (simp add: word_unat_eq_iff)
  then show ?case by (simp add: tmp_digits.simps)
next
  case (Suc room)
  show ?case
  proof (cases "num = 0")
    case True
    then show ?thesis by (simp add: tmp_digits.simps)
  next
    case False
    let ?k = "unat (num mod base)"
    have k: "?k < unat base" using assms(1) by (simp add: unat_mod)
    obtain ds where ds: "tmp_digits room (number_digits type) base (num div base) = Some ds" "length ds \<le> room"
      and loop: "\<And>r n rest. simple_strtoul_loop base r n (rev ds @ rest) =
           simple_strtoul_loop base (r * base ^ length ds + num div base) (n + length ds) rest"
      using Suc.IH [OF unat_div_base [OF assms(1) Suc.prems]] by auto
    have d: "isxdigit (number_digits type ! ?k)" "digit_value (number_digits type ! ?k) = num mod base"
      using digit_read [of ?k type] k assms(2) by simp_all
    have lt: "num mod base < base" using k by (simp add: word_less_nat_alt)
    have "simple_strtoul_loop base r n (rev (number_digits type ! ?k # ds) @ rest) =
        simple_strtoul_loop base (r * base ^ length (number_digits type ! ?k # ds) + num) (n + length (number_digits type ! ?k # ds)) rest"
      for r n rest
    proof -
      have "(r * base ^ length ds + num div base) * base + num mod base = r * base ^ Suc (length ds) + (num div base * base + num mod base)"
        by (simp add: algebra_simps)
      also have "num div base * base + num mod base = num" by (rule div_mult_mod_eq)
      finally show ?thesis using d lt by (simp add: loop)
    qed
    then show ?thesis using False ds k assms(2) by (simp add: tmp_digits.simps [of "Suc room"] rd1_def)
  qed
qed

lemma zero_digit: "isxdigit 0x30" "digit_value 0x30 = 0"
  by (simp_all add: isxdigit_def digit_value_def isdigit_def)

lemma strtoul_loop_zeros:
  "0 < base \<Longrightarrow> simple_strtoul_loop base 0 n (replicate k 0x30 @ rest) = simple_strtoul_loop base 0 (n + k) rest"
  by (induction k arbitrary: n) (simp_all add: zero_digit)

lemma strtoul_loop_stop: "\<not> isxdigit z \<Longrightarrow> simple_strtoul_loop base r n (z # rest) = Some (r, n)"
  by simp

text \<open>The digits that \<open>number\<close> puts in \<open>tmp\<close>.\<close>

definition number_tmp :: "u32 \<Rightarrow> u32 \<Rightarrow> u32 \<Rightarrow> byte list option" where
  "number_tmp type base num = (if num = 0 then Some [0x30] else tmp_digits 66 (number_digits type) base num)"

lemma number_tmp_read:
  assumes "2 \<le> unat base" "unat base \<le> 16" "\<not> isxdigit z"
  shows "\<exists>ds. number_tmp type base num = Some ds \<and> ds \<noteq> [] \<and> length ds \<le> 66
    \<and> (\<forall>n. simple_strtoul_loop base 0 n (rev ds @ z # rest) = Some (num, n + length ds))"
proof (cases "num = 0")
  case True
  have "0 < base" using assms(1) by (simp add: word_less_nat_alt)
  with True assms(3) show ?thesis by (simp add: number_tmp_def zero_digit strtoul_loop_stop)
next
  case False
  have "unat num < 2 ^ 66" using unat_u32_less [of num] by simp
  from tmp_digits_read [OF assms(1,2) this, of type] False assms(3) show ?thesis
    by (auto simp: number_tmp_def)
qed

text \<open>\<open>number\<close> without sign and prefix.\<close>

definition unsigned_plain :: "u32 \<Rightarrow> bool" where
  "unsigned_plain type \<longleftrightarrow> type AND SIGN = 0 \<and> type AND SPECIAL = 0"

text \<open>No blanks are printed: the field is filled with zeros on the left, or the number fills it.\<close>

definition no_blanks :: "u32 \<Rightarrow> int \<Rightarrow> bool" where
  "no_blanks type sz \<longleftrightarrow> type AND ZEROPAD \<noteq> 0 \<and> type AND LEFT = 0 \<or> sz \<le> 1"

text \<open>The layout of the field around the digits.\<close>

definition number_field :: "int \<Rightarrow> int \<Rightarrow> u32 \<Rightarrow> byte list \<Rightarrow> byte list" where
  "number_field sz precision type tmp =
     (let i = int (length tmp);
          precision = (if i > precision then i else precision);
          (blanks, sz) = (if type AND (ZEROPAD + LEFT) = 0 then pad 0x20 (sz - precision) else ([], sz - precision));
          (fill, sz) = (if type AND LEFT = 0 then pad (if type AND ZEROPAD \<noteq> 0 then 0x30 else 0x20) sz else ([], sz))
      in blanks @ fill @ replicate (nat (precision - i)) 0x30 @ rev tmp @ fst (pad 0x20 sz))"

lemma number_unsigned:
  assumes "unsigned_plain type" "2 \<le> base" "base \<le> 36" "number_tmp type (of_int base) num = Some tmp"
  shows "number num base sz precision type =
    Some (number_field sz precision (if type AND LEFT \<noteq> 0 then type AND NOT ZEROPAD else type) tmp)"
proof -
  define type' where "type' = (if type AND LEFT \<noteq> 0 then type AND NOT ZEROPAD else type)"
  have z: "type' AND SIGN = 0" "type' AND SPECIAL = 0"
    using assms(1) by (simp_all add: unsigned_plain_def type'_def and.assoc number_flags)
  have b: "\<not> (base < 2 \<or> base > 36)" using assms(2,3) by simp
  have t: "(if num = 0 then Some [0x30] else tmp_digits 66 (if type AND LARGE \<noteq> 0 then large_digits else small_digits) (of_int base) num) = Some tmp"
    using assms(4) by (simp only: number_tmp_def number_digits_def)
  show ?thesis
    unfolding number_def Let_def type'_def [symmetric] number_field_def
    by (simp only: z b t not_True_eq_False if_False simp_thms case_prod_conv bind.bind_lunit append_Nil case_prod_beta
        if_distrib [of fst] fst_conv snd_conv)
qed

lemma pad_neg: "s \<le> 0 \<Longrightarrow> pad c s = ([], s - 1)"
  by (simp add: pad_def)

lemma number_field_full:
  assumes "sz \<le> 1" "tmp \<noteq> []"
  shows "number_field sz precision type tmp = replicate (nat (precision - int (length tmp))) 0x30 @ rev tmp"
proof -
  define p where "p = (if int (length tmp) > precision then int (length tmp) else precision)"
  have "1 \<le> p" using assms(2) by (cases tmp) (auto simp: p_def)
  with assms(1) have s: "sz - p \<le> 0" by simp
  then have s1: "sz - p - 1 \<le> 0" "sz - p - 1 - 1 \<le> 0" by linarith+
  note p = pad_neg [OF s] pad_neg [OF s1(1)] pad_neg [OF s1(2)]
  have d: "nat (p - int (length tmp)) = nat (precision - int (length tmp))" by (simp add: p_def)
  show ?thesis
    unfolding number_field_def Let_def p_def [symmetric] d
    by (cases "type AND (ZEROPAD + LEFT) = 0"; cases "type AND LEFT = 0")
      (simp_all only: if_True if_False case_prod_conv simp_thms p fst_conv append_Nil append_Nil2)
qed

lemma number_field_filled:
  assumes "type AND ZEROPAD \<noteq> 0" "type AND LEFT = 0"
  shows "\<exists>k. number_field sz precision type tmp = replicate k 0x30 @ rev tmp"
proof -
  define p where "p = (if int (length tmp) > precision then int (length tmp) else precision)"
  have n: "type AND (ZEROPAD + LEFT) \<noteq> 0"
  proof
    assume "type AND (ZEROPAD + LEFT) = 0"
    then have "(type AND (ZEROPAD + LEFT)) AND ZEROPAD = 0" by simp
    with assms(1) show False by (simp add: and.assoc number_flags)
  qed
  obtain x where x: "pad 0x30 (sz - p) = (replicate (nat (sz - p)) 0x30, x)" "x \<le> 0" by (simp add: pad_def)
  have "number_field sz precision type tmp =
      replicate (nat (sz - p)) 0x30 @ replicate (nat (p - int (length tmp))) 0x30 @ rev tmp"
    unfolding number_field_def Let_def p_def [symmetric] using n assms
    by (simp only: if_True if_False case_prod_conv simp_thms not_False_eq_True x(1) pad_neg [OF x(2)] fst_conv append_Nil append_Nil2)
  then have "number_field sz precision type tmp =
      replicate (nat (sz - p) + nat (p - int (length tmp))) 0x30 @ rev tmp"
    by (simp only: replicate_add append_assoc)
  then show ?thesis ..
qed

lemma number_field_zeros:
  assumes "no_blanks type sz" "tmp \<noteq> []"
  shows "\<exists>k. number_field sz precision (if type AND LEFT \<noteq> 0 then type AND NOT ZEROPAD else type) tmp = replicate k 0x30 @ rev tmp"
proof (cases "sz \<le> 1")
  case True
  then show ?thesis using number_field_full [OF True assms(2)] by blast
next
  case False
  then show ?thesis using number_field_filled [of type sz precision tmp] assms(1) by (simp add: no_blanks_def)
qed

lemma number_zeros:
  assumes "unsigned_plain type" "no_blanks type sz" "2 \<le> base" "base \<le> 16"
    and "number_tmp type (of_int base) num = Some ds" "ds \<noteq> []"
  shows "\<exists>k. number num base sz precision type = Some (replicate k 0x30 @ rev ds)"
  using number_unsigned [OF assms(1,3) _ assms(5)] number_field_zeros [OF assms(2,6)] assms(4) by auto

text \<open>
  A number printed in base 2 to 16 without sign, prefix and leading blanks is read back by
  \<open>simple_strtoul\<close>, whatever the field width, the precision and the case of the digits; the digits
  always fit into the 66 characters of \<open>tmp\<close>.\<close>

theorem number_read_back:
  assumes "unsigned_plain type" "no_blanks type sz" "2 \<le> base" "base \<le> 16" "\<not> isxdigit z"
  shows "\<exists>cs. number num base sz precision type = Some cs
    \<and> simple_strtoul (cs @ z # rest) (of_int base) = Some (num, length cs)"
proof -
  have "base = int (nat base)" "nat base < 2 ^ LENGTH(32)" using assms(3,4) by simp_all
  then have "unat (of_int base :: u32) = nat base"
    by (metis of_int_of_nat_eq mod_less unat_of_nat)
  then have b: "2 \<le> unat (of_int base :: u32)" "unat (of_int base :: u32) \<le> 16" using assms(3,4) by simp_all
  obtain ds where ds: "number_tmp type (of_int base) num = Some ds" "ds \<noteq> []"
    and rd: "\<And>n. simple_strtoul_loop (of_int base) 0 n (rev ds @ z # rest) = Some (num, n + length ds)"
    using number_tmp_read [OF b assms(5), of type num rest] by blast
  obtain k where "number num base sz precision type = Some (replicate k 0x30 @ rev ds)"
    using number_zeros [OF assms(1-4) ds] by blast
  moreover have "(of_int base :: u32) \<noteq> 0" "(0 :: u32) < of_int base" using b by (auto simp: word_less_nat_alt)
  ultimately show ?thesis by (simp add: simple_strtoul_def strtoul_loop_zeros rd)
qed

theorem number_read_back_witness:
  "\<exists>cs. number 0xBEEF 16 8 (- 1) (ZEROPAD OR LARGE) = Some cs
    \<and> simple_strtoul (cs @ 0 # []) (of_int 16) = Some (0xBEEF, length cs)"
  by (rule number_read_back) (simp_all add: unsigned_plain_def no_blanks_def number_flags isxdigit_def)

section \<open>Decimal numbers\<close>

definition decimal :: "u32 \<Rightarrow> byte list" where
  "decimal w = (if sint w < 0 then 0x2D # dec (unat (- w)) else dec (unat w))"

lemma decimal_digit: "k < 10 \<Longrightarrow> small_digits ! k = of_nat (48 + k)"
proof -
  have "list_all (\<lambda>k. small_digits ! k = of_nat (48 + k)) [0..<10]" by code_simp
  then show "k < 10 \<Longrightarrow> small_digits ! k = of_nat (48 + k)" by (auto simp: list_all_iff)
qed

lemma tmp_digits_dec:
  "num \<noteq> 0 \<Longrightarrow> unat num < 2 ^ room \<Longrightarrow> tmp_digits room small_digits 10 num = Some (rev (dec (unat num)))"
proof (induction room arbitrary: num)
  case 0
  then show ?case by (simp add: word_unat_eq_iff)
next
  case (Suc room)
  have d: "rd1 small_digits (unat (num mod 10)) = Some (of_nat (48 + unat num mod 10))"
    by (simp add: rd1_def unat_mod decimal_digit del: of_nat_add)
  show ?case
  proof (cases "num div 10 = 0")
    case True
    then have "unat num div 10 = 0" using unat_div [of num 10] by simp
    then have "unat num < 10" by (simp add: div_eq_0_iff)
    then show ?thesis using Suc.prems d
      by (simp add: tmp_digits.simps [of "Suc room"] tmp_digits.simps [of room] True dec.simps [of "unat num"])
  next
    case False
    then have "\<not> unat num < 10" using unat_div [of num 10] by (auto simp: word_unat_eq_iff)
    moreover have "unat (num div 10) < 2 ^ room" using unat_div_base [of 10 num room] Suc.prems by simp
    then have "tmp_digits room small_digits 10 (num div 10) = Some (rev (dec (unat num div 10)))"
      using Suc.IH [OF False] by (simp add: unat_div)
    ultimately show ?thesis using Suc.prems d
      by (simp add: tmp_digits.simps [of "Suc room"] dec.simps [of "unat num"])
  qed
qed

lemma number_tmp_dec: "num \<noteq> 0 \<Longrightarrow> tmp_digits 66 small_digits 10 num = Some (rev (dec (unat num)))"
  using tmp_digits_dec [of num 66] unat_u32_less [of num] by simp

lemma number_decimal: "number w 10 (- 1) (- 1) SIGN = Some (decimal w)"
proof -
  have s: "nat (- 1 - int k) = 0" "\<not> - 1 - int k > 0" "nat (- 2 - int k) = 0" "\<not> - 2 - int k > 0" for k by linarith+
  show ?thesis
    unfolding number_def number_flags Let_def decimal_def
    by (simp add: number_tmp_dec pad_def s dec.simps [of 0])
qed

lemma length_dec: "n < 10 ^ k \<Longrightarrow> 0 < k \<Longrightarrow> length (dec n) \<le> k"
proof (induction n arbitrary: k rule: dec.induct)
  case (1 n)
  show ?case
  proof (cases "n < 10")
    case True
    with "1.prems" show ?thesis by (simp add: dec.simps [of n])
  next
    case False
    obtain j where k: "k = Suc j" using "1.prems" by (cases k) auto
    have j: "k = Suc j" "0 < j" using "1.prems" False k by (cases j; simp)+
    then have "n div 10 < 10 ^ j" using "1.prems" by (simp add: less_mult_imp_div_less)
    with "1.IH" [OF False this] j False show ?thesis by (simp add: dec.simps [of n])
  qed
qed

lemma length_decimal: "length (decimal w) \<le> 11"
  using length_dec [of "unat w" 10] length_dec [of "unat (- w)" 10] unat_u32_less [of w] unat_u32_less [of "- w"]
  by (simp add: decimal_def)

lemma dec_no_nul: "0 \<notin> set (dec n)"
proof (induction n rule: dec.induct)
  case (1 n)
  have "(of_nat (48 + k) :: byte) \<noteq> 0" if "k < 10" for k
    using that by (simp add: word_unat_eq_iff unat_of_nat del: of_nat_add)
  from this [of n] this [of "n mod 10"] 1 show ?case by (simp add: dec.simps [of n] del: of_nat_add)
qed

lemma hd_dec: "dec n \<noteq> [] \<and> hd (dec n) \<noteq> 0x2D"
proof (induction n rule: dec.induct)
  case (1 n)
  have "(of_nat (48 + k) :: byte) \<noteq> 0x2D" if "k < 10" for k
    using that by (simp add: word_unat_eq_iff unat_of_nat del: of_nat_add)
  from this [of n] 1 show ?case by (auto simp: dec.simps [of n] simp del: of_nat_add)
qed

section \<open>Formats of literal characters, \<open>%d\<close> and \<open>%s\<close>\<close>

text \<open>
  What such a format prints, stated without the interpreter.  \<open>Text t r\<close> is a string \<open>t\<close> whose memory
  goes on with \<open>r\<close> behind the terminator.
\<close>

datatype piece = Char byte | Decimal u32 | Text "byte list" "byte list" | Character byte

primrec piece_ok :: "piece \<Rightarrow> bool" where
  "piece_ok (Char c) = (c \<noteq> 0 \<and> c \<noteq> 0x25)"
| "piece_ok (Decimal w) = True"
| "piece_ok (Text t r) = (0 \<notin> set t \<and> length t < 4294967295)"
| "piece_ok (Character c) = True"

primrec piece_format :: "piece \<Rightarrow> byte list" where
  "piece_format (Char c) = [c]"
| "piece_format (Decimal w) = [0x25, 0x64]"
| "piece_format (Text t r) = [0x25, 0x73]"
| "piece_format (Character c) = [0x25, 0x63]"

primrec piece_args :: "piece \<Rightarrow> arg list" where
  "piece_args (Char c) = []"
| "piece_args (Decimal w) = [Word_arg w]"
| "piece_args (Text t r) = [Mem_arg (Some (t @ 0 # r))]"
| "piece_args (Character c) = [Word_arg (ucast c)]"

primrec piece_text :: "piece \<Rightarrow> byte list" where
  "piece_text (Char c) = [c]"
| "piece_text (Decimal w) = decimal w"
| "piece_text (Text t r) = t"
| "piece_text (Character c) = [c]"

definition pieces_format :: "piece list \<Rightarrow> byte list" where
  "pieces_format ps = concat (map piece_format ps) @ [0]"

definition pieces_args :: "piece list \<Rightarrow> arg list" where
  "pieces_args ps = concat (map piece_args ps)"

definition pieces_text :: "piece list \<Rightarrow> byte list" where
  "pieces_text ps = concat (map piece_text ps)"

lemma put_out_append: "(put_out a p \<bind> put_out b) = put_out (a @ b) p"
proof (cases "o_str p + length (a @ b) \<le> length (o_buf p)")
  case True
  then show ?thesis by (simp add: put_out_def wr_def put_bytes_append add.assoc)
next
  case False
  then show ?thesis by (auto simp: put_out_def wr_def)
qed

lemma vs_loop_char: "c \<noteq> 0 \<Longrightarrow> c \<noteq> 0x25 \<Longrightarrow> vs_loop sp (c # fmt) p = put_out [c] p \<bind> vs_loop sp fmt"
  by (simp add: vs_loop.simps [of sp "c # fmt"] rd1_def)

lemma vs_loop_end: "vs_loop sp [0] p = Some p"
  by (simp add: vs_loop.simps rd1_def)

lemma vs_loop_decimal:
  "o_args p = Word_arg w # as \<Longrightarrow>
   vs_loop sp (0x25 # 0x64 # fmt) p = put_out (decimal w) (p\<lparr>o_args := as\<rparr>) \<bind> vs_loop sp fmt"
  by (simp add: vs_loop.simps [of sp "0x25 # 0x64 # fmt"] rd1_def vs_directive_def vs_width_def isdigit_def vs_precision_def
      vs_qualifier_def vs_convert_def vs_number_def next_word_def number_decimal)

lemma vs_len_text:
  "0 \<notin> set t \<Longrightarrow> n + length t < 4294967295 \<Longrightarrow> vs_len (- 1) (t @ 0 # r) n = Some (n + length t)"
proof (induction t arbitrary: n)
  case (Cons c t)
  have "(of_nat n :: u32) < - 1"
    using Cons.prems(2) by (simp add: word_less_nat_alt unat_of_nat unat_u32_minus_one)
  with Cons show ?case by simp
qed simp

lemma vs_loop_text:
  assumes "o_args p = Mem_arg (Some (t @ 0 # r)) # as" "0 \<notin> set t" "length t < 4294967295"
  shows "vs_loop sp (0x25 # 0x73 # fmt) p = put_out t (p\<lparr>o_args := as\<rparr>) \<bind> vs_loop sp fmt"
  using vs_len_text [OF assms(2), of 0 r] assms(1,3)
  by (simp add: vs_loop.simps [of sp "0x25 # 0x73 # fmt"] rd1_def vs_directive_def vs_width_def isdigit_def vs_precision_def
      vs_qualifier_def vs_convert_def next_mem_def pad_string_def number_flags)

lemma ucast_byte_u32: "(ucast (ucast (c :: byte) :: u32) :: byte) = c"
  by (intro bit_word_eqI) (simp add: bit_simps)

lemma vs_loop_character:
  "o_args p = Word_arg w # as \<Longrightarrow>
   vs_loop sp (0x25 # 0x63 # fmt) p = put_out [ucast w] (p\<lparr>o_args := as\<rparr>) \<bind> vs_loop sp fmt"
  by (simp add: vs_loop.simps [of sp "0x25 # 0x63 # fmt"] rd1_def vs_directive_def vs_width_def isdigit_def vs_precision_def
      vs_qualifier_def vs_convert_def next_word_def pad_char_def number_flags)

lemma put_out_args: "put_out cs (p\<lparr>o_args := as\<rparr>) = map_option (\<lambda>q. q\<lparr>o_args := as\<rparr>) (put_out cs p)"
  by (simp add: put_out_def wr_def)

lemma put_out_kept: "put_out cs p = Some q \<Longrightarrow> o_args q = o_args p \<and> o_str q \<le> length (o_buf q)"
  by (auto simp: put_out_def wr_def split: if_splits)

lemma vs_loop_piece:
  assumes "piece_ok x" "o_args p = piece_args x @ as"
  shows "vs_loop sp (piece_format x @ fmt) p = put_out (piece_text x) (p\<lparr>o_args := as\<rparr>) \<bind> vs_loop sp fmt"
proof (cases x)
  case (Char c)
  then have "p\<lparr>o_args := as\<rparr> = p" using assms(2) by simp
  then show ?thesis using Char assms(1) by (simp add: vs_loop_char)
qed (use assms vs_loop_decimal [of p] vs_loop_text [of p] vs_loop_character [of p] in \<open>simp_all add: ucast_byte_u32\<close>)

lemma vs_loop_pieces:
  "list_all piece_ok ps \<Longrightarrow> o_args p = pieces_args ps \<Longrightarrow> o_str p \<le> length (o_buf p) \<Longrightarrow>
   vs_loop sp (pieces_format ps) p = put_out (pieces_text ps) (p\<lparr>o_args := []\<rparr>)"
proof (induction ps arbitrary: p)
  case Nil
  then show ?case by (simp add: pieces_format_def pieces_args_def pieces_text_def vs_loop_end put_out_def wr_def)
next
  case (Cons x ps)
  have "vs_loop sp (pieces_format (x # ps)) p =
      put_out (piece_text x) (p\<lparr>o_args := pieces_args ps\<rparr>) \<bind> vs_loop sp (pieces_format ps)"
    using vs_loop_piece [of x p "pieces_args ps" sp "pieces_format ps"] Cons.prems
    by (simp add: pieces_format_def pieces_args_def)
  also have "\<dots> = put_out (piece_text x) (p\<lparr>o_args := pieces_args ps\<rparr>)
      \<bind> (\<lambda>q. put_out (pieces_text ps) (q\<lparr>o_args := []\<rparr>))"
    using Cons.prems by (intro Option.bind_cong refl Cons.IH) (auto dest: put_out_kept)
  also have "\<dots> = put_out (piece_text x) (p\<lparr>o_args := []\<rparr>) \<bind> put_out (pieces_text ps)"
    by (simp add: put_out_args bind_map_option comp_def option.map_comp)
  also have "\<dots> = put_out (pieces_text (x # ps)) (p\<lparr>o_args := []\<rparr>)"
    by (simp add: put_out_append pieces_text_def)
  finally show ?case .
qed

lemma vs_run_pieces:
  assumes "list_all piece_ok ps" "off \<le> length buf"
  shows "vs_run sp buf off (pieces_format ps) (pieces_args ps) =
    (if off + length (pieces_text ps) < length buf
     then Some (int (length (pieces_text ps)), put_bytes off (pieces_text ps @ [0]) buf, []) else None)"
  using assms by (auto simp: vs_run_def vs_loop_pieces put_out_def wr_def put_bytes_append)

text \<open>
  C23: \<open>sprintf\<close> with literal characters, \<open>%c\<close>, \<open>%d\<close> and \<open>%s\<close> stores the concatenation of the pieces and
  a terminator and returns its length, exactly when that fits into the rest of the buffer;
  otherwise it writes outside the buffer.\<close>

theorem sprintf_renders:
  assumes "list_all piece_ok ps" "off \<le> length buf"
  shows "sprintf buf off (pieces_format ps) (pieces_args ps) =
    (if off + length (pieces_text ps) < length buf
     then Some (int (length (pieces_text ps)), put_bytes off (pieces_text ps @ [0]) buf, []) else None)"
  unfolding sprintf_def vsprintf_def using assms by (rule vs_run_pieces)

theorem sprintf_renders_witness:
  "sprintf (replicate 8 1) 1 (lit ''a%d%s%c'') [Word_arg (- 7), Mem_arg (Some [0x62, 0x63, 0]), Word_arg 0] =
     Some (6, [1, 0x61, 0x2D, 0x37, 0x62, 0x63, 0, 0], [])"
  using sprintf_renders [of "[Char 0x61, Decimal (- 7), Text [0x62, 0x63] [], Character 0]" 1 "replicate 8 1"]
  by (simp add: pieces_format_def pieces_args_def pieces_text_def lit_def decimal_def dec.simps put_bytes_def replicate_numeral)

section \<open>Round trips\<close>

lemma simple_strtoul_dec: "\<not> isxdigit z \<Longrightarrow> simple_strtoul (dec (unat w) @ z # rest) 10 = Some (w, length (dec (unat w)))"
proof -
  assume z: "\<not> isxdigit z"
  have "number_tmp SIGN 10 w = Some (rev (dec (unat w)))"
    by (simp add: number_tmp_def number_digits_def number_flags number_tmp_dec dec.simps [of 0])
  with number_tmp_read [of 10 z SIGN w rest] z show ?thesis by (auto simp: simple_strtoul_def)
qed

text \<open>
  \<open>simple_strtol\<close> reads back what \<open>%d\<close> prints, for every 32-bit value: the value and the end of
  its text.\<close>

theorem sprintf_strtol_roundtrip:
  assumes "off + 12 \<le> length buf"
  shows "\<exists>n b. sprintf buf off (lit ''%d'') [Word_arg w] = Some (int n, b, [])
    \<and> simple_strtol (drop off b) 10 = Some (w, n)"
proof -
  let ?t = "decimal w"
  have l: "off + length ?t < length buf" using assms length_decimal [of w] by simp
  then have "sprintf buf off (lit ''%d'') [Word_arg w] = Some (int (length ?t), put_bytes off (?t @ [0]) buf, [])"
    using vs_run_pieces [of "[Decimal w]"]
    by (simp add: sprintf_def vsprintf_def pieces_format_def pieces_args_def pieces_text_def lit_def)
  moreover have "drop off (put_bytes off (?t @ [0]) buf) = ?t @ 0 # drop (Suc (off + length ?t)) buf"
    using l by (simp add: put_bytes_def)
  moreover have "simple_strtol (?t @ 0 # rest) 10 = Some (w, length ?t)" for rest
  proof (cases "sint w < 0")
    case True
    have "\<not> isxdigit 0" by (simp add: isxdigit_def)
    with True simple_strtoul_dec [of 0 "- w" rest] show ?thesis by (simp add: simple_strtol_def decimal_def rd1_def)
  next
    case False
    have "rd1 (dec (unat w) @ 0 # rest) 0 \<noteq> Some 0x2D" "rd1 (dec (unat w) @ 0 # rest) 0 \<noteq> None" 
      using hd_dec [of "unat w"] by (auto simp: rd1_def nth_append hd_conv_nth)
    with False simple_strtoul_dec [of 0 w rest] show ?thesis
      by (auto simp add: simple_strtol_def decimal_def isxdigit_def)
  qed
  ultimately show ?thesis by auto
qed

theorem sprintf_strtol_roundtrip_witness:
  "\<exists>n b. sprintf (replicate 16 0) 2 (lit ''%d'') [Word_arg 0x80000000] = Some (int n, b, [])
    \<and> simple_strtol (drop 2 b) 10 = Some (0x80000000, n)"
  by (rule sprintf_strtol_roundtrip) simp

lemma decimal_byte: "decimal (ucast (r :: byte)) = dec (unat r)"
proof -
  have "unat (ucast r :: u32) = unat r"
    using unat_u8_less [of r] by (simp add: unsigned_ucast_eq take_bit_nat_eq_self)
  moreover from this have "\<not> sint (ucast r :: u32) < 0" using unat_u8_less [of r] by (simp add: sint_small del: of_nat_unat)
  ultimately show ?thesis by (simp add: decimal_def)
qed

lemma nat_Suc: "nat (1 + int k) = Suc k"
  by simp

lemma put_bytes_twice:
  assumes "off + length a + length b \<le> length buf"
  shows "put_bytes (off + length a) b (put_bytes off (a @ [0]) buf) = put_bytes off (a @ b) buf \<or> b = []"
proof (cases b)
  case (Cons x xs)
  then have "put_bytes (off + length a) b (put_bytes off (a @ [0]) buf) =
      put_bytes (off + length a) b (put_bytes (off + length a) [0] (put_bytes off a buf))"
    using assms by (simp add: put_bytes_append)
  also have "\<dots> = put_bytes (off + length a) b (put_bytes off a buf)"
    using assms Cons by (simp add: put_bytes_def)
  also have "\<dots> = put_bytes off (a @ b) buf" using assms by (simp add: put_bytes_append)
  finally show ?thesis ..
qed simp

text \<open>The numbers of an address, each followed by a full stop.\<close>

definition stopped :: "byte list \<Rightarrow> byte list" where
  "stopped rs = concat (map (\<lambda>r. dec (unat r) @ [0x2E]) rs)"

lemma vs_each_stopped:
  assumes "o_str p + length (stopped rs) < length (o_buf p)" "rs \<noteq> []"
  shows "vs_each (vs_run sp) (lit ''%d.'') rs p =
    Some (p\<lparr>o_buf := put_bytes (o_str p) (stopped rs @ [0]) (o_buf p), o_str := o_str p + length (stopped rs)\<rparr>)"
  using assms
proof (induction rs arbitrary: p)
  case (Cons r rs)
  let ?a = "dec (unat r) @ [0x2E]"
  have "vs_run sp (o_buf p) (o_str p) (lit ''%d.'') [Word_arg (ucast r)] =
      Some (int (length ?a), put_bytes (o_str p) (?a @ [0]) (o_buf p), [])"
    using vs_run_pieces [of "[Decimal (ucast r), Char 0x2E]" "o_str p" "o_buf p" sp] Cons.prems(1)
    by (simp add: pieces_format_def pieces_args_def pieces_text_def lit_def decimal_byte stopped_def)
  then have step: "vs_each (vs_run sp) (lit ''%d.'') (r # rs) p =
      vs_each (vs_run sp) (lit ''%d.'') rs (p\<lparr>o_buf := put_bytes (o_str p) (?a @ [0]) (o_buf p), o_str := o_str p + length ?a\<rparr>)"
    (is "_ = vs_each _ _ rs ?q") by (simp add: nat_Suc)
  show ?case
  proof (cases "rs = []")
    case True
    then show ?thesis using step by (simp add: stopped_def)
  next
    case False
    have l: "o_str ?q + length (stopped rs) < length (o_buf ?q)" using Cons.prems(1) by (simp add: stopped_def)
    have "put_bytes (o_str p + length ?a) (stopped rs @ [0]) (put_bytes (o_str p) (?a @ [0]) (o_buf p)) =
        put_bytes (o_str p) (?a @ stopped rs @ [0]) (o_buf p)"
      using put_bytes_twice [of "o_str p" ?a "stopped rs @ [0]" "o_buf p"] Cons.prems(1) by (simp add: stopped_def)
    then show ?thesis using step Cons.IH [OF l False] by (simp add: stopped_def)
  qed
qed simp

lemma vs_loop_address:
  "o_args p = [Word_arg w] \<Longrightarrow> vs_loop sp [0x25, 0x40, 0] p =
     vs_each sp (lit ''%d.'') (le_bytes 4 w) (p\<lparr>o_args := []\<rparr>) \<bind> (\<lambda>p. Some (p\<lparr>o_str := o_str p - 1\<rparr>))"
  by (simp add: vs_loop.simps rd1_def vs_directive_def vs_width_def isdigit_def vs_precision_def
      vs_qualifier_def vs_convert_def next_word_def bind_assoc del: le_bytes_numeral)

text \<open>
  \<open>%@\<close> prints the four bytes of an address in memory order as a dotted address, and \<open>inet_aton\<close>
  reads the same address back from the text.  Printing needs one byte more than the string with its
  terminator.\<close>

theorem sprintf_inet_aton_roundtrip:
  assumes "off + 17 \<le> length buf"
  shows "\<exists>n b. sprintf buf off (lit ''%@'') [Word_arg addr] = Some (int n, b, [])
    \<and> inet_aton (drop off b) = Some (Some addr, int n)"
proof -
  obtain a b c d where abcd: "le_bytes 4 addr = [a, b, c, d]" by (simp add: le_bytes_numeral)
  let ?t = "dotted a b c d"
  let ?p = "\<lparr>o_buf = buf, o_base = off, o_str = off, o_args = [], o_stores = []\<rparr>"
  have st: "stopped [a, b, c, d] = ?t @ [0x2E]" by (simp add: stopped_def dotted_def)
  have "length (dec (unat (x :: byte))) \<le> 3" for x using unat_u8_less [of x] by (intro length_dec) simp_all
  from this [of a] this [of b] this [of c] this [of d] have l: "off + length ?t + 1 < length buf"
    using assms by (simp add: dotted_def)
  let ?q = "?p\<lparr>o_args := [Word_arg addr]\<rparr>" and ?r = "?p\<lparr>o_buf := put_bytes off (?t @ [0x2E, 0]) buf, o_str := off + length ?t + 1\<rparr>"
  have e: "vs_each (vs_run sp) (lit ''%d.'') (le_bytes 4 addr) ?p = Some ?r" for sp
    using vs_each_stopped [of ?p "[a, b, c, d]" sp] l unfolding abcd st by simp
  have a: "o_args ?q = [Word_arg addr]" and p: "?q\<lparr>o_args := []\<rparr> = ?p" by simp_all
  have "vs_loop (vs_run sp) [0x25, 0x40, 0] ?q = Some (?r\<lparr>o_str := off + length ?t\<rparr>)" for sp
    unfolding vs_loop_address [OF a] p e by simp
  then have "vs_run (vs_run sp) buf off (lit ''%@'') [Word_arg addr] =
      Some (int (length ?t), put_bytes (off + length ?t) [0] (put_bytes off (?t @ [0x2E, 0]) buf), [])" for sp
    using l by (simp add: vs_run_def [of "vs_run sp"] wr_def lit_def)
  moreover have "drop off (put_bytes (off + length ?t) [0] (put_bytes off (?t @ [0x2E, 0]) buf)) =
      ?t @ 0 # 0 # drop (off + length ?t + 2) buf"
    using l by (simp add: put_bytes_def)
  moreover have "\<not> is_digit 0" by (simp add: is_digit_def)
  from inet_aton_of_dotted [OF this] obtain addr' where
    "inet_aton (?t @ 0 # 0 # drop (off + length ?t + 2) buf) = Some (Some addr', int (length ?t))" and
    m: "le_bytes 4 addr' = [a, b, c, d]" by blast
  moreover have "addr' = addr"
  proof -
    have "le_word (le_bytes 4 addr') = addr'" "le_word (le_bytes 4 addr) = addr" by (intro le_word_le_bytes; simp)+
    with m abcd show ?thesis by metis
  qed
  ultimately show ?thesis by (auto simp: sprintf_def vsprintf_def)
qed

theorem sprintf_inet_aton_roundtrip_witness:
  "\<exists>n b. sprintf (replicate 20 0) 3 (lit ''%@'') [Word_arg 0x0100007F] = Some (int n, b, [])
    \<and> inet_aton (drop 3 b) = Some (Some 0x0100007F, int n)"
  by (rule sprintf_inet_aton_roundtrip) simp

section \<open>The buffer of printk\<close>

lemma put_bytes_zero: "k < length xs \<Longrightarrow> put_bytes k [x] xs = xs[k := x]"
  by (simp add: put_bytes_def upd_conv_take_nth_drop)

lemma printk_pieces:
  assumes "list_all piece_ok ps" "length szBuffer = 1024"
  shows "if length (pieces_text ps) < 1024
    then \<exists>rest. printk szBuffer (pieces_format ps) (pieces_args ps) =
      Some (pieces_text ps @ 0 # rest, of_nat (length (pieces_text ps)))
    else printk szBuffer (pieces_format ps) (pieces_args ps) = None"
proof (cases "length (pieces_text ps) < 1024")
  case False
  then show ?thesis using assms by (simp add: printk_def vsprintf_def vs_run_pieces)
next
  case True
  let ?t = "pieces_text ps" let ?n = "length ?t"
  let ?b = "put_bytes 0 (?t @ [0]) szBuffer"
  have l: "length ?b = 1024" using True assms(2) by simp
  have n: "unat (of_nat ?n :: u16) = ?n" using True by (simp add: unat_of_nat)
  then have "\<not> (of_nat ?n :: u16) > 1024 - 1" using True by (simp add: word_less_nat_alt)
  then have "printk szBuffer (pieces_format ps) (pieces_args ps) = Some (?b[1023 := 0, ?n := 0], of_nat ?n)"
    using assms True l n
    by (simp add: printk_def vsprintf_def vs_run_pieces wr_def put_bytes_zero del: put_bytes_prefix)
  moreover have "\<exists>rest. ?b[1023 := 0, ?n := 0] = ?t @ 0 # rest"
    using True assms(2) by (intro exI [of _ "drop (Suc ?n) (?b[1023 := 0])"])
      (auto simp: list_eq_iff_nth_eq nth_list_update nth_append nth_Cons')
  ultimately show ?thesis using True by auto
qed

text \<open>A call of \<open>printk\<close> as a statement, with a format that ends in a newline.\<close>

definition console :: "string \<Rightarrow> arg list \<Rightarrow> unit option" where
  "console fmt as = do { _ \<leftarrow> printk (replicate 1024 0) (lit (fmt @ [CHR 0x0A])) as; Some () }"

definition plain :: "string \<Rightarrow> bool" where
  "plain s \<longleftrightarrow> list_all (\<lambda>c. of_char c \<noteq> (0 :: byte) \<and> of_char c \<noteq> (0x25 :: byte)) s"

lemma console_pieces:
  assumes "list_all piece_ok ps" "lit (fmt @ [CHR 0x0A]) = pieces_format ps" "as = pieces_args ps"
  shows "console fmt as = (if length (pieces_text ps) < 1024 then Some () else None)"
  using printk_pieces [OF assms(1), of "replicate 1024 0"] assms(2,3) by (auto simp: console_def)

lemma plain_pieces:
  "plain s \<Longrightarrow> list_all piece_ok (map Char (map of_char s))"
  "concat (map piece_format (map Char cs)) = cs" "concat (map piece_args (map Char cs)) = []"
  "concat (map piece_text (map Char cs)) = cs"
  by (simp add: plain_def list_all_iff) (induction cs; simp)+

lemma console_string:
  assumes "plain s" "0 \<notin> set t" "length t < 4294967295"
  shows "console (s @ ''%s'') [Mem_arg (Some (t @ 0 # r))] = (if length s + length t \<le> 1022 then Some () else None)"
proof -
  have "lit ((s @ ''%s'') @ [CHR 0x0A]) = pieces_format (map Char (map of_char s) @ [Text t r, Char 0x0A])"
    by (simp add: pieces_format_def lit_def plain_pieces del: map_map)
  then show ?thesis
    using console_pieces [of "map Char (map of_char s) @ [Text t r, Char 0x0A]" "s @ ''%s''"] assms
    by (auto simp: pieces_args_def pieces_text_def plain_pieces simp del: map_map)
qed

lemma console_number:
  assumes "plain s" "length s \<le> 1000"
  shows "console (s @ ''%d'') [Word_arg w] = Some ()"
proof -
  have "lit ((s @ ''%d'') @ [CHR 0x0A]) = pieces_format (map Char (map of_char s) @ [Decimal w, Char 0x0A])"
    by (simp add: pieces_format_def lit_def plain_pieces del: map_map)
  then show ?thesis
    using console_pieces [of "map Char (map of_char s) @ [Decimal w, Char 0x0A]" "s @ ''%d''"] assms length_decimal [of w]
    by (auto simp: pieces_args_def pieces_text_def plain_pieces simp del: map_map)
qed

text \<open>
  C36: \<open>printk\<close> shows the text of its pieces and returns its length when it has at most 1023
  characters, and writes past its buffer otherwise: the test of the length comes after the output,
  so it never takes effect.\<close>

theorem printk_fits:
  assumes "list_all piece_ok ps" "length szBuffer = 1024"
  shows "if length (pieces_text ps) < 1024
    then \<exists>rest. printk szBuffer (pieces_format ps) (pieces_args ps) =
      Some (pieces_text ps @ 0 # rest, of_nat (length (pieces_text ps)))
    else printk szBuffer (pieces_format ps) (pieces_args ps) = None"
  using assms by (rule printk_pieces)

theorem printk_fits_witness:
  "\<exists>rest. printk (replicate 1024 0) (lit ''hi%d'') [Word_arg 5] = Some ([0x68, 0x69, 0x35] @ 0 # rest, 3)"
  using printk_fits [of "[Char 0x68, Char 0x69, Decimal 5]" "replicate 1024 0"]
  by (simp add: pieces_format_def pieces_args_def pieces_text_def lit_def decimal_def dec.simps)

end
