(* ===== verification/Config.thy ===== *)
theory Config
  imports Vsprintf
begin

text \<open>
  The boot configuration parser of \<^verbatim>\<open>src/main/main.c\<close>: \<open>do_file\<close>, \<open>do_line\<close>, \<open>parse_line\<close> and
  \<open>parse_config\<close>.  The parser works in place on the configuration buffer, prints every line and the results through
  \<open>printk\<close>, whose buffer of 1024 bytes a line may overrun, and copies into three caller-supplied
  character arrays without a length check; all of this is modelled.  The reference definition reads
  the text as a list of lines.
\<close>

section \<open>The parser\<close>

text \<open>The output parameters; the two counters are \<open>None\<close> when the caller passes \<open>NULL\<close>.\<close>

record boot_config =
  kernel :: "byte list"
  options :: "byte list"
  ramdisk :: "byte list"
  trynetboot :: "int option"
  forcediskboot :: "int option"

fun skip_space :: "byte list \<Rightarrow> nat option" where
  "skip_space [] = None"
| "skip_space (c # s) = (if c \<noteq> 0 \<and> is_space c then map_option Suc (skip_space s) else Some 0)"

fun skip_token :: "byte list \<Rightarrow> nat option" where
  "skip_token [] = None"
| "skip_token (c # s) = (if c \<noteq> 0 \<and> \<not> is_space c then map_option Suc (skip_token s) else Some 0)"

definition do_file :: "byte list \<Rightarrow> byte list \<Rightarrow> byte list \<Rightarrow> (byte list \<times> byte list) option" where
  "do_file l m s =
     do {
       r \<leftarrow> match l m;
       (case r of
          None \<Rightarrow> Some (l, s)
        | Some p \<Rightarrow> do {
            n \<leftarrow> skip_space (drop p l);
            let ret = p + n;
            n \<leftarrow> skip_token (drop ret l);
            l \<leftarrow> wr l (ret + n) [0];
            s \<leftarrow> strcpy s (drop ret l);
            Some (l, s)
          })
     }"

definition do_line :: "byte list \<Rightarrow> byte list \<Rightarrow> byte list \<Rightarrow> byte list option" where
  "do_line l m s =
     do {
       r \<leftarrow> match l m;
       (case r of
          None \<Rightarrow> Some s
        | Some p \<Rightarrow> do {
            n \<leftarrow> skip_space (drop p l);
            strcpy s (drop (p + n) l)
          })
     }"

definition bump :: "byte list \<Rightarrow> byte list \<Rightarrow> int option \<Rightarrow> int option option" where
  "bump l m counter =
     (case counter of
        None \<Rightarrow> Some None
      | Some k \<Rightarrow> do {
          r \<leftarrow> match l m;
          Some (Some (if r \<noteq> None then k + 1 else k))
        })"

definition parse_line :: "byte list \<Rightarrow> boot_config \<Rightarrow> (byte list \<times> boot_config) option" where
  "parse_line line c =
     do {
       _ \<leftarrow> console ''config: %s'' [Mem_arg (Some line)];
       (line, k) \<leftarrow> do_file line (lit ''kernel'') (kernel c);
       opts \<leftarrow> do_line line (lit ''options'') (options c);
       opts \<leftarrow> do_line line (lit ''append'') opts;
       (line, r) \<leftarrow> do_file line (lit ''ramdisk'') (ramdisk c);
       (line, r) \<leftarrow> do_file line (lit ''initrd'') r;
       t \<leftarrow> bump line (lit ''try-net-boot'') (trynetboot c);
       f \<leftarrow> bump line (lit ''force-disk-boot'') (forcediskboot c);
       Some (line, \<lparr>kernel = k, options = opts, ramdisk = r, trynetboot = t, forcediskboot = f\<rparr>)
     }"

fun parse_loop ::
  "nat \<Rightarrow> nat \<Rightarrow> nat \<Rightarrow> byte list \<Rightarrow> boot_config \<Rightarrow> (byte list \<times> boot_config) option" where
  "parse_loop 0 i j config c = Some (config, c)"
| "parse_loop (Suc n) i j config c =
     do {
       x \<leftarrow> rd1 config i;
       if x = 0x0A \<or> x = 0 then do {
         config \<leftarrow> wr config i [0];
         (line, c) \<leftarrow> parse_line (drop j config) c;
         parse_loop n (i + 1) (i + 1) (take j config @ line) c
       }
       else parse_loop n (i + 1) j config c
     }"

definition print_config :: "boot_config \<Rightarrow> unit option" where
  "print_config c =
     do {
       _ \<leftarrow> console ''kernel: %s'' [Mem_arg (Some (kernel c))];
       _ \<leftarrow> console ''options: %s'' [Mem_arg (Some (options c))];
       _ \<leftarrow> console ''ramdisk: %s'' [Mem_arg (Some (ramdisk c))];
       _ \<leftarrow> (case trynetboot c of None \<Rightarrow> Some () | Some k \<Rightarrow> console ''trynetboot: %d'' [Word_arg (of_int k)]);
       (case forcediskboot c of None \<Rightarrow> Some () | Some k \<Rightarrow> console ''forcediskboot: %d'' [Word_arg (of_int k)])
     }"

text \<open>
  \<open>len++\<close> overflows at the largest \<open>int\<close>.  The counters go up by at most one for each of the fewer
  than \<open>2 ^ 31\<close> lines, so those that start at 0, as the callers' do, do not overflow.
\<close>

definition parse_config :: "byte list \<Rightarrow> int \<Rightarrow> boot_config \<Rightarrow> (byte list \<times> boot_config) option" where
  "parse_config config len c =
     (if len < 0 then None
      else do {
        config \<leftarrow> wr config (nat len) [0];
        require (len < 2 ^ 31 - 1);
        (config, c) \<leftarrow> parse_loop (nat len + 1) 0 0 config c;
        _ \<leftarrow> print_config c;
        Some (config, c)
      })"

section \<open>Reference definition\<close>

fun lines_of :: "byte list \<Rightarrow> byte list list" where
  "lines_of [] = [[]]"
| "lines_of (c # s) =
     (if c = 0x0A \<or> c = 0 then [] # lines_of s
      else (case lines_of s of [] \<Rightarrow> [[c]] | l # ls \<Rightarrow> (c # l) # ls))"

definition has_prefix :: "byte list \<Rightarrow> byte list \<Rightarrow> bool" where
  "has_prefix k l \<longleftrightarrow> take (length k) l = k"

definition arg_of :: "byte list \<Rightarrow> byte list \<Rightarrow> byte list" where
  "arg_of k l = dropWhile is_space (drop (length k) l)"

definition word_of :: "byte list \<Rightarrow> byte list" where
  "word_of s = takeWhile (\<lambda>c. \<not> is_space c) s"

definition put_str :: "byte list \<Rightarrow> byte list \<Rightarrow> byte list" where
  "put_str buf s = s @ 0 # drop (Suc (length s)) buf"

abbreviation kw :: "string \<Rightarrow> byte list" where
  "kw s \<equiv> map of_char s"

definition line_effect :: "byte list \<Rightarrow> boot_config \<Rightarrow> boot_config" where
  "line_effect l c =
     (if has_prefix (kw ''kernel'') l
      then c\<lparr>kernel := put_str (kernel c) (word_of (arg_of (kw ''kernel'') l))\<rparr>
      else if has_prefix (kw ''options'') l
      then c\<lparr>options := put_str (options c) (arg_of (kw ''options'') l)\<rparr>
      else if has_prefix (kw ''append'') l
      then c\<lparr>options := put_str (options c) (arg_of (kw ''append'') l)\<rparr>
      else if has_prefix (kw ''ramdisk'') l
      then c\<lparr>ramdisk := put_str (ramdisk c) (word_of (arg_of (kw ''ramdisk'') l))\<rparr>
      else if has_prefix (kw ''initrd'') l
      then c\<lparr>ramdisk := put_str (ramdisk c) (word_of (arg_of (kw ''initrd'') l))\<rparr>
      else if has_prefix (kw ''try-net-boot'') l
      then c\<lparr>trynetboot := map_option (\<lambda>k. k + 1) (trynetboot c)\<rparr>
      else if has_prefix (kw ''force-disk-boot'') l
      then c\<lparr>forcediskboot := map_option (\<lambda>k. k + 1) (forcediskboot c)\<rparr>
      else c)"

abbreviation up_to_nul :: "byte list \<Rightarrow> byte list" where
  "up_to_nul bs \<equiv> takeWhile (\<lambda>c. c \<noteq> 0) bs"

text \<open>An array of 1024 bytes with a string that \<open>print_config\<close> can print.\<close>

definition array_ok :: "byte list \<Rightarrow> bool" where
  "array_ok bs \<longleftrightarrow> length bs = 1024 \<and> length (up_to_nul bs) \<le> 1013"

definition config_ok :: "boot_config \<Rightarrow> bool" where
  "config_ok c \<longleftrightarrow> array_ok (kernel c) \<and> array_ok (options c) \<and> array_ok (ramdisk c)"

text \<open>The caller's fresh arrays: \<open>char options[1024] = ""\<close> and so on.\<close>

definition fresh_config :: "int option \<Rightarrow> int option \<Rightarrow> boot_config" where
  "fresh_config t f = \<lparr>kernel = replicate 1024 0, options = replicate 1024 0,
     ramdisk = replicate 1024 0, trynetboot = t, forcediskboot = f\<rparr>"

lemma fresh_config_ok: "config_ok (fresh_config t f)"
  by (simp add: config_ok_def array_ok_def fresh_config_def del: replicate_numeral)

section \<open>One line\<close>

lemma skip_space_cstring:
  "0 \<notin> set t \<Longrightarrow> skip_space (t @ 0 # r) = Some (length (takeWhile is_space t))"
  by (induction t) (auto simp: is_space_def)

lemma skip_token_cstring:
  "0 \<notin> set t \<Longrightarrow> skip_token (t @ 0 # r) = Some (length (word_of t))"
  by (induction t) (auto simp: word_of_def)

lemma kw_no_nul:
  "0 \<notin> set (kw ''kernel'')" "0 \<notin> set (kw ''options'')" "0 \<notin> set (kw ''append'')"
  "0 \<notin> set (kw ''ramdisk'')" "0 \<notin> set (kw ''initrd'')" "0 \<notin> set (kw ''try-net-boot'')"
  "0 \<notin> set (kw ''force-disk-boot'')"
  by simp_all

lemma match_kw:
  "0 \<notin> set (kw k) \<Longrightarrow> 0 \<notin> set t \<Longrightarrow>
   match (t @ 0 # r) (lit k) = Some (if has_prefix (kw k) t then Some (length k) else None)"
  using match_cstring [of "kw k" t r "[]"] by (simp add: lit_def has_prefix_def)

lemma arg_of_drop:
  "drop (length k + length (takeWhile is_space (drop (length k) t))) t = arg_of k t"
  by (simp add: arg_of_def dropWhile_eq_drop add.commute)

lemma set_arg_of: "set (arg_of k t) \<subseteq> set t"
  unfolding arg_of_def by (meson set_dropWhileD set_drop_subset subset_iff)

lemma length_arg_of: "length (arg_of k t) \<le> length t"
  unfolding arg_of_def by (metis diff_le_self le_trans length_drop length_dropWhile_le)

lemma length_arg_of_prefix: "has_prefix k l \<Longrightarrow> k \<noteq> [] \<Longrightarrow> length (arg_of k l) < length l"
proof -
  assume "has_prefix k l" "k \<noteq> []"
  then have "0 < length k" "length k \<le> length l" by (auto simp: has_prefix_def dest: arg_cong [of _ _ length])
  moreover have "length (arg_of k l) \<le> length l - length k"
    using length_dropWhile_le [of is_space "drop (length k) l"] by (simp add: arg_of_def)
  ultimately show "length (arg_of k l) < length l" by linarith
qed

lemma length_word_of: "length (word_of s) \<le> length s"
  by (simp add: word_of_def length_takeWhile_le)

lemma set_word_of: "set (word_of s) \<subseteq> set s"
  by (auto simp: word_of_def dest: set_takeWhileD)

lemma length_put_str [simp]: "length s < length buf \<Longrightarrow> length (put_str buf s) = length buf"
  by (simp add: put_str_def)

lemma do_line_eq:
  assumes "0 \<notin> set (kw k)" "0 \<notin> set t" "length t < length s"
  shows "do_line (t @ 0 # r) (lit k) s =
    Some (if has_prefix (kw k) t then put_str s (arg_of (kw k) t) else s)"
proof (cases "has_prefix (kw k) t")
  case False
  with assms show ?thesis by (simp add: do_line_def match_kw)
next
  case True
  then have k: "length k \<le> length t" by (metis has_prefix_def length_map length_take min.cobounded1)
  let ?d = "drop (length k) t"
  have nz: "0 \<notin> set ?d" using assms(2) by (auto dest: in_set_dropD)
  have le: "length k + length (takeWhile is_space ?d) \<le> length t"
    using k length_takeWhile_le [of is_space ?d] by simp
  have "drop (length k + length (takeWhile is_space ?d)) (t @ 0 # r) = arg_of (kw k) t @ 0 # r"
    using le arg_of_drop [of "kw k" t] by simp
  moreover have "0 \<notin> set (arg_of (kw k) t)" using assms(2) set_arg_of by blast
  moreover have "length (arg_of (kw k) t) < length s" using length_arg_of assms(3) by (rule le_less_trans)
  ultimately show ?thesis
    using True k assms nz by (simp add: do_line_def match_kw skip_space_cstring strcpy_cstring put_str_def)
qed

lemma do_file_miss:
  "0 \<notin> set (kw k) \<Longrightarrow> 0 \<notin> set t \<Longrightarrow> \<not> has_prefix (kw k) t \<Longrightarrow>
   do_file (t @ 0 # r) (lit k) s = Some (t @ 0 # r, s)"
  by (simp add: do_file_def match_kw)

lemma drop_cut:
  assumes "e \<le> length t"
  shows "drop (Suc (length t)) (take e t @ 0 # drop (Suc e) (t @ 0 # r)) = r"
proof -
  have "take e t @ 0 # drop (Suc e) (t @ 0 # r) = (t @ 0 # r)[e := 0]"
    using assms by (simp add: upd_conv_take_nth_drop)
  then show ?thesis using assms by simp
qed

text \<open>A hit truncates the line after its first argument word.\<close>

lemma do_file_hit:
  assumes "0 \<notin> set (kw k)" "0 \<notin> set t" "length t < length s" "has_prefix (kw k) t"
  shows "\<exists>t' r'. do_file (t @ 0 # r) (lit k) s = Some (t' @ 0 # r', put_str s (word_of (arg_of (kw k) t)))
    \<and> 0 \<notin> set t' \<and> has_prefix (kw k) t' \<and> length t' \<le> length t
    \<and> drop (Suc (length t)) (t' @ 0 # r') = r"
proof -
  have k: "length k \<le> length t" using assms(4) by (metis has_prefix_def length_map length_take min.cobounded1)
  let ?d = "drop (length k) t" and ?a = "arg_of (kw k) t"
  let ?ret = "length k + length (takeWhile is_space ?d)"
  let ?e = "?ret + length (word_of ?a)"
  let ?t = "take ?e t" and ?r = "drop (Suc ?e) (t @ 0 # r)"
  have nz: "0 \<notin> set ?d" "0 \<notin> set ?a" "0 \<notin> set (word_of ?a)" "0 \<notin> set ?t"
    using assms(2) set_arg_of [of "kw k" t] set_word_of [of ?a]
    by (auto dest: in_set_dropD in_set_takeD)
  have ret: "?ret \<le> length t" using k length_takeWhile_le [of is_space ?d] by simp
  have arg: "drop ?ret t = ?a" using arg_of_drop [of "kw k" t] by simp
  then have e: "?e \<le> length t" using length_word_of [of ?a] ret by (metis Nat.le_diff_conv2 add.commute length_drop)
  have word: "take (length (word_of ?a)) ?a = word_of ?a"
    unfolding word_of_def by (metis takeWhile_eq_take)
  have w: "wr (t @ 0 # r) ?e [0] = Some (?t @ 0 # ?r)"
    using e by (simp add: wr_def put_bytes_def)
  have "drop ?ret (?t @ 0 # ?r) = word_of ?a @ 0 # ?r"
    using arg word ret e by (simp add: drop_take)
  moreover have "length (word_of ?a) < length s"
    using length_word_of [of ?a] length_arg_of [of "kw k" t] assms(3) by linarith
  ultimately have "do_file (t @ 0 # r) (lit k) s = Some (?t @ 0 # ?r, put_str s (word_of ?a))"
    using assms nz k ret arg w
    by (simp add: do_file_def match_kw skip_space_cstring skip_token_cstring strcpy_cstring put_str_def Let_def)
  moreover have "has_prefix (kw k) ?t"
    using assms(4) k by (simp add: has_prefix_def min_def)
  moreover have "drop (Suc (length t)) (?t @ 0 # ?r) = r"
    using e by (rule drop_cut)
  ultimately show ?thesis using nz e by (intro exI [of _ ?t] exI [of _ ?r]) simp
qed

lemma has_prefix_first:
  "has_prefix (a # k) t \<Longrightarrow> has_prefix (b # m) t \<Longrightarrow> a = b"
  by (cases t) (auto simp: has_prefix_def)

lemma up_to_nul_put_str: "length (up_to_nul (put_str buf s)) \<le> length s"
proof -
  have "length (takeWhile (\<lambda>c. c \<noteq> 0) (s @ 0 # r)) \<le> length s" for r by (induction s) auto
  then show ?thesis by (simp add: put_str_def)
qed

lemma array_ok_put_str: "array_ok buf \<Longrightarrow> length s \<le> 1013 \<Longrightarrow> array_ok (put_str buf s)"
  using up_to_nul_put_str [of buf s] by (simp add: array_ok_def)

lemma length_put_arg: "length l \<le> 1014 \<Longrightarrow> length b = 1024 \<Longrightarrow> length (put_str b (arg_of k l)) = 1024"
  using length_arg_of [of k l] by simp

lemma array_ok_put_arg:
  assumes "length l \<le> 1014" "array_ok b" "has_prefix k l" "k \<noteq> []"
  shows "array_ok (put_str b (arg_of k l))" "array_ok (put_str b (word_of (arg_of k l)))"
  using length_arg_of_prefix [OF assms(3,4)] length_word_of [of "arg_of k l"] assms(1,2) by (simp_all add: array_ok_put_str)

lemma config_ok_line_effect:
  "config_ok c \<Longrightarrow> length l \<le> 1014 \<Longrightarrow> config_ok (line_effect l c)"
  by (simp add: config_ok_def line_effect_def array_ok_put_arg)

lemma up_to_nul_split: "length (up_to_nul bs) < length bs \<Longrightarrow> \<exists>r. bs = up_to_nul bs @ 0 # r"
  by (induction bs) auto

lemma print_array:
  assumes "array_ok bs" "plain s" "length s \<le> 9"
  shows "console (s @ ''%s'') [Mem_arg (Some bs)] = Some ()"
proof -
  obtain r where r: "bs = up_to_nul bs @ 0 # r"
    using up_to_nul_split [of bs] assms(1) by (auto simp: array_ok_def)
  have "console (s @ ''%s'') [Mem_arg (Some (up_to_nul bs @ 0 # r))] = Some ()"
    using console_string [OF assms(2), of "up_to_nul bs" r] assms(1,3) by (auto simp: array_ok_def dest: set_takeWhileD)
  then show ?thesis unfolding r [symmetric] .
qed

lemma print_config_ok: "config_ok c \<Longrightarrow> print_config c = Some ()"
proof -
  assume c: "config_ok c"
  have p: "plain ''kernel: ''" "plain ''options: ''" "plain ''ramdisk: ''" "plain ''trynetboot: ''" "plain ''forcediskboot: ''"
    by (simp_all add: plain_def)
  have "console ''kernel: %s'' [Mem_arg (Some (kernel c))] = Some ()" "console ''options: %s'' [Mem_arg (Some (options c))] = Some ()"
    "console ''ramdisk: %s'' [Mem_arg (Some (ramdisk c))] = Some ()"
    using print_array [OF _ p(1), of "kernel c"] print_array [OF _ p(2), of "options c"] print_array [OF _ p(3), of "ramdisk c"] c
    by (simp_all add: config_ok_def)
  moreover have "console ''trynetboot: %d'' [Word_arg w] = Some ()" "console ''forcediskboot: %d'' [Word_arg w] = Some ()" for w
    using console_number [OF p(4), of w] console_number [OF p(5), of w] by simp_all
  ultimately show ?thesis by (simp add: print_config_def split: option.split)
qed

text \<open>The keywords differ in their first letter, so a line is acted on by at most one of them.\<close>

lemma kw_exclusive:
  "has_prefix (kw (a # k)) t \<Longrightarrow> (of_char a :: byte) \<noteq> of_char b \<Longrightarrow> \<not> has_prefix (kw (b # m)) t"
  using has_prefix_first by auto

lemma bump_cstring:
  "0 \<notin> set (kw k) \<Longrightarrow> 0 \<notin> set t \<Longrightarrow>
   bump (t @ 0 # r) (lit k) n = Some (if has_prefix (kw k) t then map_option (\<lambda>k. k + 1) n else n)"
  by (auto simp: bump_def match_kw split: option.split)

lemma parse_line_prints:
  assumes "0 \<notin> set t" "length t < 4294967295"
  shows "console ''config: %s'' [Mem_arg (Some (t @ 0 # r))] = (if length t \<le> 1014 then Some () else None)"
  using console_string [of "''config: ''" t r] assms by (simp add: plain_def)

lemma parse_line_correct:
  assumes t: "0 \<notin> set t" "length t \<le> 1014" and c: "config_ok c"
  shows "\<exists>line. parse_line (t @ 0 # r) c = Some (line, line_effect t c)
    \<and> drop (Suc (length t)) line = r"
proof -
  have out: "console ''config: %s'' [Mem_arg (Some (t @ 0 # r))] = Some ()" using parse_line_prints [OF t(1)] t(2) by simp
  have miss: "\<And>k s. 0 \<notin> set (kw k) \<Longrightarrow> \<not> has_prefix (kw k) t \<Longrightarrow>
     do_file (t @ 0 # r) (lit k) s = Some (t @ 0 # r, s)"
    using t do_file_miss by blast
  consider (kernel) "has_prefix (kw ''kernel'') t" | (ramdisk) "has_prefix (kw ''ramdisk'') t"
    | (initrd) "has_prefix (kw ''initrd'') t"
    | (other) "\<not> has_prefix (kw ''kernel'') t" "\<not> has_prefix (kw ''ramdisk'') t" "\<not> has_prefix (kw ''initrd'') t"
    by blast
  then show ?thesis
  proof cases
    case kernel
    with do_file_hit [OF kw_no_nul(1) t(1) _ kernel, of "kernel c" r] t c
    obtain t' r' where h: "do_file (t @ 0 # r) (lit ''kernel'') (kernel c) =
        Some (t' @ 0 # r', put_str (kernel c) (word_of (arg_of (kw ''kernel'') t)))"
      "0 \<notin> set t'" "has_prefix (kw ''kernel'') t'" "length t' \<le> length t"
      "drop (Suc (length t)) (t' @ 0 # r') = r"
      unfolding config_ok_def array_ok_def by auto
    note ex = kw_exclusive [OF h(3)]
    from h t c show ?thesis unfolding config_ok_def array_ok_def
      by (simp add: parse_line_def out do_line_eq do_file_miss bump_cstring kw_no_nul ex line_effect_def kernel del: list.map)
  next
    case ramdisk
    note ex = kw_exclusive [OF ramdisk]
    from do_file_hit [OF kw_no_nul(4) t(1) _ ramdisk, of "ramdisk c" r] t c
    obtain t' r' where h: "do_file (t @ 0 # r) (lit ''ramdisk'') (ramdisk c) =
        Some (t' @ 0 # r', put_str (ramdisk c) (word_of (arg_of (kw ''ramdisk'') t)))"
      "0 \<notin> set t'" "has_prefix (kw ''ramdisk'') t'" "length t' \<le> length t"
      "drop (Suc (length t)) (t' @ 0 # r') = r"
      unfolding config_ok_def array_ok_def by auto
    note ex' = kw_exclusive [OF h(3)]
    from h t c show ?thesis unfolding config_ok_def array_ok_def
      by (simp add: parse_line_def out do_line_eq do_file_miss bump_cstring kw_no_nul ex ex' line_effect_def ramdisk del: list.map)
  next
    case initrd
    note ex = kw_exclusive [OF initrd]
    from do_file_hit [OF kw_no_nul(5) t(1) _ initrd, of "ramdisk c" r] t c
    obtain t' r' where h: "do_file (t @ 0 # r) (lit ''initrd'') (ramdisk c) =
        Some (t' @ 0 # r', put_str (ramdisk c) (word_of (arg_of (kw ''initrd'') t)))"
      "0 \<notin> set t'" "has_prefix (kw ''initrd'') t'" "length t' \<le> length t"
      "drop (Suc (length t)) (t' @ 0 # r') = r"
      unfolding config_ok_def array_ok_def by auto
    note ex' = kw_exclusive [OF h(3)]
    from h t c show ?thesis unfolding config_ok_def array_ok_def
      by (simp add: parse_line_def out do_line_eq do_file_miss bump_cstring kw_no_nul ex ex' line_effect_def initrd del: list.map)
  next
    case other
    have ex: "has_prefix (kw ''options'') t \<Longrightarrow> \<not> has_prefix (kw ''append'') t"
      "has_prefix (kw ''options'') t \<Longrightarrow> \<not> has_prefix (kw ''try-net-boot'') t"
      "has_prefix (kw ''options'') t \<Longrightarrow> \<not> has_prefix (kw ''force-disk-boot'') t"
      "has_prefix (kw ''append'') t \<Longrightarrow> \<not> has_prefix (kw ''try-net-boot'') t"
      "has_prefix (kw ''append'') t \<Longrightarrow> \<not> has_prefix (kw ''force-disk-boot'') t"
      "has_prefix (kw ''try-net-boot'') t \<Longrightarrow> \<not> has_prefix (kw ''force-disk-boot'') t"
      by (rule kw_exclusive, assumption, simp)+
    from other t c show ?thesis unfolding config_ok_def array_ok_def
      by (auto simp add: parse_line_def out do_line_eq do_file_miss bump_cstring kw_no_nul ex line_effect_def length_put_arg
          simp del: list.map)
  qed
qed

section \<open>The whole text\<close>

lemma lines_of_no_sep:
  "\<forall>x\<in>set cur. x \<noteq> 0x0A \<and> x \<noteq> 0 \<Longrightarrow>
   lines_of (cur @ s) = (cur @ hd (lines_of s)) # tl (lines_of s)"
proof (induction cur)
  case Nil
  have "lines_of s \<noteq> []" by (cases s) (auto split: list.splits)
  then show ?case by simp
next
  case (Cons x cur)
  then show ?case by simp
qed

text \<open>One separator: the line ends here, and what follows the line is untouched by the parser.\<close>

lemma parse_separator:
  assumes d: "drop j config = cur @ x # s" and x: "x = 0x0A \<or> x = 0"
  shows "parse_loop (Suc n) (j + length cur) j config c = do {
      (line, c) \<leftarrow> parse_line (cur @ 0 # s) c;
      parse_loop n (j + length cur + 1) (j + length cur + 1) (take j config @ line) c
    }"
    and "j \<le> length config"
proof -
  have j: "j \<le> length config" using d by (metis drop_all append_is_Nil_conv list.distinct(1) nat_le_linear)
  have len: "length config = j + length cur + Suc (length s)"
    using arg_cong [OF d, of length] j by simp
  have rd: "rd1 config (j + length cur) = Some x"
    using len d j by (metis nth_append_length nth_drop rd1_Some_iff less_add_Suc1 add_Suc_right)
  have dd: "drop (Suc (j + length cur)) config = s"
    using d by (metis add_Suc_right append_Cons append_Nil append_assoc append_eq_conv_conj drop_drop
        length_append_singleton add.commute)
  have wr: "wr config (j + length cur) [0] = Some (take j config @ cur @ 0 # s)"
  proof -
    have "take (j + length cur) config = take j config @ cur"
      using d by (simp add: take_add)
    then show ?thesis using len dd by (simp add: wr_def put_bytes_def)
  qed
  show "parse_loop (Suc n) (j + length cur) j config c = do {
      (line, c) \<leftarrow> parse_line (cur @ 0 # s) c;
      parse_loop n (j + length cur + 1) (j + length cur + 1) (take j config @ line) c
    }" using rd x wr j by simp
  show "j \<le> length config" by (rule j)
qed

lemma parse_step:
  assumes d: "drop j config = cur @ x # s" and x: "x = 0x0A \<or> x = 0" and cur: "0 \<notin> set cur" "length cur \<le> 1014" and c: "config_ok c"
  shows "\<exists>config'. parse_loop (Suc n) (j + length cur) j config c =
      parse_loop n (j + length cur + 1) (j + length cur + 1) config' (line_effect cur c)
    \<and> drop (j + length cur + 1) config' = s"
proof -
  from parse_line_correct [OF cur c, of s] obtain line where
    line: "parse_line (cur @ 0 # s) c = Some (line, line_effect cur c)" "drop (Suc (length cur)) line = s"
    by auto
  have dj: "drop (j + length cur + 1) (take j config @ line) = s"
    using line(2) parse_separator(2) [OF d x] by (simp add: add.commute)
  have "parse_loop (Suc n) (j + length cur) j config c =
      parse_loop n (j + length cur + 1) (j + length cur + 1) (take j config @ line) (line_effect cur c)"
    unfolding parse_separator(1) [OF d x] line(1) by simp
  with dj show ?thesis by blast
qed

text \<open>A line that is too long for \<open>printk\<close>.\<close>

lemma parse_line_long: "0 \<notin> set t \<Longrightarrow> 1014 < length t \<Longrightarrow> length t < 4294967295 \<Longrightarrow> parse_line (t @ 0 # r) c = None"
  by (simp add: parse_line_def parse_line_prints)

lemma parse_step_long:
  assumes "drop j config = cur @ x # s" "x = 0x0A \<or> x = 0" "0 \<notin> set cur" "1014 < length cur" "length cur < 4294967295"
  shows "parse_loop (Suc n) (j + length cur) j config c = None"
  unfolding parse_separator(1) [OF assms(1,2)] using parse_line_long [OF assms(3-5)] by simp

abbreviation lines_short :: "byte list \<Rightarrow> bool" where
  "lines_short cfg \<equiv> \<forall>l\<in>set (lines_of cfg). length l \<le> 1014"

lemma parse_loop_correct:
  "drop j config = cur @ rest @ 0 # t \<Longrightarrow> \<forall>x\<in>set cur. x \<noteq> 0x0A \<and> x \<noteq> 0 \<Longrightarrow>
   length (cur @ rest) < 4294967295 \<Longrightarrow> config_ok c \<Longrightarrow>
   \<exists>config'. parse_loop (Suc (length rest)) (j + length cur) j config c =
     (if lines_short (cur @ rest) then Some (config', fold line_effect (lines_of (cur @ rest)) c) else None)"
proof (induction rest arbitrary: j config cur c)
  case Nil
  have nz: "0 \<notin> set cur" using Nil.prems(2) by auto
  have l: "lines_of cur = [cur]" using lines_of_no_sep [OF Nil.prems(2), of "[]"] by simp
  have d: "drop j config = cur @ 0 # t" using Nil.prems(1) by simp
  show ?case
  proof (cases "length cur \<le> 1014")
    case True
    from parse_step [OF d _ nz True Nil.prems(4), of 0] l True show ?thesis by auto
  next
    case False
    then show ?thesis using parse_step_long [OF d _ nz, of 0 c] Nil.prems(3) l by simp
  qed
next
  case (Cons x rest)
  show ?case
  proof (cases "x = 0x0A \<or> x = 0")
    case True
    have nz: "0 \<notin> set cur" using Cons.prems(2) by auto
    have l: "lines_of (cur @ x # rest) = cur # lines_of rest"
      using lines_of_no_sep [OF Cons.prems(2), of "x # rest"] True by auto
    have d: "drop j config = cur @ x # rest @ 0 # t" using Cons.prems(1) by simp
    show ?thesis
    proof (cases "length cur \<le> 1014")
      case False
      then show ?thesis using parse_step_long [OF d True nz, of "Suc (length rest)" c] Cons.prems(3) l by simp
    next
      case len: True
      from parse_step [OF d True nz len Cons.prems(4), of "Suc (length rest)"]
      obtain config' where c': "parse_loop (Suc (Suc (length rest))) (j + length cur) j config c =
          parse_loop (Suc (length rest)) (j + length cur + 1) (j + length cur + 1) config' (line_effect cur c)"
        "drop (j + length cur + 1) config' = [] @ rest @ 0 # t"
        by auto
      have "\<exists>config''. parse_loop (Suc (length rest)) (j + length cur + 1) (j + length cur + 1) config' (line_effect cur c) =
          (if lines_short rest then Some (config'', fold line_effect (lines_of rest) (line_effect cur c)) else None)"
        using Cons.IH [OF c'(2) _ _ config_ok_line_effect [OF Cons.prems(4) len]] Cons.prems(3) unfolding append_Nil
        by (simp del: parse_loop.simps)
      then show ?thesis unfolding l using c'(1) len
        by (cases "lines_short rest") (auto simp del: parse_loop.simps)
    qed
  next
    case False
    have rd: "rd1 config (j + length cur) = Some x"
    proof -
      have "length config = j + length (cur @ x # rest @ 0 # t)"
        using Cons.prems(1) by (metis append_Cons append_is_Nil_conv drop_eq_Nil2 le_add_diff_inverse
            length_drop list.distinct(1) nat_le_linear)
      moreover have "config ! (j + length cur) = x"
        using Cons.prems(1) calculation by (metis append_Cons le_add1 nth_append_length nth_drop)
      ultimately show ?thesis by (simp add: rd1_def)
    qed
    have "\<forall>y\<in>set (cur @ [x]). y \<noteq> 0x0A \<and> y \<noteq> 0" using Cons.prems(2) False by auto
    moreover have "(cur @ [x]) @ rest = cur @ x # rest" by simp
    moreover have "parse_loop (Suc (length (x # rest))) (j + length cur) j config c =
        parse_loop (Suc (length rest)) (j + length (cur @ [x])) j config c"
      using rd False by simp
    ultimately show ?thesis using Cons.IH [of j config "cur @ [x]" c] Cons.prems
      by (cases "lines_short (cur @ x # rest)") (auto simp del: parse_loop.simps)
  qed
qed

lemma config_ok_lines: "config_ok c \<Longrightarrow> \<forall>l\<in>set ls. length l \<le> 1014 \<Longrightarrow> config_ok (fold line_effect ls c)"
  by (induction ls arbitrary: c) (auto simp: config_ok_line_effect)

lemma parse_config_lines:
  assumes "length cfg < length config" "take (length cfg) config = cfg" "length cfg < 2 ^ 31 - 1" "config_ok c"
  shows "map_option snd (parse_config config (int (length cfg)) c) =
     (if lines_short cfg then Some (fold line_effect (lines_of cfg) c) else None)"
proof -
  let ?t = "drop (Suc (length cfg)) config"
  have "wr config (length cfg) [0] = Some (cfg @ 0 # ?t)"
    using assms(1,2) by (simp add: wr_def put_bytes_def)
  moreover obtain config' where "parse_loop (Suc (length cfg)) 0 0 (cfg @ 0 # ?t) c =
      (if lines_short cfg then Some (config', fold line_effect (lines_of cfg) c) else None)"
    using parse_loop_correct [of 0 "cfg @ 0 # ?t" "[]" cfg ?t c] assms(3,4) unfolding append_Nil
    by (auto simp del: parse_loop.simps)
  moreover have "int (length cfg) < 2 ^ 31 - 1" using assms(3) by simp
  ultimately show ?thesis
    using print_config_ok [OF config_ok_lines [OF assms(4), of "lines_of cfg"]] by (simp add: parse_config_def require_def del: parse_loop.simps)
qed

text \<open>
  C12: On a text of \<open>len\<close> bytes in a buffer that has at least one more byte, \<open>parse_config\<close> returns
  exactly if every line has at most 1014 characters, and then leaves the outputs that reading the
  text line by line gives: the last \<open>kernel\<close>, \<open>ramdisk\<close>/\<open>initrd\<close> and \<open>options\<close>/\<open>append\<close> line wins
  and the two flags count their lines.  A longer line overruns the buffer of \<open>printk\<close>.  The
  three arrays have 1024 bytes and start with strings that can be printed, as the callers' empty ones.\<close>

theorem parse_config_correct:
  assumes "length cfg < length config" "take (length cfg) config = cfg" "length cfg < 2 ^ 31 - 1" "config_ok c"
  shows "map_option snd (parse_config config (int (length cfg)) c) =
     (if \<forall>l\<in>set (lines_of cfg). length l \<le> 1014 then Some (fold line_effect (lines_of cfg) c) else None)"
  using assms by (rule parse_config_lines)

theorem parse_config_correct_witness:
  "map_option (take 8 \<circ> kernel \<circ> snd) (parse_config (map of_char ''kernel vmlinux quiet'' @ [0x0A, 0]) 21
     (fresh_config None None)) = Some (map of_char ''vmlinux'' @ [0])"
proof -
  let ?t = "map of_char ''kernel vmlinux quiet'' @ [0x0A] :: byte list"
  have "map_option snd (parse_config (?t @ [0]) (int (length ?t)) (fresh_config None None)) =
      Some (fold line_effect (lines_of ?t) (fresh_config None None))"
    by (subst parse_config_correct) (simp_all add: fresh_config_ok)
  moreover have "take 8 (kernel (fold line_effect (lines_of ?t) (fresh_config None None))) =
      map of_char ''vmlinux'' @ [0]"
    by (simp add: line_effect_def has_prefix_def arg_of_def word_of_def is_space_def put_str_def fresh_config_def)
  ultimately show ?thesis by (auto simp: option.map_comp)
qed

text \<open>
  The loader allocates exactly as many bytes as the configuration file has and passes that
  size as \<open>len\<close>; the terminating NUL then goes one byte past the buffer, whatever the cfg.\<close>

theorem parse_config_exact_buffer_overruns:
  "parse_config config (int (length config)) c = None"
  by (simp add: parse_config_def wr_def)

text \<open>
  C30: A \<open>kernel\<close> line whose argument does not fit in the array is copied past its end by \<open>do_file\<close>;
  nothing bounds the copy.  \<open>parse_line\<close> does not return on such a line.\<close>

theorem parse_line_long_kernel_overruns:
  assumes "0 \<notin> set name" "\<forall>x\<in>set name. \<not> is_space x" "length (kernel c) \<le> length name"
  shows "do_file (kw ''kernel'' @ 0x20 # name @ 0 # r) (lit ''kernel'') (kernel c) = None
    \<and> parse_line (kw ''kernel'' @ 0x20 # name @ 0 # r) c = None"
proof -
  let ?t = "kw ''kernel'' @ 0x20 # name"
  have nz: "0 \<notin> set ?t" using assms(1) by simp
  have pre: "has_prefix (kw ''kernel'') ?t" by (simp add: has_prefix_def)
  have word: "word_of name = name" using assms(2) by (simp add: word_of_def)
  have sp: "takeWhile is_space name = []" using assms(2) by (cases name) auto
  have "\<And>u. wr (u @ 0 # r) (length u) [0] = Some (u @ 0 # r)"
    by (simp add: wr_def put_bytes_def)
  from this [of ?t] have w: "wr (?t @ 0 # r) (7 + length name) [0] = Some (?t @ 0 # r)"
    by (simp add: numeral_eq_Suc del: list.map)
  have "match (?t @ 0 # r) (lit ''kernel'') = Some (Some 6)"
    using match_kw [OF kw_no_nul(1) nz, of r] pre by (simp del: list.map)
  moreover have "skip_space (drop 6 (?t @ 0 # r)) = Some 1"
    using skip_space_cstring [of "0x20 # name" r] assms(1) sp by (simp add: is_space_def)
  moreover have "skip_token (drop 7 (?t @ 0 # r)) = Some (length name)"
    using skip_token_cstring [OF assms(1), of r] word by simp
  moreover note w
  moreover have "strcpy (kernel c) (drop 7 (?t @ 0 # r)) = None"
    using strcpy_overflow [OF assms(1,3), of r] by simp
  ultimately have "do_file (?t @ 0 # r) (lit ''kernel'') (kernel c) = None"
    by (simp add: do_file_def Let_def del: list.map)
  then show ?thesis
    by (cases "console ''config: %s'' [Mem_arg (Some (?t @ 0 # r))]") (simp_all add: parse_line_def del: list.map)
qed

theorem parse_line_long_kernel_overruns_witness:
  "do_file (kw ''kernel'' @ 0x20 # replicate 1024 0x61 @ 0 # []) (lit ''kernel'') (kernel (fresh_config None None)) = None
   \<and> parse_line (kw ''kernel'' @ 0x20 # replicate 1024 0x61 @ 0 # []) (fresh_config None None) = None"
  by (rule parse_line_long_kernel_overruns) (simp_all add: is_space_def fresh_config_def)

end
