(* ===== verification/Crc.thy ===== *)
theory Crc
  imports Prelude
begin

text \<open>
  The CRC-32 of \<^verbatim>\<open>src/main/crc.c\<close> and its use in \<^verbatim>\<open>src/main/efi.c\<close> (\<open>efi_crc32\<close>).
  Besides computing it, the lemmas show what the checksum of the partition table protects
  against: two blocks that differ only within four consecutive bytes never have the same CRC.
\<close>

section \<open>The checksum\<close>

definition CRCPOLY_LE :: u32 where "CRCPOLY_LE = 0xedb88320"

definition crc_bit :: "u32 \<Rightarrow> u32" where
  "crc_bit crc = drop_bit 1 crc XOR (if crc AND 1 \<noteq> 0 then CRCPOLY_LE else 0)"

fun crc32_le :: "u32 \<Rightarrow> byte list \<Rightarrow> nat \<Rightarrow> u32 option" where
  "crc32_le crc p 0 = Some crc"
| "crc32_le crc [] (Suc len) = None"
| "crc32_le crc (b # p) (Suc len) = crc32_le ((crc_bit ^^ 8) (crc XOR ucast b)) p len"

definition efi_crc32 :: "byte list \<Rightarrow> u32 \<Rightarrow> u32 option" where
  "efi_crc32 buf len = map_option (\<lambda>c. c XOR (- 1)) (crc32_le (- 1) buf (unat len))"

section \<open>Algebra of the shift register\<close>

lemma and_1_bit: "w AND 1 \<noteq> 0 \<longleftrightarrow> bit (w :: u32) 0"
  by (simp add: and_one_eq bit_0 odd_iff_mod_2_eq_one)

lemma xor_right_cancel: "a XOR c = b XOR c \<Longrightarrow> a = (b :: u32)"
  by (metis xor.assoc xor.right_neutral xor_self_eq)

lemma crc_bit_xor: "crc_bit (a XOR b) = crc_bit a XOR crc_bit b"
  unfolding crc_bit_def and_1_bit
  by (auto simp: drop_bit_xor bit_xor_iff ac_simps)

lemma crc_bit_inj: "crc_bit a = crc_bit b \<Longrightarrow> a = b"
proof -
  assume eq: "crc_bit a = crc_bit b"
  have top: "bit (crc_bit w) 31 \<longleftrightarrow> bit w 0" for w
    by (auto simp: crc_bit_def CRCPOLY_LE_def bit_xor_iff bit_drop_bit_eq and_1_bit dest: bit_imp_le_length)
  from eq top have b0: "bit a 0 = bit b 0" by metis
  then have "drop_bit 1 a = drop_bit 1 b"
    using eq xor_right_cancel [of "drop_bit 1 a" _ "drop_bit 1 b"]
    unfolding crc_bit_def and_1_bit by (cases "bit b 0") simp_all
  then have shifted: "bit (drop_bit 1 a) n = bit (drop_bit 1 b) n" for n by (simp only:)
  show "a = b"
  proof (rule bit_word_eqI)
    fix n
    show "bit a n = bit b n" using b0 shifted [of "n - 1"] by (cases n) (simp_all add: bit_drop_bit_eq)
  qed
qed

lemma crc_bits_xor: "(crc_bit ^^ n) (a XOR b) = (crc_bit ^^ n) a XOR (crc_bit ^^ n) b"
  by (induction n) (simp_all add: crc_bit_xor)

lemma crc_bits_inj: "(crc_bit ^^ n) a = (crc_bit ^^ n) b \<Longrightarrow> a = b"
  by (induction n) (auto dest: crc_bit_inj)

text \<open>Bits above the ones that are consumed are only shifted down.\<close>

lemma crc_bit_high: "k < 24 \<Longrightarrow> crc_bit (push_bit (Suc k) (ucast (b :: byte))) = push_bit k (ucast b)"
proof -
  assume "k < 24"
  have "\<not> bit (push_bit (Suc k) (ucast b :: u32)) 0" by (simp only: bit_push_bit_iff) simp
  then have "crc_bit (push_bit (Suc k) (ucast b)) = drop_bit 1 (push_bit (Suc k) (ucast b))"
    unfolding crc_bit_def and_1_bit by (simp only: if_False xor.right_neutral)
  also have "\<dots> = push_bit k (ucast b)"
    using \<open>k < 24\<close> by (intro bit_word_eqI) (auto simp: bit_simps Suc_diff_le simp del: push_bit_Suc dest: bit_imp_le_length)
  finally show ?thesis .
qed

lemma crc_bits_high: "n \<le> k \<Longrightarrow> k \<le> 24 \<Longrightarrow> (crc_bit ^^ n) (push_bit k (ucast (b :: byte))) = push_bit (k - n) (ucast b)"
proof (induction n)
  case (Suc n)
  then have "k - n = Suc (k - Suc n)" by simp
  with Suc crc_bit_high [of "k - Suc n" b] show ?case by simp
qed simp

text \<open>Taking in one byte, on an object that has it.\<close>

definition crc_byte :: "u32 \<Rightarrow> byte \<Rightarrow> u32" where
  "crc_byte crc b = (crc_bit ^^ 8) (crc XOR ucast b)"

lemma crc32_le_fold: "len \<le> length p \<Longrightarrow> crc32_le crc p len = Some (fold (\<lambda>b c. crc_byte c b) (take len p) crc)"
  by (induction crc p len rule: crc32_le.induct) (simp_all add: crc_byte_def)

lemma crc32_le_short: "length p < len \<Longrightarrow> crc32_le crc p len = None"
  by (induction crc p len rule: crc32_le.induct) simp_all

lemma crc_byte_inj: "crc_byte a b = crc_byte a' b \<Longrightarrow> a = a'"
  unfolding crc_byte_def using crc_bits_inj xor_right_cancel by blast

lemma crc_fold_inj: "fold (\<lambda>b c. crc_byte c b) bs a = fold (\<lambda>b c. crc_byte c b) bs a' \<Longrightarrow> a = a'"
  by (induction bs arbitrary: a a') (auto dest: crc_byte_inj)

text \<open>Four bytes enter the register as one little-endian word.\<close>

lemma crc_fold_word:
  assumes "length bs = 4"
  shows "fold (\<lambda>b c. crc_byte c b) bs crc = (crc_bit ^^ 32) (crc XOR le_word bs)"
proof -
  from assms obtain b0 b1 b2 b3 where bs: "bs = [b0, b1, b2, b3]"
    by (auto simp: length_Suc_conv numeral_eq_Suc)
  have w: "(le_word bs :: u32) = ucast b0 XOR push_bit 8 (ucast b1) XOR push_bit 16 (ucast b2) XOR push_bit 24 (ucast b3)"
    unfolding bs by (rule bit_word_eqI) (auto simp: bit_simps dest: bit_imp_le_length)
  have sp: "(crc_bit ^^ 32) x = (crc_bit ^^ 8) ((crc_bit ^^ 8) ((crc_bit ^^ 8) ((crc_bit ^^ 8) x)))" for x
    by (simp add: numeral_eq_Suc)
  have h: "(crc_bit ^^ 8) (push_bit 8 (ucast b)) = ucast b" "(crc_bit ^^ 8) (push_bit 16 (ucast b)) = push_bit 8 (ucast b)"
    "(crc_bit ^^ 8) (push_bit 24 (ucast b)) = push_bit 16 (ucast b)" for b :: byte
    using crc_bits_high [of 8 8 b] crc_bits_high [of 8 16 b] crc_bits_high [of 8 24 b] by simp_all
  show ?thesis unfolding w sp by (simp add: bs crc_byte_def crc_bits_xor h xor.assoc)
qed

text \<open>
  C25: The CRC detects every error that is confined to four consecutive bytes: two blocks that
  are equal except for differing four-byte windows at the same place have different CRCs.\<close>

theorem efi_crc32_detects_burst:
  assumes "length xs = 4" "length ys = 4" "xs \<noteq> ys" "length pre + 4 + length post < 2 ^ 32"
  shows "\<exists>c d. efi_crc32 (pre @ xs @ post) (of_nat (length pre + 4 + length post)) = Some c
    \<and> efi_crc32 (pre @ ys @ post) (of_nat (length pre + 4 + length post)) = Some d \<and> c \<noteq> d"
proof -
  let ?f = "fold (\<lambda>b c. crc_byte c b)"
  have n: "unat (of_nat (length pre + 4 + length post) :: u32) = length pre + 4 + length post"
    unfolding unat_of_nat using assms(4) by simp
  have e: "efi_crc32 (pre @ zs @ post) (of_nat (length pre + 4 + length post)) =
      Some (?f post (?f zs (?f pre (- 1))) XOR (- 1))" if "length zs = 4" for zs
    unfolding efi_crc32_def n using that by (subst crc32_le_fold) simp_all
  have "le_word xs \<noteq> (le_word ys :: u32)"
    using le_bytes_le_word [of 4 xs, where 'a = 32] le_bytes_le_word [of 4 ys, where 'a = 32] assms(1-3) by auto
  then have "?f xs (?f pre (- 1)) \<noteq> ?f ys (?f pre (- 1))"
    using crc_fold_word [OF assms(1)] crc_fold_word [OF assms(2)] crc_bits_inj xor_right_cancel
    by (metis xor.commute)
  then have "?f post (?f xs (?f pre (- 1))) XOR (- 1) \<noteq> ?f post (?f ys (?f pre (- 1))) XOR (- 1)"
    using crc_fold_inj xor_right_cancel by blast
  with e assms(1,2) show ?thesis by blast
qed

theorem efi_crc32_detects_burst_witness:
  "\<exists>c d. efi_crc32 [1, 2, 3, 4, 5, 6] 6 = Some c \<and> efi_crc32 [1, 2, 0, 4, 5, 6] 6 = Some d \<and> c \<noteq> d"
  using efi_crc32_detects_burst [of "[2, 3, 4, 5]" "[2, 0, 4, 5]" "[1]" "[6]"] by simp

end
