(* ===== verification/Io.thy ===== *)
theory Io
  imports Prelude
begin

text \<open>
  The machine below the drivers.  Port input and output (\<^verbatim>\<open>src/main/io.h\<close>), the tick counter and
  the delays (\<open>currticks\<close>, \<open>mdelay\<close> and \<open>udelay\<close>, whose file is not part of the tree) and the
  keyboard poll are operations on a hardware state of an arbitrary type \<open>'h\<close>; every driver
  definition takes them as an argument of type \<open>'h io\<close>.  Nothing is assumed about them here; the
  theorems that need a device state its documented behaviour as a hypothesis.

  The structures shared by the device drivers (\<^verbatim>\<open>src/main/eb/dev.h\<close>, \<^verbatim>\<open>pci.h\<close>, \<^verbatim>\<open>disk.h\<close> and the
  ones of \<^verbatim>\<open>ide_disk.c\<close>) are records.  A function pointer is a datatype of the functions that are
  ever stored in it; a pointer into a static array is an index.
\<close>

section \<open>Ports and time\<close>

record 'h io =
  inb :: "u16 \<Rightarrow> 'h \<Rightarrow> byte \<times> 'h"
  inw :: "u16 \<Rightarrow> 'h \<Rightarrow> u16 \<times> 'h"
  inl :: "u16 \<Rightarrow> 'h \<Rightarrow> u32 \<times> 'h"
  outb :: "byte \<Rightarrow> u16 \<Rightarrow> 'h \<Rightarrow> 'h"
  outw :: "u16 \<Rightarrow> u16 \<Rightarrow> 'h \<Rightarrow> 'h"
  outl :: "u32 \<Rightarrow> u16 \<Rightarrow> 'h \<Rightarrow> 'h"
  currticks :: "'h \<Rightarrow> u32 \<times> 'h"
  mdelay :: "u32 \<Rightarrow> 'h \<Rightarrow> 'h"
  udelay :: "u32 \<Rightarrow> 'h \<Rightarrow> 'h"
  poll_interruptions :: "'h \<Rightarrow> 'h"

text \<open>\<open>rep insw\<close>: \<open>count\<close> words from one port, stored in memory order.\<close>

fun in_string_16 :: "'h io \<Rightarrow> u16 \<Rightarrow> nat \<Rightarrow> 'h \<Rightarrow> byte list \<times> 'h" where
  "in_string_16 io port 0 h = ([], h)"
| "in_string_16 io port (Suc count) h =
     (let (w, h) = inw io port h;
          (bs, h) = in_string_16 io port count h
      in (le_bytes 2 w @ bs, h))"

section \<open>Devices\<close>

datatype driver = rtl8139_driver | ide_driver

record pci_device =
  p_class :: u32
  p_vendor :: u16
  p_dev_id :: u16
  p_membase :: u32
  p_ioaddr :: u32
  p_romaddr :: u32
  p_irq :: byte
  p_devfn :: byte
  p_bus :: byte
  p_use_specified :: byte
  p_driver :: "driver option"

datatype disable_fn = disable_null | disable_ide | disable_nic

record dev =
  v_disable :: disable_fn
  v_vendor_id :: u16
  v_device_id :: u16
  v_bus_type :: byte
  v_index :: int
  v_type :: int
  v_how_probe :: int
  v_to_probe :: int
  v_failsafe :: int
  v_type_index :: int
  v_pci :: pci_device
  v_advance :: int

definition PROBE_NONE :: int where "PROBE_NONE = 0"
definition PROBE_PCI :: int where "PROBE_PCI = 1"
definition PROBE_ISA :: int where "PROBE_ISA = 2"
definition NIC_DRIVER :: int where "NIC_DRIVER = 0"
definition DISK_DRIVER :: int where "DISK_DRIVER = 1"
definition PROBE_FIRST :: int where "PROBE_FIRST = - 1"
definition PROBE_NEXT :: int where "PROBE_NEXT = 0"
definition PROBE_AWAKE :: int where "PROBE_AWAKE = 1"
definition PROBE_FAILED :: int where "PROBE_FAILED = PROBE_FIRST"
definition PROBE_WORKED :: int where "PROBE_WORKED = PROBE_NEXT"

lemmas probe_codes = PROBE_NONE_def PROBE_PCI_def PROBE_ISA_def NIC_DRIVER_def DISK_DRIVER_def
  PROBE_FIRST_def PROBE_NEXT_def PROBE_AWAKE_def PROBE_FAILED_def PROBE_WORKED_def

datatype read_fn = read_null | read_dummy | read_ide

text \<open>\<open>d_priv\<close> is the index into \<open>harddisk_info\<close> of the drive, \<open>None\<close> for \<open>NULL\<close>.\<close>

record disk =
  d_dev :: dev
  d_read :: read_fn
  d_drive :: u32
  d_hw_sector_size :: u32
  d_sectors_per_read :: u32
  d_bytes :: u32
  d_sectors :: u64
  d_sector :: u64
  d_buffer :: "byte list"
  d_priv :: "nat option"
  d_disk_offset :: u32
  d_direction :: int

record controller =
  cmd_base :: u16
  ctrl_base :: u16

text \<open>\<open>i_ctrl\<close> tells whether \<open>ctrl\<close> points to the one global \<open>controller\<close> or is \<open>NULL\<close>.\<close>

record harddisk_info =
  i_ctrl :: bool
  i_heads :: u16
  i_cylinders :: u16
  i_sectors_per_track :: u16
  i_model_number :: "byte list"
  i_slave :: byte
  i_sectors :: u64
  i_address_mode :: int
  i_drive_exists :: int
  i_slave_absent :: int
  i_basedrive :: int

text \<open>The globals of the disk driver stack, together with the hardware they drive.\<close>

record 'h machine =
  hw :: 'h
  the_disk :: disk
  the_controller :: controller
  drives :: "harddisk_info list"

definition memset_pci_device :: pci_device where
  "memset_pci_device = \<lparr>p_class = 0, p_vendor = 0, p_dev_id = 0, p_membase = 0, p_ioaddr = 0,
     p_romaddr = 0, p_irq = 0, p_devfn = 0, p_bus = 0, p_use_specified = 0, p_driver = None\<rparr>"

definition memset_dev :: dev where
  "memset_dev = \<lparr>v_disable = disable_null, v_vendor_id = 0, v_device_id = 0, v_bus_type = 0,
     v_index = 0, v_type = 0, v_how_probe = 0, v_to_probe = 0, v_failsafe = 0, v_type_index = 0,
     v_pci = memset_pci_device, v_advance = 0\<rparr>"

definition memset_info :: harddisk_info where
  "memset_info = \<lparr>i_ctrl = False, i_heads = 0, i_cylinders = 0, i_sectors_per_track = 0,
     i_model_number = replicate 41 0, i_slave = 0, i_sectors = 0, i_address_mode = 0,
     i_drive_exists = 0, i_slave_absent = 0, i_basedrive = 0\<rparr>"

text \<open>Reading words that the device queues up as bytes.\<close>

lemma length_in_string_16: "length (fst (in_string_16 io port n h)) = 2 * n"
  by (induction n arbitrary: h) (simp_all add: Let_def case_prod_beta)

end
