(* ===== verification/Ide.thy ===== *)
theory Ide
  imports Io
begin

text \<open>
  The IDE driver of \<^verbatim>\<open>src/main/eb/ide_disk.c\<close>: programmed input of one sector, in the three
  addressing modes, and the probing of a drive.
\<close>

section \<open>Registers and commands\<close>

definition IDE_SECTOR_SIZE :: nat where "IDE_SECTOR_SIZE = 512"

abbreviation IDE_REG_DATA :: "controller \<Rightarrow> u16" where "IDE_REG_DATA c \<equiv> cmd_base c"
abbreviation IDE_REG_FEATURE :: "controller \<Rightarrow> u16" where "IDE_REG_FEATURE c \<equiv> cmd_base c + 1"
abbreviation IDE_REG_SECTOR_COUNT :: "controller \<Rightarrow> u16" where "IDE_REG_SECTOR_COUNT c \<equiv> cmd_base c + 2"
abbreviation IDE_REG_LBA_LOW :: "controller \<Rightarrow> u16" where "IDE_REG_LBA_LOW c \<equiv> cmd_base c + 3"
abbreviation IDE_REG_LBA_MID :: "controller \<Rightarrow> u16" where "IDE_REG_LBA_MID c \<equiv> cmd_base c + 4"
abbreviation IDE_REG_LBA_HIGH :: "controller \<Rightarrow> u16" where "IDE_REG_LBA_HIGH c \<equiv> cmd_base c + 5"
abbreviation IDE_REG_DEVICE :: "controller \<Rightarrow> u16" where "IDE_REG_DEVICE c \<equiv> cmd_base c + 6"
abbreviation IDE_REG_STATUS :: "controller \<Rightarrow> u16" where "IDE_REG_STATUS c \<equiv> cmd_base c + 7"
abbreviation IDE_REG_COMMAND :: "controller \<Rightarrow> u16" where "IDE_REG_COMMAND c \<equiv> cmd_base c + 7"
abbreviation IDE_REG_DEVICE_CONTROL :: "controller \<Rightarrow> u16" where "IDE_REG_DEVICE_CONTROL c \<equiv> ctrl_base c + 2"

record ide_pio_command =
  feature :: byte
  sector_count :: byte
  lba_low :: byte
  lba_mid :: byte
  lba_high :: byte
  device :: byte
  command :: byte
  sector_count2 :: byte
  lba_low2 :: byte
  lba_mid2 :: byte
  lba_high2 :: byte

definition memset_cmd :: ide_pio_command where
  "memset_cmd = \<lparr>feature = 0, sector_count = 0, lba_low = 0, lba_mid = 0, lba_high = 0, device = 0,
     command = 0, sector_count2 = 0, lba_low2 = 0, lba_mid2 = 0, lba_high2 = 0\<rparr>"

definition IDE_TIMEOUT :: u32 where "IDE_TIMEOUT = 32 * 1000"

section \<open>Waiting\<close>

partial_function (option) await_ide ::
  "'h io \<Rightarrow> ('h \<Rightarrow> bool \<times> 'h) \<Rightarrow> u32 \<Rightarrow> 'h \<Rightarrow> (int \<times> 'h) option" where
  "await_ide io finished timeout h =
     (let (result, h) = finished h in
      if result then Some (0, h)
      else
        let h = poll_interruptions io h in
        if timeout = 0 then Some (- 1, h)
        else
          let (now, h) = currticks io h in
          if now > timeout then Some (- 1, h) else await_ide io finished timeout h)"

definition not_bsy :: "'h io \<Rightarrow> controller \<Rightarrow> 'h \<Rightarrow> bool \<times> 'h" where
  "not_bsy io ctrl h =
     (let (status, h) = inb io (IDE_REG_STATUS ctrl) h in (status AND 0x80 = 0, h))"

text \<open>The call \<open>await_ide(not_bsy, ctrl, currticks() + IDE_TIMEOUT)\<close>.\<close>

definition await_not_bsy :: "'h io \<Rightarrow> controller \<Rightarrow> 'h \<Rightarrow> (int \<times> 'h) option" where
  "await_not_bsy io ctrl h =
     (let (now, h) = currticks io h in await_ide io (not_bsy io ctrl) (now + IDE_TIMEOUT) h)"

definition ide_software_reset :: "'h io \<Rightarrow> controller \<Rightarrow> 'h \<Rightarrow> (int \<times> 'h) option" where
  "ide_software_reset io ctrl h =
     do {
       let h = mdelay io 2 h;
       (r, h) \<leftarrow> await_not_bsy io ctrl h;
       if r < 0 then Some (- 1, h)
       else do {
         let h = outb io (0x08 OR 0x04 OR 0x02) (IDE_REG_DEVICE_CONTROL ctrl) h;
         let h = udelay io 5 h;
         let h = outb io (0x08 OR 0x02) (IDE_REG_DEVICE_CONTROL ctrl) h;
         let h = mdelay io 2 h;
         (r, h) \<leftarrow> await_not_bsy io ctrl h;
         if r < 0 then Some (- 1, h) else Some (0, h)
       }
     }"

section \<open>Programmed input\<close>

definition pio_set_registers :: "'h io \<Rightarrow> controller \<Rightarrow> ide_pio_command \<Rightarrow> 'h \<Rightarrow> 'h" where
  "pio_set_registers io ctrl cmd h =
     (let h = outb io (0x08 OR 0x02) (IDE_REG_DEVICE_CONTROL ctrl) h;
          (dev, h) = inb io (IDE_REG_DEVICE ctrl) h;
          h = outb io (device cmd) (IDE_REG_DEVICE ctrl) h;
          h = (if dev AND 0x10 \<noteq> device cmd AND 0x10 then mdelay io 50 h else h);
          h = outb io (feature cmd) (IDE_REG_FEATURE ctrl) h;
          h = outb io (sector_count2 cmd) (IDE_REG_SECTOR_COUNT ctrl) h;
          h = outb io (sector_count cmd) (IDE_REG_SECTOR_COUNT ctrl) h;
          h = outb io (lba_low2 cmd) (IDE_REG_LBA_LOW ctrl) h;
          h = outb io (lba_low cmd) (IDE_REG_LBA_LOW ctrl) h;
          h = outb io (lba_mid2 cmd) (IDE_REG_LBA_MID ctrl) h;
          h = outb io (lba_mid cmd) (IDE_REG_LBA_MID ctrl) h;
          h = outb io (lba_high2 cmd) (IDE_REG_LBA_HIGH ctrl) h;
          h = outb io (lba_high cmd) (IDE_REG_LBA_HIGH ctrl) h
      in outb io (command cmd) (IDE_REG_COMMAND ctrl) h)"

definition pio_non_data :: "'h io \<Rightarrow> controller \<Rightarrow> ide_pio_command \<Rightarrow> 'h \<Rightarrow> (int \<times> 'h) option" where
  "pio_non_data io ctrl cmd h =
     do {
       (r, h) \<leftarrow> await_not_bsy io ctrl h;
       if r < 0 then Some (- 1, h)
       else do {
         (r, h) \<leftarrow> await_not_bsy io ctrl (pio_set_registers io ctrl cmd h);
         if r < 0 then Some (- 1, h) else Some (0, h)
       }
     }"

text \<open>The buffer comes back with its first \<open>bytes\<close> bytes replaced when the transfer happens.\<close>

definition pio_data_in ::
  "'h io \<Rightarrow> controller \<Rightarrow> ide_pio_command \<Rightarrow> byte list \<Rightarrow> nat \<Rightarrow> 'h \<Rightarrow> (int \<times> byte list \<times> 'h) option" where
  "pio_data_in io ctrl cmd buffer bytes h =
     do {
       (r, h) \<leftarrow> await_not_bsy io ctrl h;
       if r < 0 then Some (- 1, buffer, h)
       else do {
         (r, h) \<leftarrow> await_not_bsy io ctrl (pio_set_registers io ctrl cmd h);
         if r < 0 then Some (- 1, buffer, h)
         else
           let (status, h) = inb io (IDE_REG_STATUS ctrl) h in
           if status AND 0x08 = 0 then Some (- 1, buffer, h)
           else do {
             let (bs, h) = in_string_16 io (IDE_REG_DATA ctrl) (bytes div 2) h;
             buffer \<leftarrow> wr buffer 0 bs;
             let (status, h) = inb io (IDE_REG_STATUS ctrl) h;
             if status AND 0x08 \<noteq> 0 then Some (- 1, buffer, h) else Some (0, buffer, h)
           }
       }
     }"

section \<open>Reading a sector\<close>

definition ide_read_sector_chs ::
  "'h io \<Rightarrow> controller \<Rightarrow> harddisk_info \<Rightarrow> byte list \<Rightarrow> u32 \<Rightarrow> 'h \<Rightarrow> (int \<times> byte list \<times> 'h) option" where
  "ide_read_sector_chs io ctrl info buffer sector h =
     do {
       require (i_sectors_per_track info \<noteq> 0);
       let track = sector div ucast (i_sectors_per_track info);
       let offset = 1 + sector mod ucast (i_sectors_per_track info);
       require (i_heads info \<noteq> 0);
       let cylinder = track div ucast (i_heads info);
       let cmd = memset_cmd\<lparr>sector_count := 1,
         lba_low := ucast offset,
         lba_mid := ucast (cylinder AND 0xff),
         lba_high := ucast (drop_bit 8 cylinder AND 0xff),
         device := 0xA0 OR ucast ((track mod ucast (i_heads info)) AND 0x0F) OR i_slave info OR 0x00,
         command := 0x20\<rparr>;
       pio_data_in io ctrl cmd buffer IDE_SECTOR_SIZE h
     }"

definition ide_read_sector_lba ::
  "'h io \<Rightarrow> controller \<Rightarrow> harddisk_info \<Rightarrow> byte list \<Rightarrow> u32 \<Rightarrow> 'h \<Rightarrow> (int \<times> byte list \<times> 'h) option" where
  "ide_read_sector_lba io ctrl info buffer sector h =
     (let cmd = memset_cmd\<lparr>sector_count := 1,
         lba_low := ucast (sector AND 0xff),
         lba_mid := ucast (drop_bit 8 sector AND 0xff),
         lba_high := ucast (drop_bit 16 sector AND 0xff),
         device := 0xA0 OR ucast (drop_bit 24 sector AND 0x0f) OR i_slave info OR 0x40,
         command := 0x20\<rparr>
      in pio_data_in io ctrl cmd buffer IDE_SECTOR_SIZE h)"

definition ide_read_sector_lba48 ::
  "'h io \<Rightarrow> controller \<Rightarrow> harddisk_info \<Rightarrow> byte list \<Rightarrow> u64 \<Rightarrow> 'h \<Rightarrow> (int \<times> byte list \<times> 'h) option" where
  "ide_read_sector_lba48 io ctrl info buffer sector h =
     (let cmd = memset_cmd\<lparr>sector_count := 1,
         lba_low := ucast (sector AND 0xff),
         lba_mid := ucast (drop_bit 8 sector AND 0xff),
         lba_high := ucast (drop_bit 16 sector AND 0xff),
         lba_low2 := ucast (drop_bit 24 sector AND 0xff),
         lba_mid2 := ucast (drop_bit 32 sector AND 0xff),
         lba_high2 := ucast (drop_bit 40 sector AND 0xff),
         device := i_slave info OR 0x40,
         command := 0x24\<rparr>
      in pio_data_in io ctrl cmd buffer IDE_SECTOR_SIZE h)"

definition ADDRESS_MODE_CHS :: int where "ADDRESS_MODE_CHS = 0"
definition ADDRESS_MODE_LBA :: int where "ADDRESS_MODE_LBA = 1"
definition ADDRESS_MODE_LBA48 :: int where "ADDRESS_MODE_LBA48 = 2"

definition ide_read :: "'h io \<Rightarrow> 'h machine \<Rightarrow> u64 \<Rightarrow> (int \<times> 'h machine) option" where
  "ide_read io s sector =
     do {
       let d = (the_disk s)\<lparr>d_sector := 0, d_bytes := 0\<rparr>;
       i \<leftarrow> d_priv d;
       info \<leftarrow> rd1 (drives s) i;
       if sector > i_sectors info then Some (- 1, s\<lparr>the_disk := d\<rparr>)
       else do {
         (result, buffer, h) \<leftarrow>
           (if i_address_mode info = ADDRESS_MODE_CHS then do {
              require (i_ctrl info);
              ide_read_sector_chs io (the_controller s) info (d_buffer d) (ucast sector) (hw s)
            }
            else if i_address_mode info = ADDRESS_MODE_LBA then do {
              require (i_ctrl info);
              ide_read_sector_lba io (the_controller s) info (d_buffer d) (ucast sector) (hw s)
            }
            else if i_address_mode info = ADDRESS_MODE_LBA48 then do {
              require (i_ctrl info);
              ide_read_sector_lba48 io (the_controller s) info (d_buffer d) sector (hw s)
            }
            else Some (- 1, d_buffer d, hw s));
         let d = d\<lparr>d_buffer := buffer\<rparr>;
         let d = (if result \<noteq> - 1 then d\<lparr>d_bytes := of_nat IDE_SECTOR_SIZE, d_sector := sector\<rparr> else d);
         Some (result, s\<lparr>the_disk := d, hw := h\<rparr>)
       }
     }"

section \<open>The device contract\<close>

text \<open>
  What the driver relies on of an ATA device, as the ATA/ATAPI documents describe it.  A view maps
  the hardware state to the task file of the channel: the device register, the two-deep registers
  (the byte written last and the one before it), the number of clock
  readings for which it stays busy, the time by which busy clears, the clock, and the data that waits to be read.  The media is
  given by drive (the slave bit of the device register) and logical sector number; the geometry by
  heads and sectors per track.
\<close>

record ata =
  a_device :: byte
  a_count :: "byte \<times> byte"
  a_low :: "byte \<times> byte"
  a_mid :: "byte \<times> byte"
  a_high :: "byte \<times> byte"
  a_wait :: nat
  a_limit :: nat
  a_clock :: nat
  a_data :: "byte list"

type_synonym media = "byte \<Rightarrow> nat \<Rightarrow> byte list"

definition chs_lba :: "nat \<times> nat \<Rightarrow> ata \<Rightarrow> nat" where
  "chs_lba geo v =
     ((unat (fst (a_high v)) * 256 + unat (fst (a_mid v))) * fst geo + unat (a_device v AND 0x0F)) * snd geo
     + unat (fst (a_low v)) - 1"

definition lba28 :: "ata \<Rightarrow> nat" where
  "lba28 v = unat (fst (a_low v)) + 256 * (unat (fst (a_mid v)) + 256 * (unat (fst (a_high v))
     + 256 * unat (a_device v AND 0x0F)))"

definition lba48 :: "ata \<Rightarrow> nat" where
  "lba48 v = unat (fst (a_low v)) + 256 * (unat (fst (a_mid v)) + 256 * (unat (fst (a_high v))
     + 256 * (unat (snd (a_low v)) + 256 * (unat (snd (a_mid v)) + 256 * unat (snd (a_high v))))))"

definition read_target :: "nat \<times> nat \<Rightarrow> byte \<Rightarrow> ata \<Rightarrow> nat option" where
  "read_target geo c v =
     (if c = 0x24 \<and> a_count v = (1, 0) \<and> a_device v AND 0x40 \<noteq> 0 then Some (lba48 v)
      else if c = 0x20 \<and> fst (a_count v) = 1
      then Some (if a_device v AND 0x40 \<noteq> 0 then lba28 v else chs_lba geo v)
      else None)"

abbreviation a_idle :: "ata \<Rightarrow> bool" where
  "a_idle v \<equiv> a_wait v = 0 \<and> a_data v = []"

definition ata_status :: "'h io \<Rightarrow> ('h \<Rightarrow> ata) \<Rightarrow> controller \<Rightarrow> bool" where
  "ata_status io view c \<longleftrightarrow> (\<forall>h.
     (fst (inb io (IDE_REG_STATUS c) h) AND 0x80 = 0 \<longleftrightarrow> a_wait (view h) = 0) \<and>
     (a_wait (view h) = 0 \<longrightarrow>
        (fst (inb io (IDE_REG_STATUS c) h) AND 0x08 = 0 \<longleftrightarrow> a_data (view h) = [])) \<and>
     view (snd (inb io (IDE_REG_STATUS c) h)) = view h)"

text \<open>
  Time passes between two readings of the clock; a busy device gets closer to the end of its
  command, and is never busy after the limit.  The counter does not wrap around.
\<close>

definition ata_time :: "'h io \<Rightarrow> ('h \<Rightarrow> ata) \<Rightarrow> bool" where
  "ata_time io view \<longleftrightarrow>
     (\<forall>h. view (poll_interruptions io h) = view h) \<and>
     (\<forall>h n. \<exists>t\<ge>a_clock (view h). view (mdelay io n h) = (view h)\<lparr>a_clock := t\<rparr>) \<and>
     (\<forall>h. a_clock (view h) \<le> unat (fst (currticks io h)) \<and> unat (fst (currticks io h)) + 32000 < 2 ^ 32 \<and>
        view (snd (currticks io h)) =
          (view h)\<lparr>a_clock := unat (fst (currticks io h)), a_wait := a_wait (view h) - 1\<rparr> \<and>
        (a_wait (view h) \<noteq> 0 \<longrightarrow> unat (fst (currticks io h)) \<le> a_limit (view h)))"

definition ata_registers :: "'h io \<Rightarrow> ('h \<Rightarrow> ata) \<Rightarrow> controller \<Rightarrow> bool" where
  "ata_registers io view c \<longleftrightarrow> (\<forall>h x. a_idle (view h) \<longrightarrow>
     view (outb io 0x0A (IDE_REG_DEVICE_CONTROL c) h) = view h \<and>
     view (snd (inb io (IDE_REG_DEVICE c) h)) = view h \<and>
     view (outb io x (IDE_REG_DEVICE c) h) = (view h)\<lparr>a_device := x\<rparr> \<and>
     view (outb io x (IDE_REG_FEATURE c) h) = view h \<and>
     view (outb io x (IDE_REG_SECTOR_COUNT c) h) = (view h)\<lparr>a_count := (x, fst (a_count (view h)))\<rparr> \<and>
     view (outb io x (IDE_REG_LBA_LOW c) h) = (view h)\<lparr>a_low := (x, fst (a_low (view h)))\<rparr> \<and>
     view (outb io x (IDE_REG_LBA_MID c) h) = (view h)\<lparr>a_mid := (x, fst (a_mid (view h)))\<rparr> \<and>
     view (outb io x (IDE_REG_LBA_HIGH c) h) = (view h)\<lparr>a_high := (x, fst (a_high (view h)))\<rparr>)"

text \<open>
  A read command: busy for a while, at most 32 seconds, then the sector waits in the data port.
  For a sector the medium does not have (its content is empty) no data is offered.
\<close>

definition ata_read :: "'h io \<Rightarrow> ('h \<Rightarrow> ata) \<Rightarrow> controller \<Rightarrow> nat \<times> nat \<Rightarrow> media \<Rightarrow> bool" where
  "ata_read io view c geo media \<longleftrightarrow> (\<forall>h cmd lba.
     a_idle (view h) \<longrightarrow> read_target geo cmd (view h) = Some lba \<longrightarrow>
     (\<exists>n limit. limit \<le> a_clock (view h) + 32000 \<and>
        view (outb io cmd (IDE_REG_COMMAND c) h) =
          (view h)\<lparr>a_wait := n, a_limit := limit, a_data := media (a_device (view h) AND 0x10) lba\<rparr>))"

definition ata_data :: "'h io \<Rightarrow> ('h \<Rightarrow> ata) \<Rightarrow> controller \<Rightarrow> bool" where
  "ata_data io view c \<longleftrightarrow> (\<forall>h x y r. a_wait (view h) = 0 \<longrightarrow> a_data (view h) = x # y # r \<longrightarrow>
     fst (inw io (IDE_REG_DATA c) h) = le_word [x, y] \<and>
     view (snd (inw io (IDE_REG_DATA c) h)) = (view h)\<lparr>a_data := r\<rparr>)"

definition ata_conforms :: "'h io \<Rightarrow> ('h \<Rightarrow> ata) \<Rightarrow> controller \<Rightarrow> nat \<times> nat \<Rightarrow> media \<Rightarrow> bool" where
  "ata_conforms io view c geo media \<longleftrightarrow>
     ata_status io view c \<and> ata_time io view \<and> ata_registers io view c
     \<and> ata_read io view c geo media \<and> ata_data io view c"

section \<open>Waiting and transferring on a conforming device\<close>

lemma await_ide_ready:
  assumes "ata_status io view c" "ata_time io view" "timeout \<noteq> 0"
    and "a_wait (view h) = 0 \<or> a_limit (view h) \<le> unat timeout"
  shows "\<exists>h' t. await_ide io (not_bsy io c) timeout h = Some (0, h') \<and> a_clock (view h) \<le> t
    \<and> view h' = (view h)\<lparr>a_wait := 0, a_clock := t\<rparr>"
  using assms(4)
proof (induction "a_wait (view h)" arbitrary: h)
  case 0
  then have "fst (not_bsy io c h)" "view (snd (not_bsy io c h)) = view h"
    using assms(1) by (simp_all add: ata_status_def not_bsy_def case_prod_beta)
  with 0 show ?case
    by (subst await_ide.simps) (auto simp: case_prod_beta intro: exI [of _ "a_clock (view h)"])
next
  case (Suc n)
  let ?h1 = "poll_interruptions io (snd (not_bsy io c h))"
  let ?t = "fst (currticks io ?h1)" and ?h2 = "snd (currticks io ?h1)"
  have "\<not> fst (not_bsy io c h)" and v: "view ?h1 = view h"
    using assms(1,2) Suc(2) by (simp_all add: ata_status_def ata_time_def not_bsy_def case_prod_beta)
  moreover have t: "a_clock (view h) \<le> unat ?t" "unat ?t \<le> a_limit (view h)"
    "view ?h2 = (view h)\<lparr>a_clock := unat ?t, a_wait := n\<rparr>"
    using assms(2) v Suc(2) unfolding ata_time_def by (metis diff_Suc_1 nat.distinct(1))+
  then have "\<not> timeout < ?t" using Suc(2,3) by (simp add: word_less_nat_alt)
  ultimately have "await_ide io (not_bsy io c) timeout h = await_ide io (not_bsy io c) timeout ?h2"
    using assms(3) by (subst await_ide.simps) (simp add: case_prod_beta Let_def)
  moreover obtain h' u where "await_ide io (not_bsy io c) timeout ?h2 = Some (0, h')" "a_clock (view ?h2) \<le> u"
      "view h' = (view ?h2)\<lparr>a_wait := 0, a_clock := u\<rparr>"
    using Suc(1) [of ?h2] t Suc(2,3) by auto
  ultimately show ?case using t by (intro exI [of _ h'] exI [of _ u]) simp
qed

lemma await_ide_ends:
  assumes "ata_status io view c" "ata_time io view"
  shows "\<exists>r h'. await_ide io (not_bsy io c) timeout h = Some (r, h')"
proof (induction "a_wait (view h)" arbitrary: h)
  case 0
  then have "fst (not_bsy io c h)"
    using assms(1) by (simp add: ata_status_def not_bsy_def case_prod_beta)
  then show ?case by (subst await_ide.simps) (simp add: case_prod_beta)
next
  case (Suc n)
  let ?h1 = "poll_interruptions io (snd (not_bsy io c h))"
  have "view ?h1 = view h"
    using assms by (simp add: ata_status_def ata_time_def not_bsy_def case_prod_beta)
  moreover have "view (snd (currticks io ?h1)) =
      (view ?h1)\<lparr>a_clock := unat (fst (currticks io ?h1)), a_wait := a_wait (view ?h1) - 1\<rparr>"
    using assms(2) by (simp add: ata_time_def)
  ultimately have "n = a_wait (view (snd (currticks io ?h1)))" using Suc(2) by simp
  from Suc(1) [OF this] show ?case by (subst await_ide.simps) (simp add: case_prod_beta Let_def)
qed

lemma ide_software_reset_ends:
  assumes "ata_status io view c" "ata_time io view"
  shows "\<exists>r h'. ide_software_reset io c h = Some (r, h')"
proof -
  have w: "\<exists>x. await_not_bsy io c h = Some x" for h
    using await_ide_ends [OF assms] by (auto simp: await_not_bsy_def case_prod_beta)
  obtain r h1 where 1: "await_not_bsy io c (mdelay io 2 h) = Some (r, h1)" using w by fastforce
  obtain r' h2 where "await_not_bsy io c (mdelay io 2 (outb io (0x08 OR 0x02) (IDE_REG_DEVICE_CONTROL c)
      (udelay io 5 (outb io (0x08 OR 0x04 OR 0x02) (IDE_REG_DEVICE_CONTROL c) h1)))) = Some (r', h2)" using w by fastforce
  then show ?thesis using 1 by (simp add: ide_software_reset_def Let_def)
qed

lemma await_not_bsy_ready:
  assumes "ata_status io view c" "ata_time io view"
    and "a_wait (view h) = 0 \<or> a_limit (view h) \<le> a_clock (view h) + 32000"
  shows "\<exists>h' t. await_not_bsy io c h = Some (0, h') \<and> a_clock (view h) \<le> t
    \<and> view h' = (view h)\<lparr>a_wait := 0, a_clock := t\<rparr>"
proof -
  let ?t = "fst (currticks io h)" and ?h = "snd (currticks io h)"
  have t: "a_clock (view h) \<le> unat ?t" "unat ?t + 32000 < 2 ^ 32"
    "view ?h = (view h)\<lparr>a_clock := unat ?t, a_wait := a_wait (view h) - 1\<rparr>"
    using assms(2) by (simp_all add: ata_time_def)
  have u: "unat (?t + IDE_TIMEOUT) = unat ?t + 32000"
    using t(2) by (simp add: IDE_TIMEOUT_def unat_word_ariths)
  then have "?t + IDE_TIMEOUT \<noteq> 0" by (metis add_is_0 unat_0 zero_neq_numeral)
  moreover have "a_wait (view ?h) = 0 \<or> a_limit (view ?h) \<le> unat (?t + IDE_TIMEOUT)"
    using t u assms(3) by auto
  ultimately obtain h' v where "await_ide io (not_bsy io c) (?t + IDE_TIMEOUT) ?h = Some (0, h')"
      "a_clock (view ?h) \<le> v" "view h' = (view ?h)\<lparr>a_wait := 0, a_clock := v\<rparr>"
    using await_ide_ready [OF assms(1,2)] by blast
  with t show ?thesis
    by (intro exI [of _ h'] exI [of _ v]) (simp add: await_not_bsy_def case_prod_beta)
qed

lemma in_string_16_data:
  assumes "ata_data io view c"
  shows "a_wait (view h) = 0 \<Longrightarrow> a_data (view h) = bs @ r \<Longrightarrow> length bs = 2 * n \<Longrightarrow>
    fst (in_string_16 io (IDE_REG_DATA c) n h) = bs
    \<and> view (snd (in_string_16 io (IDE_REG_DATA c) n h)) = (view h)\<lparr>a_data := r\<rparr>"
proof (induction n arbitrary: h bs)
  case 0
  then show ?case by simp
next
  case (Suc n)
  then obtain x y bs' where bs: "bs = x # y # bs'" by (cases bs; cases "tl bs") auto
  let ?i = "inw io (IDE_REG_DATA c) h"
  have i: "fst ?i = le_word [x, y]" "view (snd ?i) = (view h)\<lparr>a_data := bs' @ r\<rparr>"
    using assms Suc.prems(1,2) bs by (simp_all add: ata_data_def)
  have "le_bytes 2 (le_word [x, y] :: u16) = [x, y]" by (rule le_bytes_le_word) simp_all
  moreover from Suc.IH [of "snd ?i" bs'] Suc.prems i bs show ?case
    using calculation by (simp add: case_prod_beta Let_def del: le_bytes_numeral)
qed

text \<open>What the registers hold when the command is written.\<close>

definition loaded :: "ata \<Rightarrow> ide_pio_command \<Rightarrow> ata \<Rightarrow> bool" where
  "loaded v cmd w \<longleftrightarrow> a_device w = device cmd \<and> a_count w = (sector_count cmd, sector_count2 cmd)
     \<and> a_low w = (lba_low cmd, lba_low2 cmd) \<and> a_mid w = (lba_mid cmd, lba_mid2 cmd)
     \<and> a_high w = (lba_high cmd, lba_high2 cmd) \<and> a_idle w \<and> a_clock v \<le> a_clock w"

lemma pio_set_registers_loaded:
  assumes "ata_registers io view c" "ata_time io view" "a_idle (view h)"
  shows "\<exists>h'. pio_set_registers io c cmd h = outb io (command cmd) (IDE_REG_COMMAND c) h'
    \<and> loaded (view h) cmd (view h')"
proof -
  have regs: "\<And>h. a_idle (view h) \<Longrightarrow> view (outb io 0x0A (IDE_REG_DEVICE_CONTROL c) h) = view h"
    "\<And>h. a_idle (view h) \<Longrightarrow> view (snd (inb io (IDE_REG_DEVICE c) h)) = view h"
    "\<And>h x. a_idle (view h) \<Longrightarrow> view (outb io x (IDE_REG_DEVICE c) h) = (view h)\<lparr>a_device := x\<rparr>"
    "\<And>h x. a_idle (view h) \<Longrightarrow> view (outb io x (IDE_REG_FEATURE c) h) = view h"
    "\<And>h x. a_idle (view h) \<Longrightarrow>
      view (outb io x (IDE_REG_SECTOR_COUNT c) h) = (view h)\<lparr>a_count := (x, fst (a_count (view h)))\<rparr>"
    "\<And>h x. a_idle (view h) \<Longrightarrow>
      view (outb io x (IDE_REG_LBA_LOW c) h) = (view h)\<lparr>a_low := (x, fst (a_low (view h)))\<rparr>"
    "\<And>h x. a_idle (view h) \<Longrightarrow>
      view (outb io x (IDE_REG_LBA_MID c) h) = (view h)\<lparr>a_mid := (x, fst (a_mid (view h)))\<rparr>"
    "\<And>h x. a_idle (view h) \<Longrightarrow>
      view (outb io x (IDE_REG_LBA_HIGH c) h) = (view h)\<lparr>a_high := (x, fst (a_high (view h)))\<rparr>"
    using assms(1) by (simp_all add: ata_registers_def)
  let ?h1 = "outb io 0x0A (IDE_REG_DEVICE_CONTROL c) h"
  let ?dev = "fst (inb io (IDE_REG_DEVICE c) ?h1)" and ?h2 = "snd (inb io (IDE_REG_DEVICE c) ?h1)"
  let ?h3 = "outb io (device cmd) (IDE_REG_DEVICE c) ?h2"
  define h4 where "h4 = (if ?dev AND 0x10 \<noteq> device cmd AND 0x10 then mdelay io 50 ?h3 else ?h3)"
  have v3: "view ?h3 = (view h)\<lparr>a_device := device cmd\<rparr>" using assms(3) by (simp add: regs)
  obtain t where t: "a_clock (view ?h3) \<le> t" "view (mdelay io 50 ?h3) = (view ?h3)\<lparr>a_clock := t\<rparr>"
    using assms(2) unfolding ata_time_def by blast
  obtain u where u: "view h4 = (view h)\<lparr>a_device := device cmd, a_clock := u\<rparr>" "a_clock (view h) \<le> u"
  proof (cases "?dev AND 0x10 \<noteq> device cmd AND 0x10")
    case True
    with t v3 that [of t] show ?thesis by (simp add: h4_def)
  next
    case False
    with v3 that [of "a_clock (view h)"] show ?thesis by (simp add: h4_def)
  qed
  have v4: "a_idle (view h4)" "a_device (view h4) = device cmd" "a_clock (view h) \<le> a_clock (view h4)"
    using assms(3) u by simp_all
  let ?h5 = "outb io (feature cmd) (IDE_REG_FEATURE c) h4"
  let ?h6 = "outb io (sector_count cmd) (IDE_REG_SECTOR_COUNT c)
    (outb io (sector_count2 cmd) (IDE_REG_SECTOR_COUNT c) ?h5)"
  let ?h7 = "outb io (lba_low cmd) (IDE_REG_LBA_LOW c) (outb io (lba_low2 cmd) (IDE_REG_LBA_LOW c) ?h6)"
  let ?h8 = "outb io (lba_mid cmd) (IDE_REG_LBA_MID c) (outb io (lba_mid2 cmd) (IDE_REG_LBA_MID c) ?h7)"
  let ?h9 = "outb io (lba_high cmd) (IDE_REG_LBA_HIGH c) (outb io (lba_high2 cmd) (IDE_REG_LBA_HIGH c) ?h8)"
  have set: "pio_set_registers io c cmd h = outb io (command cmd) (IDE_REG_COMMAND c) ?h9"
    by (simp add: pio_set_registers_def case_prod_beta Let_def h4_def)
  have v5: "view ?h5 = view h4" using v4 by (simp add: regs(4))
  have v6: "view ?h6 = (view h4)\<lparr>a_count := (sector_count cmd, sector_count2 cmd)\<rparr>"
    using v4 v5 by (simp add: regs(5))
  have v7: "view ?h7 = (view ?h6)\<lparr>a_low := (lba_low cmd, lba_low2 cmd)\<rparr>"
    using v4 v6 by (simp add: regs(6))
  have v8: "view ?h8 = (view ?h7)\<lparr>a_mid := (lba_mid cmd, lba_mid2 cmd)\<rparr>"
    using v4 v6 v7 by (simp add: regs(7))
  have v9: "view ?h9 = (view ?h8)\<lparr>a_high := (lba_high cmd, lba_high2 cmd)\<rparr>"
    using v4 v6 v7 v8 by (simp add: regs(8))
  have l: "loaded (view h) cmd (view ?h9)"
    unfolding v9 v8 v7 v6 loaded_def using v4 by simp
  from set l show ?thesis by blast
qed

text \<open>A read command that addresses sector \<open>lba\<close>: the driver reaches the point where it asks for data.\<close>

lemma pio_command_issued:
  assumes conf: "ata_conforms io view c geo media" and idle: "a_idle (view h)"
    and target: "\<And>w. loaded (view h) cmd w \<Longrightarrow> read_target geo k w = Some lba"
    and cmd: "command cmd = k" "device cmd AND 0x10 = sl"
  shows "\<exists>h1 h4. await_not_bsy io c h = Some (0, h1)
    \<and> await_not_bsy io c (pio_set_registers io c cmd h1) = Some (0, h4)
    \<and> a_wait (view h4) = 0 \<and> a_data (view h4) = media sl lba"
proof -
  note cs = conf [unfolded ata_conforms_def]
  from cs idle obtain h1 t1 where h1: "await_not_bsy io c h = Some (0, h1)"
      "view h1 = (view h)\<lparr>a_wait := 0, a_clock := t1\<rparr>" "a_clock (view h) \<le> t1"
    using await_not_bsy_ready [of io view c h] by blast
  from cs h1 idle obtain h2 where h2: "pio_set_registers io c cmd h1 = outb io (command cmd) (IDE_REG_COMMAND c) h2"
      "loaded (view h1) cmd (view h2)"
    using pio_set_registers_loaded [of io view c h1 cmd] by auto
  then have l: "loaded (view h) cmd (view h2)" "a_idle (view h2)" "a_device (view h2) = device cmd"
    using h1 by (auto simp: loaded_def)
  let ?h3 = "outb io (command cmd) (IDE_REG_COMMAND c) h2"
  obtain w limit where h3: "limit \<le> a_clock (view h2) + 32000"
      "view ?h3 = (view h2)\<lparr>a_wait := w, a_limit := limit, a_data := media sl lba\<rparr>"
    using cs l target [OF l(1)] cmd unfolding ata_read_def by metis
  obtain h4 t4 where "await_not_bsy io c ?h3 = Some (0, h4)"
      "view h4 = (view ?h3)\<lparr>a_wait := 0, a_clock := t4\<rparr>"
    using await_not_bsy_ready [of io view c ?h3] cs h3 by auto
  with h1 h2 h3 show ?thesis by auto
qed

text \<open>The transfer fills the buffer with the sector, or reports failure when there is none.\<close>

lemma pio_data_in_reads:
  assumes conf: "ata_conforms io view c geo media" and idle: "a_idle (view h)"
    and target: "\<And>w. loaded (view h) cmd w \<Longrightarrow> read_target geo k w = Some lba"
    and data: "media sl lba = bs" "length bs = 2 * n \<and> n \<noteq> 0 \<or> bs = []" "2 * n \<le> length buffer"
    and cmd: "command cmd = k" "device cmd AND 0x10 = sl"
  shows "\<exists>h'. pio_data_in io c cmd buffer (2 * n) h =
      Some (if bs = [] then (- 1, buffer, h') else (0, bs @ drop (2 * n) buffer, h'))
    \<and> a_idle (view h')"
proof -
  note cs = conf [unfolded ata_conforms_def]
  obtain h1 h4 where h1: "await_not_bsy io c h = Some (0, h1)"
    and h4: "await_not_bsy io c (pio_set_registers io c cmd h1) = Some (0, h4)"
      "a_wait (view h4) = 0" "a_data (view h4) = bs"
    using pio_command_issued [OF conf idle target cmd] data(1) by auto
  let ?s4 = "inb io (IDE_REG_STATUS c) h4"
  have s4: "fst ?s4 AND 0x08 = 0 \<longleftrightarrow> bs = []" "view (snd ?s4) = view h4"
    using cs h4 by (auto simp: ata_status_def)
  show ?thesis
  proof (cases "bs = []")
    case True
    then have "pio_data_in io c cmd buffer (2 * n) h = Some (- 1, buffer, snd ?s4)"
      using h1 h4 s4 by (simp add: pio_data_in_def case_prod_beta Let_def)
    with True s4 h4 show ?thesis by simp
  next
    case False
    let ?i = "in_string_16 io (IDE_REG_DATA c) n (snd ?s4)"
    have i: "fst ?i = bs" "view (snd ?i) = (view h4)\<lparr>a_data := []\<rparr>"
      using in_string_16_data [of io view c "snd ?s4" bs "[]" n] cs s4 h4 data False by auto
    let ?s5 = "inb io (IDE_REG_STATUS c) (snd ?i)"
    have s5: "fst ?s5 AND 0x08 = 0" "view (snd ?s5) = view (snd ?i)"
      using cs i h4 by (auto simp: ata_status_def)
    have "pio_data_in io c cmd buffer (2 * n) h = Some (0, bs @ drop (2 * n) buffer, snd ?s5)"
      using h1 h4 s4 i s5 data False by (simp add: pio_data_in_def case_prod_beta Let_def wr_def)
    with False s5 i h4 show ?thesis by simp
  qed
qed

section \<open>Addressing\<close>

lemma base256: "n = n mod 256 + 256 * (n div 256)" for n :: nat by simp

lemma lba48_digits:
  assumes "n < 2 ^ 48"
  shows "n mod 256 + 256 * (n div 256 mod 256 + 256 * (n div 65536 mod 256 + 256 * (n div 16777216 mod 256
     + 256 * (n div 4294967296 mod 256 + 256 * (n div 1099511627776 mod 256))))) = (n::nat)"
proof -
  have "n div 1099511627776 < 256" using assms by (simp add: less_mult_imp_div_less)
  then show ?thesis
    using base256 [of n] base256 [of "n div 256"] base256 [of "n div 65536"] base256 [of "n div 16777216"]
     base256 [of "n div 4294967296"]
    by (simp add: div_mult2_eq [symmetric])
qed

lemma lba28_digits:
  assumes "n < 2 ^ 28"
  shows "n mod 256 + 256 * (n div 256 mod 256 + 256 * (n div 65536 mod 256 + 256 * (n div 16777216 mod 16))) = (n::nat)"
proof -
  have "n div 16777216 < 16" using assms by (simp add: less_mult_imp_div_less)
  then show ?thesis
    using base256 [of n] base256 [of "n div 256"] base256 [of "n div 65536"]
    by (simp add: div_mult2_eq [symmetric])
qed
lemma slave_bits:
  assumes "sl = 0 \<or> sl = (0x10 :: byte)"
  shows "(sl OR 0x40) AND 0x40 \<noteq> 0" "(sl OR 0x40) AND 0x10 = sl"
    "(0xA0 OR ucast (x AND 0x0F) OR sl OR 0x40) AND 0x40 \<noteq> 0"
    "(0xA0 OR ucast (x AND 0x0F) OR sl OR 0x40) AND 0x10 = sl"
    "(0xA0 OR ucast (x AND 0x0F) OR sl OR 0x40) AND 0x0F = ucast ((x :: u32) AND 0x0F)"
    "(0xA0 OR ucast (x AND 0x0F) OR sl OR 0x00) AND 0x40 = 0"
    "(0xA0 OR ucast (x AND 0x0F) OR sl OR 0x00) AND 0x10 = sl"
    "(0xA0 OR ucast (x AND 0x0F) OR sl OR 0x00) AND 0x0F = ucast (x AND 0x0F)"
  using assms by (auto simp: bit.conj_disj_distrib2 unsigned_and_eq and.assoc)

lemma target_lba48:
  assumes "unat sector < 2 ^ 48" "sl = 0 \<or> sl = 0x10"
    and "loaded v (memset_cmd\<lparr>sector_count := 1, lba_low := ucast (sector AND 0xff),
         lba_mid := ucast (drop_bit 8 sector AND 0xff), lba_high := ucast (drop_bit 16 sector AND 0xff),
         lba_low2 := ucast (drop_bit 24 sector AND 0xff), lba_mid2 := ucast (drop_bit 32 sector AND 0xff),
         lba_high2 := ucast (drop_bit 40 sector AND 0xff), device := sl OR 0x40, command := 0x24\<rparr>) w"
  shows "read_target geo 0x24 w = Some (unat (sector :: u64))"
  using assms(3) lba48_digits [OF assms(1)] slave_bits(1) [OF assms(2)]
  by (simp add: loaded_def read_target_def lba48_def memset_cmd_def unat_field)

lemma target_lba28:
  assumes "unat sector < 2 ^ 28" "sl = 0 \<or> sl = 0x10"
    and "loaded v (memset_cmd\<lparr>sector_count := 1, lba_low := ucast (sector AND 0xff),
         lba_mid := ucast (drop_bit 8 sector AND 0xff), lba_high := ucast (drop_bit 16 sector AND 0xff),
         device := 0xA0 OR ucast (drop_bit 24 sector AND 0x0f) OR sl OR 0x40, command := 0x20\<rparr>) w"
  shows "read_target geo 0x20 w = Some (unat (sector :: u32))"
  using assms(3) lba28_digits [OF assms(1)] less_mult_imp_div_less [of "unat sector" 16 16777216] assms(1) slave_bits(3,5) [OF assms(2)]
  by (simp add: loaded_def read_target_def lba28_def memset_cmd_def unat_field)

lemma chs_digits:
  assumes "0 < heads" "0 < spt" "n < 65536 * heads * spt" "heads \<le> 16" "spt \<le> (255::nat)"
  shows "((n div spt div heads div 256 mod 256 * 256 + n div spt div heads mod 256) * heads
     + n div spt mod heads mod 16) * spt + (1 + n mod spt) mod 256 - 1 = n"
proof -
  have "n div spt < 65536 * heads" using assms by (simp add: less_mult_imp_div_less)
  then have "n div spt div heads < 65536" by (simp add: less_mult_imp_div_less)
  then have "n div spt div heads div 256 < 256" by (simp add: less_mult_imp_div_less)
  then have c: "n div spt div heads div 256 mod 256 * 256 + n div spt div heads mod 256 = n div spt div heads"
    by simp
  have h: "n div spt mod heads mod 16 = n div spt mod heads"
    using mod_less_divisor [OF assms(1), of "n div spt"] assms(4) by (intro mod_less) linarith
  have o: "(1 + n mod spt) mod 256 = 1 + n mod spt"
    using mod_less_divisor [OF assms(2), of n] assms(5) by (intro mod_less) linarith
  show ?thesis unfolding c h o by simp
qed

lemma target_chs:
  assumes "unat sector < 65536 * unat heads * unat spt" "heads \<noteq> 0" "spt \<noteq> 0" "heads \<le> 16" "spt \<le> 255"
    and sl: "sl = 0 \<or> sl = 0x10"
    and l: "loaded v (memset_cmd\<lparr>sector_count := 1, lba_low := ucast (1 + sector mod ucast (spt :: u16)),
         lba_mid := ucast (sector div ucast spt div ucast (heads :: u16) AND 0xff),
         lba_high := ucast (drop_bit 8 (sector div ucast spt div ucast heads) AND 0xff),
         device := 0xA0 OR ucast ((sector div ucast spt mod ucast heads) AND 0x0F) OR sl OR 0x00,
         command := 0x20\<rparr>) w"
  shows "read_target (unat heads, unat spt) 0x20 w = Some (unat (sector :: u32))"
proof -
  have b: "unat heads \<le> 16" "unat spt \<le> 255" "0 < unat heads" "0 < unat spt"
    using assms(2-5) by (simp_all add: word_le_nat_alt unat_gt_0)
  have u: "unat (ucast spt :: u32) = unat spt" "unat (ucast heads :: u32) = unat heads"
    by (simp_all add: unat_ucast_u16_u32)
  have m: "unat sector mod unat spt < 255" using b mod_less_divisor [of "unat spt" "unat sector"] by linarith
  have "unat (1 + sector mod ucast spt) = 1 + unat sector mod unat spt"
    using m by (simp add: unat_word_ariths unat_mod_distrib u)
  with l slave_bits(6,8) [OF sl] chs_digits [OF b(3,4) assms(1) b(1,2)] show ?thesis
    by (simp add: loaded_def read_target_def chs_lba_def memset_cmd_def unat_field unat_div_distrib
        unat_mod_distrib u)
qed

section \<open>Reading through the driver\<close>

definition addressable :: "harddisk_info \<Rightarrow> nat \<times> nat \<Rightarrow> u64 \<Rightarrow> bool" where
  "addressable info geo sector \<longleftrightarrow>
     (i_slave info = 0 \<or> i_slave info = 0x10) \<and>
     (if i_address_mode info = ADDRESS_MODE_CHS
      then geo = (unat (i_heads info), unat (i_sectors_per_track info))
        \<and> i_heads info \<noteq> 0 \<and> i_heads info \<le> 16
        \<and> i_sectors_per_track info \<noteq> 0 \<and> i_sectors_per_track info \<le> 255
        \<and> unat sector < 65536 * unat (i_heads info) * unat (i_sectors_per_track info)
      else if i_address_mode info = ADDRESS_MODE_LBA then unat sector < 2 ^ 28
      else i_address_mode info = ADDRESS_MODE_LBA48 \<and> unat sector < 2 ^ 48)"

lemma unat_ucast_u64_u32: "unat w < 2 ^ 32 \<Longrightarrow> unat (ucast (w :: u64) :: u32) = unat w"
  by (simp add: unsigned_ucast_eq take_bit_nat_eq_self)

text \<open>A sector of the medium has 512 bytes; one that is missing has none.\<close>

definition sector_ok :: "byte list \<Rightarrow> bool" where
  "sector_ok bs \<longleftrightarrow> length bs = 512 \<or> bs = []"

definition read_result :: "byte list \<Rightarrow> byte list \<Rightarrow> 'h \<Rightarrow> int \<times> byte list \<times> 'h" where
  "read_result bs buffer h = (if bs = [] then (- 1, buffer, h) else (0, bs @ drop 512 buffer, h))"

lemma pio_sector:
  assumes "ata_conforms io view c geo media" "a_idle (view h)"
    and "\<And>w. loaded (view h) cmd w \<Longrightarrow> read_target geo k w = Some lba"
    and "command cmd = k" "device cmd AND 0x10 = sl" "sector_ok (media sl lba)" "512 \<le> length buffer"
  shows "\<exists>h'. pio_data_in io c cmd buffer IDE_SECTOR_SIZE h = Some (read_result (media sl lba) buffer h')
    \<and> a_idle (view h')"
  using pio_data_in_reads [where n = 256 and buffer = buffer, OF assms(1-3) refl _ _ assms(4,5)] assms(6,7)
  by (simp add: sector_ok_def read_result_def IDE_SECTOR_SIZE_def cong: if_cong split del: if_split)

lemma ide_read_lba48_reads:
  assumes "ata_conforms io view c geo media" "a_idle (view h)" "unat sector < 2 ^ 48"
    "i_slave info = 0 \<or> i_slave info = 0x10" "sector_ok (media (i_slave info) (unat sector))" "512 \<le> length buffer"
  shows "\<exists>h'. ide_read_sector_lba48 io c info buffer sector h
    = Some (read_result (media (i_slave info) (unat sector)) buffer h') \<and> a_idle (view h')"
  unfolding ide_read_sector_lba48_def Let_def
  by (rule pio_sector [OF assms(1,2) target_lba48 [OF assms(3,4)]])
    (use assms(5,6) slave_bits(2) [OF assms(4)] in \<open>simp_all add: memset_cmd_def\<close>)

lemma ide_read_lba_reads:
  assumes "ata_conforms io view c geo media" "a_idle (view h)" "unat sector < 2 ^ 28"
    "i_slave info = 0 \<or> i_slave info = 0x10" "sector_ok (media (i_slave info) (unat sector))" "512 \<le> length buffer"
  shows "\<exists>h'. ide_read_sector_lba io c info buffer sector h
    = Some (read_result (media (i_slave info) (unat sector)) buffer h') \<and> a_idle (view h')"
  unfolding ide_read_sector_lba_def Let_def
  by (rule pio_sector [OF assms(1,2) target_lba28 [OF assms(3,4)]])
    (use assms(5,6) slave_bits(4) [OF assms(4)] in \<open>simp_all add: memset_cmd_def\<close>)

lemma ide_read_chs_reads:
  assumes "ata_conforms io view c (unat (i_heads info), unat (i_sectors_per_track info)) media" "a_idle (view h)"
    "unat sector < 65536 * unat (i_heads info) * unat (i_sectors_per_track info)"
    "i_heads info \<noteq> 0" "i_sectors_per_track info \<noteq> 0" "i_heads info \<le> 16" "i_sectors_per_track info \<le> 255"
    "i_slave info = 0 \<or> i_slave info = 0x10" "sector_ok (media (i_slave info) (unat sector))" "512 \<le> length buffer"
  shows "\<exists>h'. ide_read_sector_chs io c info buffer sector h
    = Some (read_result (media (i_slave info) (unat sector)) buffer h') \<and> a_idle (view h')"
  unfolding ide_read_sector_chs_def Let_def bind_require
  using assms(4,5)
  by (simp only: if_True not_False_eq_True simp_thms, intro pio_sector [OF assms(1,2) target_chs [OF assms(3-8)]])
    (use assms(9,10) slave_bits(7) [OF assms(8)] in \<open>simp_all add: memset_cmd_def\<close>)

text \<open>
  The driver is ready: the device conforms to the contract and is idle, the current drive is one
  of the probed ones, and the buffer has room for a sector.
\<close>

definition ide_ready ::
  "'h io \<Rightarrow> ('h \<Rightarrow> ata) \<Rightarrow> nat \<times> nat \<Rightarrow> media \<Rightarrow> harddisk_info \<Rightarrow> 'h machine \<Rightarrow> bool" where
  "ide_ready io view geo media info s \<longleftrightarrow>
     ata_conforms io view (the_controller s) geo media \<and> a_idle (view (hw s)) \<and>
     (\<exists>i. d_priv (the_disk s) = Some i \<and> i < length (drives s) \<and> drives s ! i = info) \<and>
     i_ctrl info \<and> 512 \<le> length (d_buffer (the_disk s))"

lemma ide_read_result:
  assumes "ide_ready io view geo media info s" "addressable info geo sector" "sector \<le> i_sectors info"
    "sector_ok (media (i_slave info) (unat sector))"
  shows "\<exists>h r buf. read_result (media (i_slave info) (unat sector)) (d_buffer (the_disk s)) h = (r, buf, h)
    \<and> ide_read io s sector = Some (r, s\<lparr>the_disk := (if r = - 1
        then (the_disk s)\<lparr>d_sector := 0, d_bytes := 0, d_buffer := buf\<rparr>
        else (the_disk s)\<lparr>d_buffer := buf, d_bytes := 512, d_sector := sector\<rparr>), hw := h\<rparr>)
    \<and> a_idle (view h)"
proof -
  obtain i where i: "d_priv (the_disk s) = Some i" "rd1 (drives s) i = Some info"
    and r: "ata_conforms io view (the_controller s) geo media" "a_idle (view (hw s))" "i_ctrl info"
      "512 \<le> length (d_buffer (the_disk s))"
    using assms(1) by (auto simp: ide_ready_def rd1_def)
  have ns: "\<not> i_sectors info < sector" using assms(3) by (simp add: not_less)
  have sl: "i_slave info = 0 \<or> i_slave info = 0x10" using assms(2) by (simp add: addressable_def)
  let ?res = "\<lambda>h. Some (read_result (media (i_slave info) (unat sector)) (d_buffer (the_disk s)) h)"
  let ?mode = "if i_address_mode info = ADDRESS_MODE_CHS
      then ide_read_sector_chs io (the_controller s) info (d_buffer (the_disk s)) (ucast sector) (hw s)
      else if i_address_mode info = ADDRESS_MODE_LBA
      then ide_read_sector_lba io (the_controller s) info (d_buffer (the_disk s)) (ucast sector) (hw s)
      else ide_read_sector_lba48 io (the_controller s) info (d_buffer (the_disk s)) sector (hw s)"
  obtain h where h: "?mode = ?res h" "a_idle (view h)"
  proof (cases "i_address_mode info = ADDRESS_MODE_CHS")
    case True
    then have a: "geo = (unat (i_heads info), unat (i_sectors_per_track info))"
      "unat sector < 65536 * unat (i_heads info) * unat (i_sectors_per_track info)"
      "i_heads info \<noteq> 0" "i_sectors_per_track info \<noteq> 0" "i_heads info \<le> 16" "i_sectors_per_track info \<le> 255"
      using assms(2) by (simp_all add: addressable_def)
    have "unat (i_heads info) * unat (i_sectors_per_track info) \<le> 16 * 255"
      using a(5,6) by (intro mult_le_mono) (simp_all add: word_le_nat_alt)
    then have u: "unat (ucast sector :: u32) = unat sector" using a(2) by (intro unat_ucast_u64_u32) simp
    from ide_read_chs_reads [OF r(1) [unfolded a(1)] r(2), of "ucast sector"] a sl r(4) assms(4) u True that
    show ?thesis by auto
  next
    case False
    show ?thesis
    proof (cases "i_address_mode info = ADDRESS_MODE_LBA")
      case True
      then have a: "unat sector < 2 ^ 28"
        using assms(2) False by (simp add: addressable_def)
      then have u: "unat (ucast sector :: u32) = unat sector" by (intro unat_ucast_u64_u32) simp
      from ide_read_lba_reads [OF r(1,2), of "ucast sector"] a sl r(4) assms(4) u False True that
      show ?thesis by auto
    next
      case lba: False
      then have "unat sector < 2 ^ 48" using assms(2) False by (simp add: addressable_def)
      from ide_read_lba48_reads [OF r(1,2) this sl assms(4) r(4)] False lba that show ?thesis by auto
    qed
  qed
  have m: "i_address_mode info \<noteq> ADDRESS_MODE_CHS \<Longrightarrow> i_address_mode info \<noteq> ADDRESS_MODE_LBA \<Longrightarrow>
      i_address_mode info = ADDRESS_MODE_LBA48"
    using assms(2) by (simp add: addressable_def)
  obtain r' buf where rb: "read_result (media (i_slave info) (unat sector)) (d_buffer (the_disk s)) h = (r', buf, h)"
    unfolding read_result_def by (metis (full_types))
  have "ide_read io s sector = Some (r', s\<lparr>the_disk := (if r' = - 1
        then (the_disk s)\<lparr>d_sector := 0, d_bytes := 0, d_buffer := buf\<rparr>
        else (the_disk s)\<lparr>d_buffer := buf, d_bytes := 512, d_sector := sector\<rparr>), hw := h\<rparr>)"
    using h(1) i r(3) ns m rb
    by (auto simp: ide_read_def Let_def IDE_SECTOR_SIZE_def split: if_splits)
  with rb h(2) show ?thesis by blast
qed

lemma ide_read_ok:
  assumes "ide_ready io view geo media info s" "addressable info geo sector" "sector \<le> i_sectors info"
    "length (media (i_slave info) (unat sector)) = 512"
  shows "\<exists>h. ide_read io s sector = Some (0, s\<lparr>the_disk := (the_disk s)\<lparr>
      d_buffer := media (i_slave info) (unat sector) @ drop 512 (d_buffer (the_disk s)),
      d_bytes := 512, d_sector := sector\<rparr>, hw := h\<rparr>)
    \<and> a_idle (view h)"
  using ide_read_result [OF assms(1-3)] assms(4)
  by (auto simp: sector_ok_def read_result_def split: if_splits)

text \<open>Past the end of the medium the read fails and leaves the cache empty.\<close>

lemma ide_read_fails:
  assumes "ide_ready io view geo media info s"
    and "i_sectors info < sector \<or>
      addressable info geo sector \<and> sector \<le> i_sectors info \<and> media (i_slave info) (unat sector) = []"
  shows "\<exists>h. ide_read io s sector = Some (- 1, s\<lparr>the_disk := (the_disk s)\<lparr>d_sector := 0, d_bytes := 0\<rparr>, hw := h\<rparr>)
    \<and> a_idle (view h)"
proof (cases "i_sectors info < sector")
  case True
  with assms(1) show ?thesis
    by (intro exI [of _ "hw s"]) (auto simp: ide_ready_def ide_read_def rd1_def Let_def)
next
  case False
  with assms(2) have "addressable info geo sector" "sector \<le> i_sectors info" "media (i_slave info) (unat sector) = []"
    by auto
  with ide_read_result [OF assms(1) this(1,2)] show ?thesis
    by (auto simp: sector_ok_def read_result_def split: if_splits)
qed

section \<open>A drive that meets the contract\<close>

text \<open>
  A drive on the first legacy channel whose commands take one tick.  It shows that the contract
  can hold, for any geometry and media.
\<close>

definition ide0 :: controller where
  "ide0 = \<lparr>cmd_base = 0x1F0, ctrl_base = 0x3F4\<rparr>"

definition drive_view :: "ata \<Rightarrow> ata" where
  "drive_view h = h\<lparr>a_limit := 0, a_clock := 0\<rparr>"

definition drive_inb :: "u16 \<Rightarrow> ata \<Rightarrow> byte \<times> ata" where
  "drive_inb port h =
     (if port = 0x1F7 then (if a_wait h \<noteq> 0 then 0x80 else if a_data h = [] then 0x40 else 0x48, h)
      else if port = 0x1F6 then (a_device h, h)
      else (0, h))"

definition drive_outb :: "nat \<times> nat \<Rightarrow> media \<Rightarrow> byte \<Rightarrow> u16 \<Rightarrow> ata \<Rightarrow> ata" where
  "drive_outb geo media x port h =
     (if port = 0x1F2 then h\<lparr>a_count := (x, fst (a_count h))\<rparr>
      else if port = 0x1F3 then h\<lparr>a_low := (x, fst (a_low h))\<rparr>
      else if port = 0x1F4 then h\<lparr>a_mid := (x, fst (a_mid h))\<rparr>
      else if port = 0x1F5 then h\<lparr>a_high := (x, fst (a_high h))\<rparr>
      else if port = 0x1F6 then h\<lparr>a_device := x\<rparr>
      else if port = 0x1F7 then
        (case read_target geo x h of
           None \<Rightarrow> h
         | Some lba \<Rightarrow> h\<lparr>a_wait := 2, a_data := media (a_device h AND 0x10) lba\<rparr>)
      else h)"

definition drive_inw :: "u16 \<Rightarrow> ata \<Rightarrow> u16 \<times> ata" where
  "drive_inw port h =
     (case a_data h of
        x # y # r \<Rightarrow> (le_word [x, y], h\<lparr>a_data := r\<rparr>)
      | _ \<Rightarrow> (0, h))"

definition drive_io :: "nat \<times> nat \<Rightarrow> media \<Rightarrow> ata io" where
  "drive_io geo media = \<lparr>inb = drive_inb, inw = drive_inw, inl = (\<lambda>p h. (0, h)),
     outb = drive_outb geo media, outw = (\<lambda>x p h. h), outl = (\<lambda>x p h. h),
     currticks = (\<lambda>h. (0, h\<lparr>a_wait := a_wait h - 1\<rparr>)), mdelay = (\<lambda>n h. h), udelay = (\<lambda>n h. h),
     poll_interruptions = (\<lambda>h. h)\<rparr>"

lemma read_target_view: "read_target geo c (drive_view h) = read_target geo c h"
  by (simp add: read_target_def drive_view_def lba48_def lba28_def chs_lba_def)

lemma drive_conforms: "ata_conforms (drive_io geo media) drive_view ide0 geo media"
proof -
  have "ata_status (drive_io geo media) drive_view ide0"
    by (simp add: ata_status_def drive_io_def drive_inb_def drive_view_def ide0_def)
  moreover have "ata_time (drive_io geo media) drive_view"
    by (auto simp: ata_time_def drive_io_def drive_view_def intro: exI [of _ 0])
  moreover have "ata_registers (drive_io geo media) drive_view ide0"
    by (simp add: ata_registers_def drive_io_def drive_inb_def drive_outb_def drive_view_def ide0_def)
  moreover have "ata_read (drive_io geo media) drive_view ide0 geo media"
    unfolding ata_read_def read_target_view
    by (intro allI impI, rule exI [of _ 2], rule exI [of _ 0])
      (simp add: drive_io_def drive_outb_def drive_view_def ide0_def)
  moreover have "ata_data (drive_io geo media) drive_view ide0"
    by (simp add: ata_data_def drive_io_def drive_inw_def drive_view_def)
  ultimately show ?thesis by (simp add: ata_conforms_def)
qed

definition zero_ata :: ata where
  "zero_ata = \<lparr>a_device = 0, a_count = (0, 0), a_low = (0, 0), a_mid = (0, 0), a_high = (0, 0),
     a_wait = 0, a_limit = 0, a_clock = 0, a_data = []\<rparr>"

text \<open>A probed machine with one LBA48 drive of a thousand sectors.\<close>

definition sample_info :: harddisk_info where
  "sample_info = memset_info\<lparr>i_ctrl := True, i_sectors := 1000, i_address_mode := ADDRESS_MODE_LBA48,
     i_drive_exists := 1\<rparr>"

definition sample_disk :: disk where
  "sample_disk = \<lparr>d_dev = memset_dev, d_read = read_ide, d_drive = 0, d_hw_sector_size = 512,
     d_sectors_per_read = 1, d_bytes = 0, d_sectors = 1000, d_sector = 0, d_buffer = replicate 9216 0,
     d_priv = Some 0, d_disk_offset = 0, d_direction = 0\<rparr>"

definition sample_machine :: "ata machine" where
  "sample_machine = \<lparr>hw = zero_ata, the_disk = sample_disk, the_controller = ide0,
     drives = [sample_info, memset_info]\<rparr>"

lemma sample_ready: "ide_ready (drive_io geo media) drive_view geo media sample_info sample_machine"
  unfolding ide_ready_def using drive_conforms
  by (simp add: sample_machine_def sample_disk_def sample_info_def zero_ata_def drive_view_def)

lemma sample_addressable: "unat sector < 2 ^ 48 \<Longrightarrow> addressable sample_info geo sector"
  by (simp add: addressable_def sample_info_def memset_info_def ADDRESS_MODE_CHS_def ADDRESS_MODE_LBA_def
      ADDRESS_MODE_LBA48_def)

text \<open>
  C7: On a drive that behaves as the ATA documents say, \<open>ide_read\<close> returns 0 and leaves exactly
  the addressed sector in the driver's buffer, recorded as the cached one, in each of the three
  addressing modes (CHS, LBA and LBA48) and for either drive of the channel; the driver is ready
  for the next command.\<close>

theorem ide_read_correct:
  assumes "ide_ready io view geo media info s" "addressable info geo sector"
    "sector \<le> i_sectors info" "length (media (i_slave info) (unat sector)) = 512"
  shows "\<exists>s'. ide_read io s sector = Some (0, s') \<and> ide_ready io view geo media info s'
    \<and> take 512 (d_buffer (the_disk s')) = media (i_slave info) (unat sector)
    \<and> d_bytes (the_disk s') = 512 \<and> d_sector (the_disk s') = sector"
  using ide_read_ok [OF assms] assms(1,4) by (auto simp: ide_ready_def)

theorem ide_read_correct_witness:
  "\<exists>s'. ide_read (drive_io (16, 63) (\<lambda>d n. replicate 512 (of_nat n))) sample_machine 5 = Some (0, s')
    \<and> take 512 (d_buffer (the_disk s')) = replicate 512 5"
  using ide_read_correct [OF sample_ready sample_addressable, where sector = 5 and geo = "(16, 63)"
      and media = "\<lambda>d n. replicate 512 (of_nat n)"]
  by (simp add: sample_info_def) blast

end
