(* ===== verification/Disk.thy ===== *)
theory Disk
  imports Ide
begin

text \<open>
  The sector cache of \<^verbatim>\<open>src/main/disk.c\<close> on top of a sector driver.  A driver's read routine leaves
  the sectors it read in the buffer of the \<open>disk\<close> structure; \<open>do_disk_read\<close> calls it only when the
  requested sector is not there.

  The locale \<open>sector_driver\<close> states what the cache needs of a driver, the locale \<open>block_device\<close>
  what the layers above need of the cache.
\<close>

section \<open>The cache\<close>

definition SECTOR_SIZE :: nat where "SECTOR_SIZE = 512"

text \<open>The call through \<open>disk->read\<close>.\<close>

definition call_read :: "'h io \<Rightarrow> 'h machine \<Rightarrow> u64 \<Rightarrow> (int \<times> 'h machine) option" where
  "call_read io s sector =
     (case d_read (the_disk s) of
        read_null \<Rightarrow> None
      | read_dummy \<Rightarrow> Some (0, s)
      | read_ide \<Rightarrow> ide_read io s sector)"

text \<open>
  The caller's buffer is an object and an offset into it.  \<open>sizeof (sector_t)\<close> is 8 and
  \<open>sizeof (unsigned long)\<close> is 4, so the test on the sizes is true.
\<close>

definition do_disk_read ::
  "('h machine \<Rightarrow> u64 \<Rightarrow> (int \<times> 'h machine) option) \<Rightarrow>
   'h machine \<Rightarrow> byte list \<Rightarrow> nat \<Rightarrow> u64 \<Rightarrow> (int \<times> byte list \<times> 'h machine) option" where
  "do_disk_read rdf s buffer off sector =
     do {
       let d = the_disk s;
       let base_sector =
         (if d_sectors_per_read d > 1
          then sector - ucast ((ucast sector :: u32) mod d_sectors_per_read d)
          else sector);
       (result, s) \<leftarrow>
         (if sector < d_sector d \<or> sector \<ge> d_sector d + ucast (drop_bit 9 (d_bytes d))
          then rdf s base_sector
          else Some (0, s));
       if result < 0 then Some (result, buffer, s)
       else do {
         data \<leftarrow> rd (d_buffer (the_disk s)) (unat (push_bit 9 (sector - base_sector))) SECTOR_SIZE;
         buffer \<leftarrow> wr buffer off data;
         Some (0, buffer, s)
       }
     }"

definition disk_read :: "'h io \<Rightarrow> 'h machine \<Rightarrow> byte list \<Rightarrow> nat \<Rightarrow> u64 \<Rightarrow> (int \<times> byte list \<times> 'h machine) option" where
  "disk_read io = do_disk_read (call_read io)"

definition disk_last_sector :: "'h machine \<Rightarrow> u64" where
  "disk_last_sector s = d_sectors (the_disk s) - 1"

section \<open>What the layers above rely on\<close>

locale block_device =
  fixes dread :: "'s \<Rightarrow> byte list \<Rightarrow> nat \<Rightarrow> u64 \<Rightarrow> (int \<times> byte list \<times> 's) option"
    and inv :: "'s \<Rightarrow> bool"
    and med :: "u64 \<Rightarrow> byte list"
    and nsec :: u64
  assumes dread_ok: "inv s \<Longrightarrow> sector < nsec \<Longrightarrow> off + 512 \<le> length buf \<Longrightarrow>
      \<exists>s'. dread s buf off sector = Some (0, put_bytes off (med sector) buf, s') \<and> inv s'"
    and dread_fails: "inv s \<Longrightarrow> \<not> sector < nsec \<Longrightarrow>
      \<exists>r s'. dread s buf off sector = Some (r, buf, s') \<and> r < 0 \<and> inv s'"
    and med_len: "inv s \<Longrightarrow> sector < nsec \<Longrightarrow> length (med sector) = 512"

section \<open>The cache over a driver\<close>

locale sector_driver =
  fixes rdf :: "'h machine \<Rightarrow> u64 \<Rightarrow> (int \<times> 'h machine) option"
    and ready :: "'h machine \<Rightarrow> bool"
    and med :: "u64 \<Rightarrow> byte list"
    and nsec :: u64
  assumes rdf_ok: "ready s \<Longrightarrow> sector < nsec \<Longrightarrow>
      \<exists>s'. rdf s sector = Some (0, s') \<and> ready s' \<and> d_bytes (the_disk s') = 512
        \<and> d_sector (the_disk s') = sector \<and> take 512 (d_buffer (the_disk s')) = med sector"
    and rdf_fails: "ready s \<Longrightarrow> \<not> sector < nsec \<Longrightarrow>
      \<exists>r s'. rdf s sector = Some (r, s') \<and> r < 0 \<and> ready s' \<and> d_bytes (the_disk s') = 0"
    and single: "ready s \<Longrightarrow> d_sectors_per_read (the_disk s) = 1"
    and sector_len: "ready s \<Longrightarrow> sector < nsec \<Longrightarrow> length (med sector) = 512"
begin

definition cached :: "'h machine \<Rightarrow> bool" where
  "cached s \<longleftrightarrow> d_bytes (the_disk s) = 0 \<or>
     d_bytes (the_disk s) = 512 \<and> d_sector (the_disk s) < nsec
     \<and> take 512 (d_buffer (the_disk s)) = med (d_sector (the_disk s))"

lemma hit_or_miss:
  assumes "cached s" "\<not> (sector < d_sector (the_disk s)
     \<or> sector \<ge> d_sector (the_disk s) + ucast (drop_bit 9 (d_bytes (the_disk s))))"
  shows "d_bytes (the_disk s) = 512 \<and> d_sector (the_disk s) = sector"
proof -
  let ?b = "d_sector (the_disk s)"
  have nz: "d_bytes (the_disk s) \<noteq> 0" using assms(2) by auto
  then have b: "d_bytes (the_disk s) = 512" "?b < nsec" using assms(1) by (auto simp: cached_def)
  then have "unat sector < unat (?b + 1)" "unat ?b \<le> unat sector"
    using assms(2) by (auto simp: word_less_nat_alt word_le_nat_alt)
  moreover have "unat (?b + 1) = unat ?b + 1"
    using b(2) unat_u64_less [of nsec] by (simp add: unat_word_ariths word_less_nat_alt)
  ultimately have "unat ?b = unat sector" by linarith
  then show ?thesis using b(1) by (simp add: word_unat_eq_iff)
qed

lemma do_disk_read_ok:
  assumes "ready s" "cached s" "sector < nsec" "off + 512 \<le> length buf"
  shows "\<exists>s'. do_disk_read rdf s buf off sector = Some (0, put_bytes off (med sector) buf, s')
    \<and> ready s' \<and> cached s'"
proof -
  let ?miss = "sector < d_sector (the_disk s)
     \<or> sector \<ge> d_sector (the_disk s) + ucast (drop_bit 9 (d_bytes (the_disk s)))"
  obtain s' where s': "(if ?miss then rdf s sector else Some (0, s)) = Some (0, s')" "ready s'"
      "d_bytes (the_disk s') = 512" "d_sector (the_disk s') = sector"
      "take 512 (d_buffer (the_disk s')) = med sector"
  proof (cases ?miss)
    case True
    with rdf_ok [OF assms(1,3)] that show ?thesis by auto
  next
    case False
    from hit_or_miss [OF assms(2) False] have "d_bytes (the_disk s) = 512" "d_sector (the_disk s) = sector"
      by simp_all
    moreover from this have "take 512 (d_buffer (the_disk s)) = med sector"
      using assms(2) by (auto simp: cached_def)
    moreover have "(if ?miss then rdf s sector else Some (0, s)) = Some (0, s)"
      using False by (simp only: if_False)
    ultimately show ?thesis using assms(1) that by blast
  qed
  have base: "(if d_sectors_per_read (the_disk s) > 1
      then sector - ucast ((ucast sector :: u32) mod d_sectors_per_read (the_disk s)) else sector) = sector"
    using single [OF assms(1)] by simp
  have len: "length (med sector) = 512" using sector_len assms(1,3) .
  then have "512 \<le> length (d_buffer (the_disk s'))" using s'(5) by (metis length_take min.absorb_iff2)
  then have "rd (d_buffer (the_disk s')) 0 512 = Some (med sector)"
    using s'(5) by (simp add: rd_def bytes_at_def)
  then have "do_disk_read rdf s buf off sector = Some (0, put_bytes off (med sector) buf, s')"
    unfolding do_disk_read_def Let_def base s'(1) using assms(4) len by (simp add: SECTOR_SIZE_def wr_def)
  with s' assms(3) show ?thesis by (auto simp: cached_def)
qed

lemma do_disk_read_fails:
  assumes "ready s" "cached s" "\<not> sector < nsec"
  shows "\<exists>r s'. do_disk_read rdf s buf off sector = Some (r, buf, s') \<and> r < 0 \<and> ready s' \<and> cached s'"
proof -
  let ?miss = "sector < d_sector (the_disk s)
     \<or> sector \<ge> d_sector (the_disk s) + ucast (drop_bit 9 (d_bytes (the_disk s)))"
  have ?miss using hit_or_miss [OF assms(2), of sector] assms(2,3) by (auto simp: cached_def)
  then show ?thesis
    using rdf_fails [OF assms(1,3)] single [OF assms(1)]
    by (auto simp: do_disk_read_def Let_def cached_def)
qed

end

sublocale sector_driver \<subseteq> block_device "do_disk_read rdf" "\<lambda>s. ready s \<and> cached s" med nsec
  using do_disk_read_ok do_disk_read_fails sector_len by unfold_locales blast+

section \<open>The IDE driver is a sector driver\<close>

text \<open>
  The drive \<open>info\<close> is selected and has \<open>n\<close> sectors.  The command for the sector number \<open>n\<close>, which
  the range check of \<open>ide_read\<close> lets through, is one the drive has no data for.
\<close>

definition ide_serves ::
  "'h io \<Rightarrow> ('h \<Rightarrow> ata) \<Rightarrow> nat \<times> nat \<Rightarrow> media \<Rightarrow> harddisk_info \<Rightarrow> u64 \<Rightarrow> 'h machine \<Rightarrow> bool" where
  "ide_serves io view geo media info n s \<longleftrightarrow>
     ide_ready io view geo media info s \<and> d_read (the_disk s) = read_ide
     \<and> v_disable (d_dev (the_disk s)) \<noteq> disable_nic
     \<and> d_sectors_per_read (the_disk s) = 1 \<and> i_sectors info = n
     \<and> (\<forall>sector\<le>n. addressable info geo sector)
     \<and> (\<forall>sector<n. length (media (i_slave info) (unat sector)) = 512)
     \<and> media (i_slave info) (unat n) = []"

lemma ide_serves_read:
  assumes "ide_serves io view geo media info n s" "sector < n"
  shows "\<exists>s'. call_read io s sector = Some (0, s') \<and> ide_serves io view geo media info n s'
    \<and> d_bytes (the_disk s') = 512 \<and> d_sector (the_disk s') = sector
    \<and> take 512 (d_buffer (the_disk s')) = media (i_slave info) (unat sector)"
proof -
  have i: "ide_ready io view geo media info s" "d_read (the_disk s) = read_ide"
    "addressable info geo sector" "sector \<le> i_sectors info" "length (media (i_slave info) (unat sector)) = 512"
    using assms by (auto simp: ide_serves_def less_imp_le)
  from ide_read_ok [OF i(1,3-5)] obtain h where
    h: "ide_read io s sector = Some (0, s\<lparr>the_disk := (the_disk s)\<lparr>
      d_buffer := media (i_slave info) (unat sector) @ drop 512 (d_buffer (the_disk s)),
      d_bytes := 512, d_sector := sector\<rparr>, hw := h\<rparr>)" "a_idle (view h)" by blast
  with i assms(1) show ?thesis
    by (auto simp: call_read_def ide_serves_def ide_ready_def)
qed

lemma ide_serves_fails:
  assumes "ide_serves io view geo media info n s" "\<not> sector < n"
  shows "\<exists>r s'. call_read io s sector = Some (r, s') \<and> r < 0 \<and> ide_serves io view geo media info n s'
    \<and> d_bytes (the_disk s') = 0"
proof -
  have "i_sectors info < sector \<or>
      addressable info geo sector \<and> sector \<le> i_sectors info \<and> media (i_slave info) (unat sector) = []"
    using assms by (cases "sector = n") (auto simp: ide_serves_def)
  with ide_read_fails [of io view geo media info s sector] assms(1) show ?thesis
    by (fastforce simp: call_read_def ide_serves_def ide_ready_def)
qed

interpretation ide: sector_driver "call_read io" "ide_serves io view geo media info n"
  "\<lambda>sector. media (i_slave info) (unat sector)" n
  for io view geo media info n
proof unfold_locales
  show "\<exists>s'. call_read io s sector = Some (0, s') \<and> ide_serves io view geo media info n s'
      \<and> d_bytes (the_disk s') = 512 \<and> d_sector (the_disk s') = sector
      \<and> take 512 (d_buffer (the_disk s')) = media (i_slave info) (unat sector)"
    if "ide_serves io view geo media info n s" "sector < n" for s sector
    using that by (rule ide_serves_read)
  show "\<exists>r s'. call_read io s sector = Some (r, s') \<and> r < 0 \<and> ide_serves io view geo media info n s'
      \<and> d_bytes (the_disk s') = 0"
    if "ide_serves io view geo media info n s" "\<not> sector < n" for s sector
    using that by (rule ide_serves_fails)
qed (auto simp: ide_serves_def)

definition cache_ok :: "u64 \<Rightarrow> (nat \<Rightarrow> byte list) \<Rightarrow> 'h machine \<Rightarrow> bool" where
  "cache_ok n sectors s \<longleftrightarrow> d_bytes (the_disk s) = 0 \<or>
     d_bytes (the_disk s) = 512 \<and> d_sector (the_disk s) < n
     \<and> take 512 (d_buffer (the_disk s)) = sectors (unat (d_sector (the_disk s)))"

lemma ide_cached_iff: "ide.cached media info n s \<longleftrightarrow> cache_ok n (media (i_slave info)) s"
  by (simp add: ide.cached_def cache_ok_def)

text \<open>
  C8: Reading any sector of the drive through the cache, whatever was read before, returns 0,
  stores that sector of the media at the requested place of the caller's buffer and nothing else
  there; a sector past the end is an error that leaves the buffer alone.  Either way the cache
  stays consistent with the media, so a hit is never stale.\<close>

theorem disk_read_correct:
  assumes "ide_serves io view geo media info n s" "cache_ok n (media (i_slave info)) s"
    "off + 512 \<le> length buf"
  shows "\<exists>r s'. disk_read io s buf off sector =
      Some (r, if sector < n then put_bytes off (media (i_slave info) (unat sector)) buf else buf, s')
    \<and> (if sector < n then r = 0 else r < 0)
    \<and> ide_serves io view geo media info n s' \<and> cache_ok n (media (i_slave info)) s'"
  using ide.do_disk_read_ok [of io view geo media info n s sector off buf]
    ide.do_disk_read_fails [of io view geo media info n s sector buf off] assms
  by (fastforce simp: disk_read_def ide_cached_iff)

text \<open>A medium of a thousand sectors, each filled with its own number.\<close>

definition sample_media :: media where
  "sample_media d k = (if k < 1000 then replicate 512 (of_nat k) else [])"

lemma sample_serves:
  assumes "\<forall>k<1000. length (media 0 k) = 512" "media 0 1000 = []"
  shows "ide_serves (drive_io geo media) drive_view geo media sample_info 1000 sample_machine"
proof -
  have i: "i_slave sample_info = 0" "i_sectors sample_info = 1000" "d_read (the_disk sample_machine) = read_ide"
    "d_sectors_per_read (the_disk sample_machine) = 1" "v_disable (d_dev (the_disk sample_machine)) \<noteq> disable_nic"
    by (simp_all add: sample_info_def memset_info_def sample_machine_def sample_disk_def memset_dev_def)
  have "sector \<le> 1000 \<Longrightarrow> addressable sample_info geo sector" for sector
    by (rule sample_addressable) (simp add: word_le_nat_alt)
  then show ?thesis using sample_ready assms i by (auto simp: ide_serves_def word_less_nat_alt)
qed

lemma sample_cache: "cache_ok n sectors sample_machine"
  by (simp add: cache_ok_def sample_machine_def sample_disk_def)

theorem disk_read_correct_witness:
  "\<exists>s'. disk_read (drive_io (16, 63) sample_media) sample_machine (replicate 1024 0) 512 7
    = Some (0, put_bytes 512 (replicate 512 7) (replicate 1024 0), s')"
  using disk_read_correct [OF sample_serves [of sample_media "(16, 63)"] sample_cache,
      of 512 "replicate 1024 0" 7]
  by (auto simp: word_less_nat_alt sample_media_def)

end
