(* ===== verification/Partition.thy ===== *)
theory Partition
  imports Disk
begin

text \<open>
  The partition window of \<^verbatim>\<open>src/main/partition.c\<close>: sectors numbered from the start of the current
  partition, read through the disk below.  The disk read routine is an argument, so that the
  lemmas hold for every device that meets \<open>block_device\<close>.
\<close>

section \<open>The window\<close>

record partition =
  start :: u64
  psize :: u64

text \<open>The file's two globals are a \<open>partition\<close>; \<open>partition_set\<close> replaces them.\<close>

definition partition_set :: "partition \<Rightarrow> partition \<Rightarrow> partition" where
  "partition_set p g = g\<lparr>start := start p, psize := psize p\<rparr>"

type_synonym 's dread = "'s \<Rightarrow> byte list \<Rightarrow> nat \<Rightarrow> u64 \<Rightarrow> (int \<times> byte list \<times> 's) option"

fun partition_loop :: "'s dread \<Rightarrow> nat \<Rightarrow> int \<Rightarrow> 's \<Rightarrow> byte list \<Rightarrow> nat \<Rightarrow> u64 \<Rightarrow> (int \<times> byte list \<times> 's) option" where
  "partition_loop dread 0 red s buf off sector = Some (red, buf, s)"
| "partition_loop dread (Suc n) red s buf off sector =
     do {
       (r, buf, s) \<leftarrow> dread s buf off sector;
       if r \<noteq> 0 then Some (red, buf, s)
       else partition_loop dread n (red + 1) s buf (off + 512) (sector + 1)
     }"

definition partition_read ::
  "'s dread \<Rightarrow> partition \<Rightarrow> 's \<Rightarrow> byte list \<Rightarrow> nat \<Rightarrow> u64 \<Rightarrow> u64 \<Rightarrow> (int \<times> byte list \<times> 's) option" where
  "partition_read dread g s buf off sector nsectors =
     (if sector + nsectors > psize g then Some (- 1, buf, s)
      else partition_loop dread (unat nsectors) 0 s buf off (sector + start g))"

section \<open>Reading inside the window\<close>

text \<open>The content of consecutive sectors.\<close>

fun sectors_from :: "(u64 \<Rightarrow> byte list) \<Rightarrow> u64 \<Rightarrow> nat \<Rightarrow> byte list" where
  "sectors_from med sector 0 = []"
| "sectors_from med sector (Suc n) = med sector @ sectors_from med (sector + 1) n"

lemma unat_u64_Suc: "unat (w :: u64) + 1 < 2 ^ 64 \<Longrightarrow> unat (w + 1) = unat w + 1"
  by (simp add: unat_word_ariths)

lemma unat_inc_le: "unat (w :: u64) + Suc n \<le> unat (m :: u64) \<Longrightarrow> unat (w + 1) + n \<le> unat m"
  using unat_u64_less [of m] unat_u64_Suc [of w] by simp

context block_device
begin

lemma length_sectors_from:
  "inv s \<Longrightarrow> unat sector + n \<le> unat nsec \<Longrightarrow> length (sectors_from med sector n) = 512 * n"
proof (induction n arbitrary: sector)
  case (Suc n)
  then have "sector < nsec" by (simp add: word_less_nat_alt)
  moreover have "unat (sector + 1) + n \<le> unat nsec" using Suc.prems(2) by (rule unat_inc_le)
  ultimately show ?case using Suc med_len by simp
qed simp

lemma partition_loop_ok:
  "inv s \<Longrightarrow> unat sector + n \<le> unat nsec \<Longrightarrow> off + 512 * n \<le> length buf \<Longrightarrow>
   \<exists>s'. partition_loop dread n red s buf off sector =
     Some (red + int n, put_bytes off (sectors_from med sector n) buf, s') \<and> inv s'"
proof (induction n arbitrary: s sector off buf red)
  case (Suc n)
  have lt: "sector < nsec" using Suc.prems(2) by (simp add: word_less_nat_alt)
  have len: "length (med sector) = 512" using med_len Suc.prems(1) lt .
  obtain s1 where s1: "dread s buf off sector = Some (0, put_bytes off (med sector) buf, s1)" "inv s1"
    using dread_ok [OF Suc.prems(1) lt, of off buf] Suc.prems(3) by auto
  let ?buf = "put_bytes off (med sector) buf"
  have le: "unat (sector + 1) + n \<le> unat nsec" using Suc.prems(2) by (rule unat_inc_le)
  have "length ?buf = length buf" using len Suc.prems(3) by simp
  then obtain s2 where s2: "partition_loop dread n (red + 1) s1 ?buf (off + 512) (sector + 1) =
      Some (red + 1 + int n, put_bytes (off + 512) (sectors_from med (sector + 1) n) ?buf, s2)" "inv s2"
    using Suc.IH [OF s1(2) le, of "off + 512" ?buf "red + 1"] Suc.prems(3) by auto
  have "put_bytes (off + 512) (sectors_from med (sector + 1) n) ?buf =
      put_bytes off (med sector @ sectors_from med (sector + 1) n) buf"
    using put_bytes_append [of off "med sector" "sectors_from med (sector + 1) n" buf] len
      length_sectors_from [OF s1(2) le] Suc.prems(3) by simp
  moreover have "red + 1 + int n = red + int (Suc n)" by simp
  ultimately show ?case using s1(1) s2 by simp
qed simp

lemma partition_read_ok:
  assumes "inv s" "unat (start g) + unat (psize g) \<le> unat nsec"
    "unat sector + unat n \<le> unat (psize g)" "off + 512 * unat n \<le> length buf"
  shows "\<exists>s'. partition_read dread g s buf off sector n =
    Some (int (unat n), put_bytes off (sectors_from med (sector + start g) (unat n)) buf, s') \<and> inv s'"
proof -
  have "unat (sector + n) = unat sector + unat n"
    using assms(3) unat_u64_less [of "psize g"] by (simp add: unat_word_ariths)
  then have "\<not> psize g < sector + n" using assms(3) by (simp add: word_less_nat_alt)
  moreover have "unat (sector + start g) = unat sector + unat (start g)"
    using assms(2,3) unat_u64_less [of nsec] by (simp add: unat_word_ariths)
  then have "unat (sector + start g) + unat n \<le> unat nsec" using assms(2,3) by simp
  ultimately show ?thesis
    using partition_loop_ok [OF assms(1) _ assms(4), of "sector + start g" 0] by (simp add: partition_read_def)
qed

end

text \<open>
  C17: Reading \<open>n\<close> sectors that lie in the current partition of a conforming drive returns \<open>n\<close> and
  stores the sectors \<open>start + sector\<close>, \<open>start + sector + 1\<close>, ... of the drive, and nothing else, in
  the caller's buffer; the cache stays consistent.\<close>

theorem partition_read_correct:
  assumes "ide_serves io view geo media info m s" "cache_ok m (media (i_slave info)) s"
    "unat (start g) + unat (psize g) \<le> unat m" "unat sector + unat n \<le> unat (psize g)"
    "off + 512 * unat n \<le> length buf"
  shows "\<exists>s'. partition_read (disk_read io) g s buf off sector n =
      Some (int (unat n), put_bytes off (sectors_from (\<lambda>k. media (i_slave info) (unat k)) (sector + start g) (unat n)) buf, s')
    \<and> ide_serves io view geo media info m s' \<and> cache_ok m (media (i_slave info)) s'"
  using ide.partition_read_ok [of io view geo media info m s g sector n off buf] assms
  by (auto simp: disk_read_def ide_cached_iff)

theorem partition_read_correct_witness:
  "\<exists>s'. partition_read (disk_read (drive_io (16, 63) sample_media))
      \<lparr>start = 40, psize = 100\<rparr> sample_machine (replicate 512 0) 0 2 1 = Some (1, replicate 512 42, s')"
  using partition_read_correct [OF sample_serves [of sample_media "(16, 63)"] sample_cache,
      of "\<lparr>start = 40, psize = 100\<rparr>" 2 1 0 "replicate 512 0"]
  by (auto simp: sample_media_def)

lemma partition_loop_cong:
  "(\<And>k s b o'. k < n \<Longrightarrow> d1 s b o' (sector + of_nat k) = d2 s b o' (sector + of_nat k)) \<Longrightarrow>
   partition_loop d1 n red s buf off sector = partition_loop d2 n red s buf off sector"
proof (induction n arbitrary: red s buf off sector)
  case (Suc n)
  have "d1 s buf off sector = d2 s buf off sector" using Suc.prems [of 0] by simp
  moreover have "partition_loop d1 n red s buf off (sector + 1) = partition_loop d2 n red s buf off (sector + 1)"
    for red s buf off
  proof (rule Suc.IH)
    show "d1 s b o' (sector + 1 + of_nat k) = d2 s b o' (sector + 1 + of_nat k)" if "k < n" for k s b o'
      using Suc.prems [of "Suc k" s b o'] that by (simp add: add.assoc)
  qed
  ultimately show ?case by (simp cong: if_cong)
qed simp

text \<open>
  C18: As long as the 64-bit sum \<open>sector + nsectors\<close> does not wrap around, the result of a
  partition read depends only on the sectors of the partition: two devices that agree there give
  the same result, whatever is asked for.\<close>

theorem partition_read_confined:
  assumes "unat sector + unat n < 2 ^ 64" "unat (start g) + unat (psize g) \<le> 2 ^ 64"
    "\<forall>s buf off k. start g \<le> k \<and> unat k < unat (start g) + unat (psize g) \<longrightarrow> d1 s buf off k = d2 s buf off k"
  shows "partition_read d1 g s buf off sector n = partition_read d2 g s buf off sector n"
proof (cases "psize g < sector + n")
  case True
  then show ?thesis by (simp add: partition_read_def)
next
  case False
  have "unat (sector + n) = unat sector + unat n" using assms(1) by (simp add: unat_word_ariths)
  then have le: "unat sector + unat n \<le> unat (psize g)" using False by (simp add: word_less_nat_alt)
  have "k < unat n \<Longrightarrow> d1 s b o' (sector + start g + of_nat k) = d2 s b o' (sector + start g + of_nat k)"
    for k s b o'
  proof -
    assume k: "k < unat n"
    have "unat (sector + start g + of_nat k) = unat sector + unat (start g) + k"
      using k le assms(2) unat_u64_less [of n] by (simp add: unat_word_ariths unat_of_nat)
    then show ?thesis using assms(3) k le by (simp add: word_le_nat_alt)
  qed
  then have "partition_loop d1 (unat n) 0 s buf off (sector + start g) =
      partition_loop d2 (unat n) 0 s buf off (sector + start g)"
    by (rule partition_loop_cong)
  with False show ?thesis by (simp add: partition_read_def)
qed

theorem partition_read_confined_witness:
  "partition_read (\<lambda>s buf off k. if k = 9 then None else Some (0, buf, s)) \<lparr>start = 10, psize = 4\<rparr> () [] 0 1 3
   = partition_read (\<lambda>s buf off k. Some (0, buf, s)) \<lparr>start = 10, psize = 4\<rparr> () [] 0 1 3"
  by (rule partition_read_confined) (auto simp: word_le_nat_alt)

text \<open>
  The bound check wraps around: asked for one sector at \<open>2 ^ 64 - 1\<close>, the read is accepted for
  every partition and goes to the sector before the partition.\<close>

theorem partition_read_wraps:
  "partition_read dread g s buf off (- 1) 1 = partition_loop dread 1 0 s buf off (start g - 1)"
  by (simp add: partition_read_def)

end
