(* ===== verification/Efi.thy ===== *)
theory Efi
  imports Crc Partition
begin

text \<open>
  The GUID partition table reader of \<^verbatim>\<open>src/main/efi.c\<close>.  The disk below is an argument: the sector
  read routine \<open>dread\<close> and the last sector number.  The header file that defines \<open>efi_guidcmp\<close> and
  \<open>NULL_GUID\<close> is not part of the tree; both are arguments (\<open>guidcmp\<close>, \<open>null_guid\<close>).  A header and the
  entry array are byte objects with the packed layout of \<^verbatim>\<open>src/main/efi_partition.h\<close>.
\<close>

section \<open>Layouts\<close>

definition GPT_HEADER_SIGNATURE :: u64 where "GPT_HEADER_SIGNATURE = 0x5452415020494645"
definition MSDOS_MBR_SIGNATURE :: u16 where "MSDOS_MBR_SIGNATURE = 0xaa55"
definition EFI_PMBR_OSTYPE_EFI_GPT :: byte where "EFI_PMBR_OSTYPE_EFI_GPT = 0xEE"
definition GPT_PRIMARY_PARTITION_TABLE_LBA :: u64 where "GPT_PRIMARY_PARTITION_TABLE_LBA = 1"
definition MAX_PTES :: nat where "MAX_PTES = 1024"
definition PTE_MAX_SIZE :: u32 where "PTE_MAX_SIZE = 128 * 1024"

text \<open>\<open>gpt_header\<close>, 512 bytes.\<close>

definition signature :: "byte list \<Rightarrow> u64" where "signature g = field64 0 g"
definition header_size :: "byte list \<Rightarrow> u32" where "header_size g = field32 12 g"
definition header_crc32 :: "byte list \<Rightarrow> u32" where "header_crc32 g = field32 16 g"
definition my_lba :: "byte list \<Rightarrow> u64" where "my_lba g = field64 24 g"
definition alternate_lba :: "byte list \<Rightarrow> u64" where "alternate_lba g = field64 32 g"
definition first_usable_lba :: "byte list \<Rightarrow> u64" where "first_usable_lba g = field64 40 g"
definition last_usable_lba :: "byte list \<Rightarrow> u64" where "last_usable_lba g = field64 48 g"
definition disk_guid :: "byte list \<Rightarrow> byte list" where "disk_guid g = bytes_at 56 16 g"
definition partition_entry_lba :: "byte list \<Rightarrow> u64" where "partition_entry_lba g = field64 72 g"
definition num_partition_entries :: "byte list \<Rightarrow> u32" where "num_partition_entries g = field32 80 g"
definition sizeof_partition_entry :: "byte list \<Rightarrow> u32" where "sizeof_partition_entry g = field32 84 g"
definition partition_entry_array_crc32 :: "byte list \<Rightarrow> u32" where
  "partition_entry_array_crc32 g = field32 88 g"

text \<open>\<open>gpt_entry\<close>, 128 bytes.\<close>

definition partition_type_guid :: "byte list \<Rightarrow> byte list" where "partition_type_guid e = bytes_at 0 16 e"
definition starting_lba :: "byte list \<Rightarrow> u64" where "starting_lba e = field64 32 e"
definition ending_lba :: "byte list \<Rightarrow> u64" where "ending_lba e = field64 40 e"

text \<open>\<open>struct mbr_partition\<close>, 16 bytes, and \<open>legacy_mbr\<close>, 512 bytes.\<close>

definition sys_ind :: "byte list \<Rightarrow> byte" where "sys_ind p = p ! 4"
definition start_sect :: "byte list \<Rightarrow> u32" where "start_sect p = field32 8 p"
definition partition_record :: "byte list \<Rightarrow> nat \<Rightarrow> byte list" where
  "partition_record m i = bytes_at (446 + 16 * i) 16 m"
definition mbr_signature :: "byte list \<Rightarrow> u16" where "mbr_signature m = field16 510 m"

section \<open>Reading sectors\<close>

text \<open>\<open>count\<close> only decreases, so it is a natural number here; \<open>totalreadcount\<close> never exceeds its first value.\<close>

function read_lba_loop ::
  "'s dread \<Rightarrow> nat \<Rightarrow> nat \<Rightarrow> 's \<Rightarrow> byte list \<Rightarrow> nat \<Rightarrow> u64 \<Rightarrow> (nat \<times> byte list \<times> 's) option" where
  "read_lba_loop dread count totalreadcount s buffer off lba =
     (if count = 0 then Some (totalreadcount, buffer, s)
      else do {
        (r, data, s) \<leftarrow> dread s (replicate 512 0) 0 lba;
        if r \<noteq> 0 then Some (totalreadcount, buffer, s)
        else do {
          let copied = min 512 count;
          buffer \<leftarrow> wr buffer off (take copied data);
          read_lba_loop dread (count - copied) (totalreadcount + copied) s buffer (off + copied) (lba + 1)
        }
      })"
  by pat_completeness auto
termination by (relation "measure (\<lambda>(_, count, _). count)") auto

declare read_lba_loop.simps [simp del]

definition read_lba ::
  "'s dread \<Rightarrow> u64 \<Rightarrow> 's \<Rightarrow> byte list \<Rightarrow> u64 \<Rightarrow> u32 \<Rightarrow> (u32 \<times> byte list \<times> 's) option" where
  "read_lba dread lastlba s buffer lba count =
     (if lba > lastlba then Some (0, buffer, s)
      else map_option (\<lambda>(n, buffer, s). (of_nat n, buffer, s))
        (read_lba_loop dread (unat count) 0 s buffer 0 lba))"

section \<open>The protective MBR\<close>

definition pmbr_part_valid :: "byte list \<Rightarrow> bool" where
  "pmbr_part_valid part \<longleftrightarrow> sys_ind part = EFI_PMBR_OSTYPE_EFI_GPT \<and> start_sect part = 1"

definition is_pmbr_valid :: "byte list \<Rightarrow> bool" where
  "is_pmbr_valid mbr \<longleftrightarrow> mbr_signature mbr = MSDOS_MBR_SIGNATURE
     \<and> (\<exists>i\<in>set [0..<4]. pmbr_part_valid (partition_record mbr i))"

section \<open>Headers and entries\<close>

definition read_gpt_entries ::
  "'s dread \<Rightarrow> u64 \<Rightarrow> 's \<Rightarrow> byte list \<Rightarrow> byte list \<Rightarrow> (bool \<times> byte list \<times> 's) option" where
  "read_gpt_entries dread lastlba s gpt pte =
     (let count = num_partition_entries gpt * sizeof_partition_entry gpt in
      if count = 0 then Some (False, pte, s)
      else do {
        let count = (if count > PTE_MAX_SIZE then PTE_MAX_SIZE else count);
        pte \<leftarrow> wr pte 0 (replicate (unat count) 0);
        (n, pte, s) \<leftarrow> read_lba dread lastlba s pte (partition_entry_lba gpt) count;
        Some (\<not> n < count, pte, s)
      })"

definition read_gpt_header ::
  "'s dread \<Rightarrow> u64 \<Rightarrow> 's \<Rightarrow> byte list \<Rightarrow> u64 \<Rightarrow> (bool \<times> byte list \<times> 's) option" where
  "read_gpt_header dread lastlba s gpt lba =
     do {
       gpt \<leftarrow> wr gpt 0 (replicate 512 0);
       (n, gpt, s) \<leftarrow> read_lba dread lastlba s gpt lba 512;
       Some (\<not> n < 512, gpt, s)
     }"

definition is_gpt_valid ::
  "'s dread \<Rightarrow> u64 \<Rightarrow> 's \<Rightarrow> u64 \<Rightarrow> byte list \<Rightarrow> byte list \<Rightarrow> (bool \<times> byte list \<times> byte list \<times> 's) option" where
  "is_gpt_valid dread lastlba s lba gpt ptes =
     do {
       (ok, gpt, s) \<leftarrow> read_gpt_header dread lastlba s gpt lba;
       if \<not> ok then Some (False, gpt, ptes, s)
       else if signature gpt \<noteq> GPT_HEADER_SIGNATURE then Some (False, gpt, ptes, s)
       else do {
         let origcrc = header_crc32 gpt;
         gpt \<leftarrow> wr gpt 16 (le_bytes 4 (0 :: u32));
         crc \<leftarrow> efi_crc32 gpt (header_size gpt);
         if crc \<noteq> origcrc then Some (False, gpt, ptes, s)
         else do {
           gpt \<leftarrow> wr gpt 16 (le_bytes 4 origcrc);
           if my_lba gpt \<noteq> lba then Some (False, gpt, ptes, s)
           else if first_usable_lba gpt > lastlba then Some (False, gpt, ptes, s)
           else if last_usable_lba gpt > lastlba then Some (False, gpt, ptes, s)
           else do {
             (ok, ptes, s) \<leftarrow> read_gpt_entries dread lastlba s gpt ptes;
             if \<not> ok then Some (False, gpt, ptes, s)
             else do {
               crc \<leftarrow> efi_crc32 ptes (num_partition_entries gpt * sizeof_partition_entry gpt);
               Some (crc = partition_entry_array_crc32 gpt, gpt, ptes, s)
             }
           }
         }
       }
     }"

definition is_pte_valid :: "(byte list \<Rightarrow> byte list \<Rightarrow> int) \<Rightarrow> byte list \<Rightarrow> byte list \<Rightarrow> u64 \<Rightarrow> bool" where
  "is_pte_valid guidcmp null_guid pte lastlba \<longleftrightarrow>
     \<not> (guidcmp (partition_type_guid pte) null_guid = 0 \<or> starting_lba pte > lastlba \<or> ending_lba pte > lastlba)"

text \<open>\<open>compare_gpts\<close> only prints; the result here is the number of mismatches it reports.\<close>

definition compare_gpts :: "(byte list \<Rightarrow> byte list \<Rightarrow> int) \<Rightarrow> byte list \<Rightarrow> byte list \<Rightarrow> u64 \<Rightarrow> nat" where
  "compare_gpts guidcmp pgpt agpt lastlba =
     of_bool (my_lba pgpt \<noteq> alternate_lba agpt)
     + of_bool (alternate_lba pgpt \<noteq> my_lba agpt)
     + of_bool (first_usable_lba pgpt \<noteq> first_usable_lba agpt)
     + of_bool (last_usable_lba pgpt \<noteq> last_usable_lba agpt)
     + of_bool (guidcmp (disk_guid pgpt) (disk_guid agpt) \<noteq> 0)
     + of_bool (num_partition_entries pgpt \<noteq> num_partition_entries agpt)
     + of_bool (sizeof_partition_entry pgpt \<noteq> sizeof_partition_entry agpt)
     + of_bool (partition_entry_array_crc32 pgpt \<noteq> partition_entry_array_crc32 agpt)
     + of_bool (alternate_lba pgpt \<noteq> lastlba)
     + of_bool (my_lba agpt \<noteq> lastlba)"

text \<open>
  The function's static objects: the two headers, the two entry arrays (\<open>MAX_PTES\<close> entries of 128
  bytes) and the MBR buffer.  \<open>force_gpt\<close> is 0.  The result \<open>Some (g, e, n)\<close> stands for a return
  value of 1 with the header and the entries that \<open>*gpt\<close> and \<open>*ptes\<close> point to, and the number of
  mismatches reported on the console.
\<close>

record gpt_statics =
  pgpt :: "byte list"
  agpt :: "byte list"
  pptes :: "byte list"
  aptes :: "byte list"
  legacymbr :: "byte list"

definition find_valid_gpt ::
  "'s dread \<Rightarrow> u64 \<Rightarrow> (byte list \<Rightarrow> byte list \<Rightarrow> int) \<Rightarrow> gpt_statics \<Rightarrow> 's \<Rightarrow>
   ((byte list \<times> byte list \<times> nat) option \<times> gpt_statics \<times> 's) option" where
  "find_valid_gpt dread lastlba guidcmp st s =
     do {
       mbr \<leftarrow> wr (legacymbr st) 0 (replicate 512 0);
       (_, mbr, s) \<leftarrow> read_lba dread lastlba s mbr 0 512;
       let st = st\<lparr>legacymbr := mbr\<rparr>;
       if \<not> is_pmbr_valid mbr then Some (None, st, s)
       else do {
         (good_pgpt, g, e, s) \<leftarrow>
           is_gpt_valid dread lastlba s GPT_PRIMARY_PARTITION_TABLE_LBA (pgpt st) (pptes st);
         let st = st\<lparr>pgpt := g, pptes := e\<rparr>;
         if \<not> good_pgpt then Some (None, st, s)
         else do {
           (good_agpt, g, e, s) \<leftarrow>
             is_gpt_valid dread lastlba s (alternate_lba (pgpt st)) (agpt st) (aptes st);
           let st = st\<lparr>agpt := g, aptes := e\<rparr>;
           Some (Some (pgpt st, pptes st, compare_gpts guidcmp (pgpt st) (agpt st) lastlba), st, s)
         }
       }
     }"

section \<open>The list of partitions\<close>

text \<open>The loop over the entry array; \<open>n\<close> is the value \<open>*num\<close> had on entry, \<open>num\<close> its new value.\<close>

fun partition_entries ::
  "(byte list \<Rightarrow> byte list \<Rightarrow> int) \<Rightarrow> byte list \<Rightarrow> u64 \<Rightarrow> byte list \<Rightarrow> int \<Rightarrow> nat \<Rightarrow> nat \<Rightarrow> partition list \<Rightarrow> nat
   \<Rightarrow> (partition list \<times> nat) option" where
  "partition_entries guidcmp null_guid lastlba ptes n 0 i parts num = Some (parts, num)"
| "partition_entries guidcmp null_guid lastlba ptes n (Suc k) i parts num =
     do {
       pte \<leftarrow> rd ptes (128 * i) 128;
       if \<not> is_pte_valid guidcmp null_guid pte lastlba
       then partition_entries guidcmp null_guid lastlba ptes n k (i + 1) parts num
       else do {
         parts \<leftarrow> wr parts num [\<lparr>start = starting_lba pte, psize = ending_lba pte - starting_lba pte + 1\<rparr>];
         let num = num + 1;
         if (if n = 0 then 1 else 0) = num then Some (parts, num)
         else partition_entries guidcmp null_guid lastlba ptes n k (i + 1) parts num
       }
     }"

definition efi_find_partitions ::
  "'s dread \<Rightarrow> u64 \<Rightarrow> (byte list \<Rightarrow> byte list \<Rightarrow> int) \<Rightarrow> byte list \<Rightarrow> gpt_statics \<Rightarrow> 's \<Rightarrow> partition list \<Rightarrow> int
   \<Rightarrow> (int \<times> partition list \<times> nat \<times> gpt_statics \<times> 's) option" where
  "efi_find_partitions dread lastlba guidcmp null_guid st s parts n =
     do {
       (found, st, s) \<leftarrow> find_valid_gpt dread lastlba guidcmp st s;
       (case found of
          None \<Rightarrow> Some (- 1, parts, 0, st, s)
        | Some (gpt, ptes, _) \<Rightarrow> do {
            (parts, num) \<leftarrow> partition_entries guidcmp null_guid lastlba ptes n
              (unat (num_partition_entries gpt)) 0 parts 0;
            Some (0, parts, num, st, s)
          })
     }"

section \<open>Reading a number of bytes from consecutive sectors\<close>

definition sectors_for :: "nat \<Rightarrow> nat" where
  "sectors_for count = (count + 511) div 512"

lemma sectors_for_0 [simp]: "sectors_for 0 = 0"
  by (simp add: sectors_for_def)

lemma sectors_for_step: "0 < count \<Longrightarrow> sectors_for count = Suc (sectors_for (count - min 512 count))"
  by (cases "512 \<le> count") (simp_all add: sectors_for_def min_def le_div_geq)

context block_device
begin

lemma read_lba_loop_ok:
  "inv s \<Longrightarrow> unat lba + sectors_for count \<le> unat nsec \<Longrightarrow> off + count \<le> length buf \<Longrightarrow>
   \<exists>s'. read_lba_loop dread count tot s buf off lba =
     Some (tot + count, put_bytes off (take count (sectors_from med lba (sectors_for count))) buf, s') \<and> inv s'"
proof (induction count arbitrary: tot s buf off lba rule: less_induct)
  case (less count)
  show ?case
  proof (cases "count = 0")
    case True
    then show ?thesis using less.prems by (simp add: read_lba_loop.simps)
  next
    case False
    let ?c = "min 512 count"
    have k: "sectors_for count = Suc (sectors_for (count - ?c))" using False by (simp add: sectors_for_step)
    have lt: "lba < nsec" using less.prems(2) k by (simp add: word_less_nat_alt)
    have le: "unat (lba + 1) + sectors_for (count - ?c) \<le> unat nsec"
      using less.prems(2) k by (intro unat_inc_le) simp
    have len: "length (med lba) = 512" using med_len less.prems(1) lt .
    obtain s1 where s1: "dread s (replicate 512 0) 0 lba = Some (0, med lba, s1)" "inv s1"
      using dread_ok [OF less.prems(1) lt, of 0 "replicate 512 0"] len by auto
    let ?buf = "put_bytes off (take ?c (med lba)) buf"
    have lc: "length (take ?c (med lba)) = ?c" using len by simp
    have wr: "wr buf off (take ?c (med lba)) = Some ?buf" using lc less.prems(3) by (simp add: wr_def)
    have lb: "length ?buf = length buf" using lc less.prems(3) by simp
    obtain s2 where s2: "read_lba_loop dread (count - ?c) (tot + ?c) s1 ?buf (off + ?c) (lba + 1) =
        Some (tot + ?c + (count - ?c), put_bytes (off + ?c)
          (take (count - ?c) (sectors_from med (lba + 1) (sectors_for (count - ?c)))) ?buf, s2)" "inv s2"
      using less.IH [of "count - ?c" s1 "lba + 1" "off + ?c" ?buf "tot + ?c"] False s1(2) le lb less.prems(3)
      by auto
    have "take (count - ?c) (sectors_from med (lba + 1) (sectors_for (count - ?c))) =
        drop ?c (take count (sectors_from med lba (sectors_for count)))"
      using len by (cases "count \<le> 512") (simp_all add: k min_def)
    moreover have "take ?c (med lba) = take ?c (take count (sectors_from med lba (sectors_for count)))"
      using len by (simp add: k)
    moreover have "length (take count (sectors_from med lba (sectors_for count))) \<le> count" by simp
    moreover have "off + length (take ?c (med lba)) + length (drop ?c (take count (sectors_from med lba (sectors_for count))))
        \<le> length buf"
      using lc less.prems(3) by simp
    ultimately have "put_bytes (off + ?c) (take (count - ?c) (sectors_from med (lba + 1) (sectors_for (count - ?c)))) ?buf
        = put_bytes off (take count (sectors_from med lba (sectors_for count))) buf"
      using put_bytes_append [of off "take ?c (med lba)"
          "drop ?c (take count (sectors_from med lba (sectors_for count)))" buf] lc
      by (metis append_take_drop_id)
    with False s1 wr s2 show ?thesis
      by (subst read_lba_loop.simps) (simp add: Let_def)
  qed
qed

end

section \<open>Valid tables\<close>

text \<open>The content of \<open>n\<close> bytes from a sector on.\<close>

definition disk_bytes :: "(u64 \<Rightarrow> byte list) \<Rightarrow> u64 \<Rightarrow> nat \<Rightarrow> byte list" where
  "disk_bytes med lba n = take n (sectors_from med lba (sectors_for n))"

definition entries_size :: "byte list \<Rightarrow> u32" where
  "entries_size g = num_partition_entries g * sizeof_partition_entry g"

text \<open>A header whose checks stay inside the objects: this is what the code does not verify itself.\<close>

definition header_bounded :: "byte list \<Rightarrow> bool" where
  "header_bounded g \<longleftrightarrow> signature g = GPT_HEADER_SIGNATURE \<longrightarrow>
     unat (header_size g) \<le> 512 \<and> entries_size g \<le> PTE_MAX_SIZE"

definition gpt_valid_at :: "(u64 \<Rightarrow> byte list) \<Rightarrow> u64 \<Rightarrow> u64 \<Rightarrow> bool" where
  "gpt_valid_at med lastlba lba \<longleftrightarrow>
     (let g = med lba in
      lba \<le> lastlba \<and> signature g = GPT_HEADER_SIGNATURE \<and> header_bounded g
      \<and> efi_crc32 (put_bytes 16 [0, 0, 0, 0] g) (header_size g) = Some (header_crc32 g)
      \<and> my_lba g = lba \<and> first_usable_lba g \<le> lastlba \<and> last_usable_lba g \<le> lastlba
      \<and> entries_size g \<noteq> 0
      \<and> unat (partition_entry_lba g) + sectors_for (unat (entries_size g)) \<le> unat lastlba + 1
      \<and> efi_crc32 (disk_bytes med (partition_entry_lba g) (unat (entries_size g))) (entries_size g)
        = Some (partition_entry_array_crc32 g))"

lemma efi_crc32_prefix:
  "unat n \<le> length xs \<Longrightarrow> efi_crc32 (xs @ ys) n = efi_crc32 xs n"
  by (simp add: efi_crc32_def crc32_le_fold)

lemma header_field_zeroed:
  assumes "length g = 512"
  shows "header_size (put_bytes 16 [0, 0, 0, 0] g) = header_size g"
  using assms by (simp add: header_size_def field32_def bytes_at_put_before)

lemma restore_crc:
  assumes "length g = 512"
  shows "wr (put_bytes 16 [0, 0, 0, 0] g) 16 (le_bytes 4 (header_crc32 g)) = Some g"
proof -
  have "le_bytes 4 (header_crc32 g) = bytes_at 16 4 g"
    unfolding header_crc32_def field32_def using assms by (intro le_bytes_le_word) simp_all
  then show ?thesis
    using assms put_bytes_overwrite [of "[0, 0, 0, 0]" "bytes_at 16 4 g" 16 g] put_bytes_self [of 16 4 g]
    by (simp add: wr_def del: le_bytes_numeral)
qed

lemma zero_crc: "length g = 512 \<Longrightarrow> wr g 16 (le_bytes 4 (0 :: u32)) = Some (put_bytes 16 [0, 0, 0, 0] g)"
  by (simp add: wr_def)

lemma unat_last: "(n :: u64) \<noteq> 0 \<Longrightarrow> Suc (unat (n - 1)) = unat n"
  by (simp add: unat_minus_one unat_gt_0)

lemma le_last: "(n :: u64) \<noteq> 0 \<Longrightarrow> lba \<le> n - 1 \<longleftrightarrow> lba < n"
  using unat_last [of n] by (auto simp: word_le_nat_alt word_less_nat_alt)

context block_device
begin

lemma length_disk_bytes:
  "inv s \<Longrightarrow> unat lba + sectors_for n \<le> unat nsec \<Longrightarrow> length (disk_bytes med lba n) = n"
  using length_sectors_from [of s lba "sectors_for n"] by (simp add: disk_bytes_def sectors_for_def)

lemma read_lba_ok:
  assumes "inv s" "nsec \<noteq> 0" "count \<noteq> 0" "unat lba + sectors_for (unat count) \<le> unat nsec" "unat count \<le> length buf"
  shows "\<exists>s'. read_lba dread (nsec - 1) s buf lba count =
    Some (count, disk_bytes med lba (unat count) @ drop (unat count) buf, s') \<and> inv s'"
proof -
  have "0 < sectors_for (unat count)" using assms(3) by (simp add: sectors_for_step unat_gt_0)
  then have "lba < nsec" using assms(4) by (simp add: word_less_nat_alt)
  then have "\<not> nsec - 1 < lba" using le_last [OF assms(2), of lba] by (simp add: not_less)
  moreover obtain s' where "read_lba_loop dread (unat count) 0 s buf 0 lba =
      Some (unat count, put_bytes 0 (disk_bytes med lba (unat count)) buf, s')" "inv s'"
    using read_lba_loop_ok [OF assms(1,4), of 0 buf 0] assms(5) by (auto simp: disk_bytes_def)
  ultimately show ?thesis
    using length_disk_bytes [OF assms(1,4)] by (simp add: read_lba_def)
qed

text \<open>Whatever the sectors are, a read into an object that is large enough returns.\<close>

lemma read_lba_loop_total:
  "inv s \<Longrightarrow> off + count \<le> length buf \<Longrightarrow>
   \<exists>n buf' s'. read_lba_loop dread count tot s buf off lba = Some (n, buf', s')
     \<and> inv s' \<and> length buf' = length buf"
proof (induction count arbitrary: tot s buf off lba rule: less_induct)
  case (less count)
  show ?case
  proof (cases "count = 0")
    case True
    then show ?thesis using less.prems by (simp add: read_lba_loop.simps)
  next
    case False
    show ?thesis
    proof (cases "lba < nsec")
      case True
      have len: "length (med lba) = 512" using med_len less.prems(1) True .
      obtain s1 where s1: "dread s (replicate 512 0) 0 lba = Some (0, med lba, s1)" "inv s1"
        using dread_ok [OF less.prems(1) True, of 0 "replicate 512 0"] len by auto
      let ?c = "min 512 count"
      let ?buf = "put_bytes off (take ?c (med lba)) buf"
      have wr: "wr buf off (take ?c (med lba)) = Some ?buf" "length ?buf = length buf"
        using len less.prems(2) by (simp_all add: wr_def)
      from less.IH [of "count - ?c" s1 "off + ?c" ?buf "tot + ?c" "lba + 1"] False s1(2) wr(2) less.prems(2)
      obtain n b' s' where "read_lba_loop dread (count - ?c) (tot + ?c) s1 ?buf (off + ?c) (lba + 1) = Some (n, b', s')"
        "inv s'" "length b' = length buf" by auto
      with False s1 wr show ?thesis by (subst read_lba_loop.simps) (simp add: Let_def)
    next
      case miss: False
      with dread_fails [OF less.prems(1), of lba "replicate 512 0" 0] False show ?thesis
        by (subst read_lba_loop.simps) auto
    qed
  qed
qed

lemma read_lba_total:
  "inv s \<Longrightarrow> unat count \<le> length buf \<Longrightarrow>
   \<exists>n buf' s'. read_lba dread (nsec - 1) s buf lba count = Some (n, buf', s') \<and> inv s' \<and> length buf' = length buf"
  using read_lba_loop_total [of s 0 "unat count" buf 0 lba] by (auto simp: read_lba_def)

lemma sector_bytes: "inv s \<Longrightarrow> lba < nsec \<Longrightarrow> disk_bytes med lba 512 = med lba"
  using med_len by (simp add: disk_bytes_def sectors_for_def)

lemma read_gpt_header_ok:
  assumes "inv s" "lba < nsec" "length gpt = 512"
  shows "\<exists>s'. read_gpt_header dread (nsec - 1) s gpt lba = Some (True, med lba, s') \<and> inv s'"
proof -
  have "nsec \<noteq> 0" using assms(2) by auto
  moreover have "unat lba + sectors_for (unat (512 :: u32)) \<le> unat nsec"
    using assms(2) by (simp add: sectors_for_def word_less_nat_alt)
  ultimately obtain s' where "read_lba dread (nsec - 1) s (replicate 512 0) lba 512 =
      Some (512, disk_bytes med lba 512, s')" "inv s'"
    using read_lba_ok [OF assms(1), of 512 lba "replicate 512 0"] by auto
  then show ?thesis
    using assms sector_bytes by (simp add: read_gpt_header_def wr_def)
qed

lemma read_gpt_entries_ok:
  assumes "inv s" "nsec \<noteq> 0" "entries_size g \<noteq> 0" "entries_size g \<le> PTE_MAX_SIZE"
    "unat (partition_entry_lba g) + sectors_for (unat (entries_size g)) \<le> unat nsec" "length ptes = 131072"
  shows "\<exists>s'. read_gpt_entries dread (nsec - 1) s g ptes = Some (True,
      disk_bytes med (partition_entry_lba g) (unat (entries_size g)) @ drop (unat (entries_size g)) ptes, s') \<and> inv s'"
proof -
  let ?n = "unat (entries_size g)"
  have n: "?n \<le> 131072" using assms(4) by (simp add: PTE_MAX_SIZE_def word_le_nat_alt)
  let ?buf = "replicate ?n 0 @ drop ?n ptes"
  have "\<not> PTE_MAX_SIZE < entries_size g" using assms(4) by simp
  moreover have "wr ptes 0 (replicate ?n 0) = Some ?buf" using n assms(6) by (simp add: wr_def)
  moreover obtain s' where "read_lba dread (nsec - 1) s ?buf (partition_entry_lba g) (entries_size g) =
      Some (entries_size g, disk_bytes med (partition_entry_lba g) ?n @ drop ?n ptes, s')" "inv s'"
    using read_lba_ok [OF assms(1-3,5), of ?buf] by auto
  ultimately show ?thesis
    using assms(3) by (simp add: read_gpt_entries_def Let_def entries_size_def [symmetric])
qed

lemma is_gpt_valid_ok:
  assumes "inv s" "nsec \<noteq> 0" "gpt_valid_at med (nsec - 1) lba" "length gpt = 512" "length ptes = 131072"
  shows "\<exists>s'. is_gpt_valid dread (nsec - 1) s lba gpt ptes = Some (True, med lba,
      disk_bytes med (partition_entry_lba (med lba)) (unat (entries_size (med lba)))
        @ drop (unat (entries_size (med lba))) ptes, s') \<and> inv s'"
proof -
  let ?g = "med lba" and ?n = "unat (entries_size (med lba))"
  note v = assms(3) [unfolded gpt_valid_at_def Let_def]
  have lt: "lba < nsec" using v le_last [OF assms(2)] by simp
  have len: "length ?g = 512" using med_len assms(1) lt .
  have fit: "unat (partition_entry_lba ?g) + sectors_for ?n \<le> unat nsec"
    using v unat_last [OF assms(2)] by simp
  obtain s1 where s1: "read_gpt_header dread (nsec - 1) s gpt lba = Some (True, ?g, s1)" "inv s1"
    using read_gpt_header_ok [OF assms(1) lt assms(4)] by blast
  obtain s2 where s2: "read_gpt_entries dread (nsec - 1) s1 ?g ptes = Some (True,
      disk_bytes med (partition_entry_lba ?g) ?n @ drop ?n ptes, s2)" "inv s2"
    using read_gpt_entries_ok [OF s1(2) assms(2) _ _ fit assms(5)] v by (auto simp: header_bounded_def)
  have "efi_crc32 (disk_bytes med (partition_entry_lba ?g) ?n @ drop ?n ptes) (entries_size ?g)
      = Some (partition_entry_array_crc32 ?g)"
    using v length_disk_bytes [OF assms(1) fit] efi_crc32_prefix
      [of "entries_size ?g" "disk_bytes med (partition_entry_lba ?g) ?n"] by simp
  with v s1 s2 len show ?thesis
    by (simp add: is_gpt_valid_def Let_def zero_crc restore_crc header_field_zeroed not_less
        entries_size_def [symmetric] del: le_bytes_numeral)
qed

lemma read_gpt_entries_total:
  assumes "inv s" "length ptes = 131072"
  shows "\<exists>ok ptes' s'. read_gpt_entries dread (nsec - 1) s g ptes = Some (ok, ptes', s')
    \<and> inv s' \<and> length ptes' = 131072"
proof -
  define c where "c = (if entries_size g > PTE_MAX_SIZE then PTE_MAX_SIZE else entries_size g)"
  have c: "unat c \<le> 131072" by (simp add: c_def PTE_MAX_SIZE_def word_less_nat_alt not_less)
  let ?buf = "replicate (unat c) 0 @ drop (unat c) ptes"
  have w: "wr ptes 0 (replicate (unat c) 0) = Some ?buf" "length ?buf = 131072"
    using c assms(2) by (simp_all add: wr_def)
  obtain n b s' where r: "read_lba dread (nsec - 1) s ?buf (partition_entry_lba g) c = Some (n, b, s')"
      "inv s'" "length b = 131072"
    using read_lba_total [OF assms(1), of c ?buf "partition_entry_lba g"] c w(2) by auto
  show ?thesis
  proof (cases "entries_size g = 0")
    case True
    then show ?thesis using assms by (auto simp: read_gpt_entries_def entries_size_def [symmetric])
  next
    case False
    then have "read_gpt_entries dread (nsec - 1) s g ptes = Some (\<not> n < c, b, s')"
      unfolding read_gpt_entries_def Let_def entries_size_def [symmetric] c_def [symmetric] using w r by simp
    with r show ?thesis by blast
  qed
qed

lemma ex_Not: "\<exists>b. \<not> b" "Ex Not"
  by (rule exI [of _ False]; simp)+

lemma is_gpt_valid_total:
  assumes "inv s" "nsec \<noteq> 0" "lba < nsec \<longrightarrow> header_bounded (med lba)" "length gpt = 512" "length ptes = 131072"
  shows "\<exists>ok gpt' ptes' s'. is_gpt_valid dread (nsec - 1) s lba gpt ptes = Some (ok, gpt', ptes', s') \<and> inv s'"
proof (cases "lba < nsec")
  case False
  then have "nsec - 1 < lba" using le_last [OF assms(2), of lba] by (simp add: not_less [symmetric])
  then have "read_gpt_header dread (nsec - 1) s gpt lba = Some (False, replicate 512 0, s)"
    using assms(4) by (simp add: read_gpt_header_def read_lba_def wr_def)
  with assms(1) show ?thesis by (auto simp: is_gpt_valid_def)
next
  case True
  have len: "length (med lba) = 512" using med_len assms(1) True .
  obtain s1 where s1: "read_gpt_header dread (nsec - 1) s gpt lba = Some (True, med lba, s1)" "inv s1"
    using read_gpt_header_ok [OF assms(1) True assms(4)] by blast
  show ?thesis
  proof (cases "signature (med lba) = GPT_HEADER_SIGNATURE")
    case False
    with s1 show ?thesis by (auto simp: is_gpt_valid_def)
  next
    case sig: True
    then have hb: "unat (header_size (med lba)) \<le> 512" "entries_size (med lba) \<le> PTE_MAX_SIZE"
      using assms(3) True by (auto simp: header_bounded_def)
    obtain c where c: "efi_crc32 (put_bytes 16 [0, 0, 0, 0] (med lba)) (header_size (med lba)) = Some c"
      using hb(1) len by (auto simp: efi_crc32_def crc32_le_fold)
    obtain ok p s2 where s2: "read_gpt_entries dread (nsec - 1) s1 (med lba) ptes = Some (ok, p, s2)"
        "inv s2" "length p = 131072"
      using read_gpt_entries_total [OF s1(2) assms(5)] by blast
    obtain d where d: "efi_crc32 p (entries_size (med lba)) = Some d"
      using hb(2) s2(3) by (auto simp: efi_crc32_def crc32_le_fold PTE_MAX_SIZE_def word_le_nat_alt)
    show ?thesis
      using s1 s2 sig len c d
      by (simp add: is_gpt_valid_def Let_def zero_crc restore_crc header_field_zeroed
          entries_size_def [symmetric] ex_Not del: le_bytes_numeral)
  qed
qed

end

section \<open>The entries\<close>

definition entry_at :: "byte list \<Rightarrow> nat \<Rightarrow> byte list" where
  "entry_at ptes i = bytes_at (128 * i) 128 ptes"

definition entry_partition :: "byte list \<Rightarrow> partition" where
  "entry_partition e = \<lparr>start = starting_lba e, psize = ending_lba e - starting_lba e + 1\<rparr>"

text \<open>The entries from the \<open>i\<close>-th on, \<open>k\<close> of them, that describe a partition.\<close>

definition used_entries ::
  "(byte list \<Rightarrow> byte list \<Rightarrow> int) \<Rightarrow> byte list \<Rightarrow> u64 \<Rightarrow> byte list \<Rightarrow> nat \<Rightarrow> nat \<Rightarrow> byte list list" where
  "used_entries guidcmp null_guid lastlba ptes i k =
     filter (\<lambda>e. is_pte_valid guidcmp null_guid e lastlba) (map (entry_at ptes) [i..<i + k])"

lemma used_entries_0 [simp]: "used_entries guidcmp null_guid lastlba ptes i 0 = []"
  by (simp add: used_entries_def)

lemma used_entries_Suc:
  "used_entries guidcmp null_guid lastlba ptes i (Suc k) =
     (if is_pte_valid guidcmp null_guid (entry_at ptes i) lastlba
      then entry_at ptes i # used_entries guidcmp null_guid lastlba ptes (Suc i) k
      else used_entries guidcmp null_guid lastlba ptes (Suc i) k)"
proof -
  have "[i..<i + Suc k] = i # [Suc i..<Suc i + k]" by (simp only: upt_conv_Cons add_Suc_right add_Suc less_Suc_eq_le le_add1)
  then show ?thesis by (simp add: used_entries_def)
qed

text \<open>The loop appends one partition per used entry, and runs off the array when they do not fit.\<close>

lemma partition_entries_list:
  assumes "n \<noteq> 0"
  shows "128 * (i + k) \<le> length ptes \<Longrightarrow> num \<le> length parts \<Longrightarrow>
    es = used_entries guidcmp null_guid lastlba ptes i k \<Longrightarrow>
    partition_entries guidcmp null_guid lastlba ptes n k i parts num =
      (if num + length es \<le> length parts
       then Some (put_bytes num (map entry_partition es) parts, num + length es) else None)"
proof (induction k arbitrary: i parts num es)
  case (Suc k)
  let ?e = "entry_at ptes i"
  let ?es = "used_entries guidcmp null_guid lastlba ptes (Suc i) k"
  have rd: "rd ptes (128 * i) 128 = Some ?e"
    using Suc.prems by (simp add: rd_def entry_at_def)
  show ?case
  proof (cases "is_pte_valid guidcmp null_guid ?e lastlba")
    case False
    then show ?thesis using rd Suc.IH [of "Suc i" num parts ?es] Suc.prems by (simp add: used_entries_Suc)
  next
    case True
    show ?thesis
    proof (cases "num < length parts")
      case False
      then show ?thesis using rd True Suc.prems by (simp add: wr_def used_entries_Suc)
    next
      case room: True
      let ?parts = "put_bytes num [entry_partition ?e] parts"
      have w: "wr parts num [entry_partition ?e] = Some ?parts" "length ?parts = length parts"
        using room by (simp_all add: wr_def)
      have "put_bytes (Suc num) (map entry_partition ?es) ?parts = put_bytes num (entry_partition ?e # map entry_partition ?es) parts"
        if "Suc num + length ?es \<le> length parts"
        using put_bytes_append [of num "[entry_partition ?e]" "map entry_partition ?es" parts] that by simp
      then show ?thesis
        using rd True w room assms Suc.prems Suc.IH [of "Suc i" "Suc num" ?parts ?es]
        by (simp add: used_entries_Suc entry_partition_def [symmetric])
    qed
  qed
qed simp

section \<open>The partition list\<close>

lemma used_entries_append:
  "128 * (i + k) \<le> length xs \<Longrightarrow>
   used_entries guidcmp null_guid lastlba (xs @ ys) i k = used_entries guidcmp null_guid lastlba xs i k"
proof (induction k arbitrary: i)
  case (Suc k)
  have "entry_at (xs @ ys) i = entry_at xs i"
    using Suc.prems by (simp add: entry_at_def bytes_at_append_left)
  with Suc show ?case by (simp add: used_entries_Suc)
qed simp

definition gpt_statics_ok :: "gpt_statics \<Rightarrow> bool" where
  "gpt_statics_ok st \<longleftrightarrow> length (pgpt st) = 512 \<and> length (agpt st) = 512 \<and> length (pptes st) = 131072
     \<and> length (aptes st) = 131072 \<and> length (legacymbr st) = 512"

text \<open>The partitions that the primary table of a disk describes.\<close>

definition gpt_partitions ::
  "(byte list \<Rightarrow> byte list \<Rightarrow> int) \<Rightarrow> byte list \<Rightarrow> (u64 \<Rightarrow> byte list) \<Rightarrow> u64 \<Rightarrow> partition list" where
  "gpt_partitions guidcmp null_guid med lastlba =
     (let g = med 1; k = unat (num_partition_entries g) in
      map entry_partition
        (used_entries guidcmp null_guid lastlba (disk_bytes med (partition_entry_lba g) (128 * k)) 0 k))"

text \<open>A disk with a protective MBR and a valid primary table whose entries have the usual size.\<close>

definition gpt_disk :: "(u64 \<Rightarrow> byte list) \<Rightarrow> u64 \<Rightarrow> bool" where
  "gpt_disk med lastlba \<longleftrightarrow>
     is_pmbr_valid (med 0) \<and> gpt_valid_at med lastlba 1
     \<and> sizeof_partition_entry (med 1) = 128 \<and> num_partition_entries (med 1) \<le> 1024
     \<and> (alternate_lba (med 1) \<le> lastlba \<longrightarrow> header_bounded (med (alternate_lba (med 1))))"

context block_device
begin

lemma efi_find_partitions_ok:
  assumes "inv s" "nsec \<noteq> 0" "gpt_disk med (nsec - 1)" "gpt_statics_ok st" "n \<noteq> 0"
    and ps: "ps = gpt_partitions guidcmp null_guid med (nsec - 1)"
  shows "\<exists>st' s'. efi_find_partitions dread (nsec - 1) guidcmp null_guid st s parts n =
      (if length ps \<le> length parts then Some (0, ps @ drop (length ps) parts, length ps, st', s') else None)
    \<and> inv s'"
proof -
  note d = assms(3) [unfolded gpt_disk_def] and st = assms(4) [unfolded gpt_statics_ok_def]
  let ?g = "med 1" let ?k = "unat (num_partition_entries ?g)" and ?n = "unat (entries_size (med 1))"
  have lt: "0 < nsec" "1 < nsec"
    using assms(2) d le_last [OF assms(2), of 1] by (simp_all add: word_gt_0 gpt_valid_at_def Let_def)
  have k: "?k \<le> 1024" using d by (simp add: word_le_nat_alt)
  have n: "?n = 128 * ?k"
    using d k by (simp add: entries_size_def unat_word_ariths)
  have fit: "unat (partition_entry_lba ?g) + sectors_for ?n \<le> unat nsec"
    using d unat_last [OF assms(2)] by (simp add: gpt_valid_at_def Let_def)
  obtain s1 where s1: "read_lba dread (nsec - 1) s (replicate 512 0) 0 512 = Some (512, med 0, s1)" "inv s1"
    using read_lba_ok [OF assms(1,2), of 512 0 "replicate 512 0"] sector_bytes [OF assms(1) lt(1)] lt(1)
    by (auto simp: sectors_for_def word_less_nat_alt)
  let ?ents = "disk_bytes med (partition_entry_lba ?g) ?n"
  obtain s2 where s2: "is_gpt_valid dread (nsec - 1) s1 1 (pgpt st) (pptes st) =
      Some (True, ?g, ?ents @ drop ?n (pptes st), s2)" "inv s2"
    using is_gpt_valid_ok [OF s1(2) assms(2), of 1 "pgpt st" "pptes st"] d st by auto
  obtain ok g' e' s3 where s3: "is_gpt_valid dread (nsec - 1) s2 (alternate_lba ?g) (agpt st) (aptes st) =
      Some (ok, g', e', s3)" "inv s3"
    using is_gpt_valid_total [OF s2(2) assms(2), of "alternate_lba ?g" "agpt st" "aptes st"] d st
      le_last [OF assms(2)] by auto
  obtain st' m where f: "find_valid_gpt dread (nsec - 1) guidcmp st s =
      Some (Some (?g, ?ents @ drop ?n (pptes st), m), st', s3)"
    using s1 s2 s3 st d
    by (simp add: find_valid_gpt_def wr_def Let_def GPT_PRIMARY_PARTITION_TABLE_LBA_def)
  have len: "length ?ents = 128 * ?k" using length_disk_bytes [OF assms(1) fit] n by simp
  define es where "es = used_entries guidcmp null_guid (nsec - 1) (?ents @ drop ?n (pptes st)) 0 ?k"
  have p: "ps = map entry_partition es"
    using len unfolding ps gpt_partitions_def Let_def es_def by (simp add: used_entries_append n)
  have "partition_entries guidcmp null_guid (nsec - 1) (?ents @ drop ?n (pptes st)) n ?k 0 parts 0 =
      (if length ps \<le> length parts then Some (ps @ drop (length ps) parts, length ps) else None)"
    using partition_entries_list [OF assms(5), of 0 ?k "?ents @ drop ?n (pptes st)" 0 parts es] len
    by (simp add: p es_def)
  with f s3(2) show ?thesis
    by (intro exI [of _ st'] exI [of _ s3]) (simp add: efi_find_partitions_def)
qed

end

text \<open>
  C4: On a disk with a protective MBR and a valid primary GUID partition table (signature, header
  CRC, own position, usable range and entry array CRC all right, entries of 128 bytes, at most
  1024 of them), \<open>efi_find_partitions\<close> returns 0 and stores, in order, the start and the size of
  exactly the entries in use.  When the table has more entries in use than the caller's array has
  elements, it writes past the array: the count passed in is never obeyed.\<close>

theorem efi_find_partitions_correct:
  assumes "ide_serves io view geo media info m s" "cache_ok m (media (i_slave info)) s"
    "m \<noteq> 0" "gpt_disk (\<lambda>k. media (i_slave info) (unat k)) (m - 1)" "gpt_statics_ok st" "n \<noteq> 0"
    "ps = gpt_partitions guidcmp null_guid (\<lambda>k. media (i_slave info) (unat k)) (m - 1)"
  shows "\<exists>st' s'. efi_find_partitions (disk_read io) (m - 1) guidcmp null_guid st s parts n =
      (if length ps \<le> length parts then Some (0, ps @ drop (length ps) parts, length ps, st', s') else None)
    \<and> ide_serves io view geo media info m s' \<and> cache_ok m (media (i_slave info)) s'"
  using ide.efi_find_partitions_ok [of io view geo media info m s st n ps guidcmp null_guid parts] assms
  by (simp add: disk_read_def ide_cached_iff)

section \<open>A disk with one partition\<close>

definition sample_mbr :: "byte list" where
  "sample_mbr = replicate 446 0 @ [0, 0, 0, 0, 0xEE, 0, 0, 0, 1, 0, 0, 0, 0xFF, 0xFF, 0xFF, 0xFF]
     @ replicate 48 0 @ [0x55, 0xAA]"

definition sample_entry :: "byte list" where
  "sample_entry = replicate 16 0xAF @ replicate 16 0x01 @ le_bytes 8 (40 :: u64) @ le_bytes 8 (139 :: u64)
     @ replicate 80 0"

definition sample_header :: "u32 \<Rightarrow> u32 \<Rightarrow> byte list" where
  "sample_header crc array_crc =
     le_bytes 8 GPT_HEADER_SIGNATURE @ le_bytes 4 (0x10000 :: u32) @ le_bytes 4 (92 :: u32) @ le_bytes 4 crc
     @ replicate 4 0 @ le_bytes 8 (1 :: u64) @ le_bytes 8 (999 :: u64) @ le_bytes 8 (34 :: u64)
     @ le_bytes 8 (900 :: u64) @ replicate 16 0x77 @ le_bytes 8 (2 :: u64) @ le_bytes 4 (1 :: u32)
     @ le_bytes 4 (128 :: u32) @ le_bytes 4 array_crc @ replicate 420 0"

definition sample_array_crc :: u32 where
  "sample_array_crc = the (efi_crc32 sample_entry 128)"

definition sample_header_crc :: u32 where
  "sample_header_crc = the (efi_crc32 (sample_header 0 sample_array_crc) 92)"

definition gpt_media :: media where
  "gpt_media d k =
     (if k = 0 then sample_mbr
      else if k = 1 then sample_header sample_header_crc sample_array_crc
      else if k = 2 then sample_entry @ replicate 384 0
      else if k < 1000 then replicate 512 0 else [])"

lemma length_sample_header [simp]: "length (sample_header c d) = 512"
  by (simp add: sample_header_def del: le_bytes_numeral)

lemma length_sample_entry [simp]: "length sample_entry = 128"
  by (simp add: sample_entry_def)

lemma sample_header_fields:
  "signature (sample_header c d) = GPT_HEADER_SIGNATURE" "header_size (sample_header c d) = 92"
  "header_crc32 (sample_header c d) = c" "my_lba (sample_header c d) = 1" "alternate_lba (sample_header c d) = 999"
  "first_usable_lba (sample_header c d) = 34" "last_usable_lba (sample_header c d) = 900"
  "partition_entry_lba (sample_header c d) = 2" "num_partition_entries (sample_header c d) = 1"
  "sizeof_partition_entry (sample_header c d) = 128" "partition_entry_array_crc32 (sample_header c d) = d"
  by (simp_all add: signature_def header_size_def header_crc32_def my_lba_def alternate_lba_def first_usable_lba_def
      last_usable_lba_def partition_entry_lba_def num_partition_entries_def sizeof_partition_entry_def
      partition_entry_array_crc32_def field64_def field32_def sample_header_def buffer_simps layout_simps
      del: le_bytes_numeral)

lemma sample_header_zeroed: "put_bytes 16 [0, 0, 0, 0] (sample_header c d) = sample_header 0 d"
proof -
  have z: "le_bytes 4 (0 :: u32) = [0, 0, 0, 0]" by simp
  show ?thesis unfolding sample_header_def z by (simp add: put_bytes_def del: le_bytes_numeral)
qed

lemma efi_crc32_Some: "unat n \<le> length b \<Longrightarrow> efi_crc32 b n = Some (the (efi_crc32 b n))"
  by (simp add: efi_crc32_def crc32_le_fold)

lemma sample_pmbr: "is_pmbr_valid sample_mbr"
proof -
  have "mbr_signature sample_mbr = MSDOS_MBR_SIGNATURE"
    by (simp add: mbr_signature_def field16_def sample_mbr_def buffer_simps MSDOS_MBR_SIGNATURE_def bytes_at_def)
  moreover have "partition_record sample_mbr 0 = [0, 0, 0, 0, 0xEE, 0, 0, 0, 1, 0, 0, 0, 0xFF, 0xFF, 0xFF, 0xFF]"
    by (simp add: partition_record_def sample_mbr_def buffer_simps bytes_at_def)
  then have "pmbr_part_valid (partition_record sample_mbr 0)"
    by (simp add: pmbr_part_valid_def sys_ind_def start_sect_def field32_def bytes_at_def EFI_PMBR_OSTYPE_EFI_GPT_def)
  ultimately show ?thesis unfolding is_pmbr_valid_def by auto
qed

lemma le_word_zeros: "le_word (replicate n 0) = 0"
  using le_word_append_zeros [of "[]" n] by simp

lemma sample_gpt_disk: "gpt_disk (\<lambda>k. gpt_media 0 (unat k)) 999"
proof -
  let ?g = "sample_header sample_header_crc sample_array_crc"
  have m: "gpt_media 0 0 = sample_mbr" "gpt_media 0 (Suc 0) = ?g" "gpt_media 0 999 = replicate 512 0"
    by (simp_all add: gpt_media_def)
  have n: "entries_size ?g = 128" by (simp add: entries_size_def sample_header_fields)
  have e: "disk_bytes (\<lambda>k. gpt_media 0 (unat k)) 2 128 = sample_entry"
    by (simp add: disk_bytes_def sectors_for_def gpt_media_def)
  have c: "efi_crc32 (sample_header 0 sample_array_crc) 92 = Some sample_header_crc"
    "efi_crc32 sample_entry 128 = Some sample_array_crc"
    unfolding sample_header_crc_def sample_array_crc_def by (rule efi_crc32_Some, simp)+
  have "gpt_valid_at (\<lambda>k. gpt_media 0 (unat k)) 999 1"
    by (simp add: gpt_valid_at_def m n e c sample_header_fields sample_header_zeroed header_bounded_def
        PTE_MAX_SIZE_def sectors_for_def word_le_nat_alt)
  moreover have "header_bounded (gpt_media 0 999)"
    by (simp add: m header_bounded_def signature_def field64_def bytes_at_def GPT_HEADER_SIGNATURE_def le_word_zeros)
  ultimately show ?thesis
    using sample_pmbr by (simp add: gpt_disk_def m sample_header_fields word_le_nat_alt)
qed

definition fresh_statics :: gpt_statics where
  "fresh_statics = \<lparr>pgpt = replicate 512 0, agpt = replicate 512 0, pptes = replicate 131072 0,
     aptes = replicate 131072 0, legacymbr = replicate 512 0\<rparr>"

definition guid_compare :: "byte list \<Rightarrow> byte list \<Rightarrow> int" where
  "guid_compare a b = (if a = b then 0 else 1)"

lemma sample_partitions:
  "gpt_partitions guid_compare (replicate 16 0) (\<lambda>k. gpt_media 0 (unat k)) 999 = [\<lparr>start = 40, psize = 100\<rparr>]"
proof -
  let ?g = "sample_header sample_header_crc sample_array_crc"
  have m: "gpt_media 0 (Suc 0) = ?g" by (simp add: gpt_media_def)
  have e: "disk_bytes (\<lambda>k. gpt_media 0 (unat k)) 2 128 = sample_entry"
    by (simp add: disk_bytes_def sectors_for_def gpt_media_def)
  have f: "entry_at sample_entry 0 = sample_entry" by (simp add: entry_at_def)
  have t: "partition_type_guid sample_entry = replicate 16 0xAF" "starting_lba sample_entry = 40"
    "ending_lba sample_entry = 139"
    by (simp_all add: partition_type_guid_def starting_lba_def ending_lba_def field64_def sample_entry_def
        buffer_simps layout_simps del: le_bytes_numeral)
  have "is_pte_valid guid_compare (replicate 16 0) sample_entry 999"
    by (simp add: is_pte_valid_def t guid_compare_def replicate_numeral word_less_nat_alt)
  then show ?thesis
    using used_entries_Suc [of guid_compare "replicate 16 0" 999 sample_entry 0 0]
    by (simp add: gpt_partitions_def m sample_header_fields e f entry_partition_def t)
qed

lemma gpt_serves:
  "ide_serves (drive_io geo gpt_media) drive_view geo gpt_media sample_info 1000 sample_machine"
  by (rule sample_serves) (auto simp: gpt_media_def sample_mbr_def)

theorem efi_find_partitions_correct_witness:
  "\<exists>st' s'. efi_find_partitions (disk_read (drive_io (16, 63) gpt_media)) 999 guid_compare (replicate 16 0)
      fresh_statics sample_machine (replicate 16 \<lparr>start = 0, psize = 0\<rparr>) 16
    = Some (0, \<lparr>start = 40, psize = 100\<rparr> # replicate 15 \<lparr>start = 0, psize = 0\<rparr>, 1, st', s')"
proof -
  have i: "i_slave sample_info = 0" by (simp add: sample_info_def memset_info_def)
  have "gpt_statics_ok fresh_statics" by (simp add: gpt_statics_ok_def fresh_statics_def)
  then show ?thesis
    using efi_find_partitions_correct [OF gpt_serves [of "(16, 63)"] sample_cache _ _ _ _ refl, of fresh_statics 16
        guid_compare "replicate 16 0" "replicate 16 \<lparr>start = 0, psize = 0\<rparr>"] sample_gpt_disk sample_partitions
    by (auto simp: i)
qed

text \<open>
  The size that a header claims for itself is not checked before its CRC is computed: a
  header with the right signature and a claimed size over 512 bytes makes the check read past
  the header object.\<close>

theorem is_gpt_valid_header_size_overrun:
  assumes "read_gpt_header dread lastlba s gpt lba = Some (True, g, s')" "length g = 512"
    "signature g = GPT_HEADER_SIGNATURE" "512 < header_size g"
  shows "is_gpt_valid dread lastlba s lba gpt ptes = None"
proof -
  have "efi_crc32 (put_bytes 16 [0, 0, 0, 0] g) (header_size g) = None"
    using assms(2,4) by (simp add: efi_crc32_def crc32_le_short word_less_nat_alt)
  with assms show ?thesis
    by (simp add: is_gpt_valid_def Let_def zero_crc header_field_zeroed del: le_bytes_numeral)
qed

definition long_header :: "byte list" where
  "long_header = le_bytes 8 GPT_HEADER_SIGNATURE @ replicate 4 0 @ le_bytes 4 (513 :: u32) @ replicate 496 0"

theorem is_gpt_valid_header_size_overrun_witness:
  "is_gpt_valid (\<lambda>s b off k. Some (0, long_header, s)) 9 () 1 (replicate 512 0) [] = None"
proof (rule is_gpt_valid_header_size_overrun)
  have l: "length long_header = 512" by (simp add: long_header_def del: le_bytes_numeral)
  then show "read_gpt_header (\<lambda>s b off k. Some (0, long_header, s)) 9 () (replicate 512 0) 1 = Some (True, long_header, ())"
    by (simp add: read_gpt_header_def read_lba_def wr_def read_lba_loop.simps)
  show "length long_header = 512" by (rule l)
  show "signature long_header = GPT_HEADER_SIGNATURE" "512 < header_size long_header"
    by (simp_all add: signature_def header_size_def field64_def field32_def long_header_def buffer_simps
        layout_simps del: le_bytes_numeral)
qed

end
