(* ===== verification/Ext2.thy ===== *)
theory Ext2
  imports Cstring Partition "HOL-Library.Signed_Division"
begin

text \<open>
  The read-only ext2 file system of \<^verbatim>\<open>src/main/e2/ext2fs.c\<close>.  The volume below is an argument: the
  partition read routine and the allocator (\<open>bl_malloc\<close>, whose file is not part of the tree), in a
  record of type \<open>'s volume_ops\<close>.  Structures that come from the disk are byte objects with the
  layout of \<^verbatim>\<open>src/main/e2/ext2_fs.h\<close>; \<open>int\<close>, \<open>long\<close> and \<open>unsigned\<close> quantities are 32-bit words.
\<close>

section \<open>Layouts\<close>

definition s_blocks_count :: "byte list \<Rightarrow> u32" where "s_blocks_count sb = field32 4 sb"
definition s_first_data_block :: "byte list \<Rightarrow> u32" where "s_first_data_block sb = field32 20 sb"
definition s_log_block_size :: "byte list \<Rightarrow> u32" where "s_log_block_size sb = field32 24 sb"
definition s_blocks_per_group :: "byte list \<Rightarrow> u32" where "s_blocks_per_group sb = field32 32 sb"
definition s_inodes_per_group :: "byte list \<Rightarrow> u32" where "s_inodes_per_group sb = field32 40 sb"
definition s_magic :: "byte list \<Rightarrow> u16" where "s_magic sb = field16 56 sb"
definition s_rev_level :: "byte list \<Rightarrow> u32" where "s_rev_level sb = field32 76 sb"
definition s_inode_size :: "byte list \<Rightarrow> u16" where "s_inode_size sb = field16 88 sb"

definition EXT2_SUPER_MAGIC :: u16 where "EXT2_SUPER_MAGIC = 0xEF53"
definition EXT2_ROOT_INO :: u32 where "EXT2_ROOT_INO = 2"
definition EXT2_MIN_BLOCK_SIZE :: u32 where "EXT2_MIN_BLOCK_SIZE = 1024"
definition EXT2_MAX_BLOCK_SIZE :: nat where "EXT2_MAX_BLOCK_SIZE = 4096"
definition EXT2_NDIR_BLOCKS :: u32 where "EXT2_NDIR_BLOCKS = 12"
definition EXT2_IND_BLOCK :: nat where "EXT2_IND_BLOCK = 12"
definition EXT2_DIND_BLOCK :: nat where "EXT2_DIND_BLOCK = 13"
definition MAX_OPEN_FILES :: nat where "MAX_OPEN_FILES = 32"
definition EXT2FS_PATH_MAXLEN :: nat where "EXT2FS_PATH_MAXLEN = 4095"

text \<open>A shift by 32 or more is undefined in C; the i386 shift instruction uses the count modulo 32.\<close>

definition EXT2_BLOCK_SIZE :: "byte list \<Rightarrow> u32" where
  "EXT2_BLOCK_SIZE sb = push_bit (unat (s_log_block_size sb) mod 32) EXT2_MIN_BLOCK_SIZE"

definition EXT2_INODE_SIZE :: "byte list \<Rightarrow> u32" where
  "EXT2_INODE_SIZE sb = (if s_rev_level sb = 0 then 128 else ucast (s_inode_size sb))"

definition bg_inode_table :: "byte list \<Rightarrow> u32" where "bg_inode_table gd = field32 8 gd"

definition i_mode :: "byte list \<Rightarrow> u16" where "i_mode ip = field16 0 ip"
definition i_uid :: "byte list \<Rightarrow> u16" where "i_uid ip = field16 2 ip"
definition i_size :: "byte list \<Rightarrow> u32" where "i_size ip = field32 4 ip"
definition i_atime :: "byte list \<Rightarrow> u32" where "i_atime ip = field32 8 ip"
definition i_ctime :: "byte list \<Rightarrow> u32" where "i_ctime ip = field32 12 ip"
definition i_mtime :: "byte list \<Rightarrow> u32" where "i_mtime ip = field32 16 ip"
definition i_gid :: "byte list \<Rightarrow> u16" where "i_gid ip = field16 24 ip"
definition i_links_count :: "byte list \<Rightarrow> u16" where "i_links_count ip = field16 26 ip"
definition i_blocks :: "byte list \<Rightarrow> u32" where "i_blocks ip = field32 28 ip"
definition i_block :: "byte list \<Rightarrow> nat \<Rightarrow> u32" where "i_block ip k = field32 (40 + 4 * k) ip"

definition S_ISLNK :: "u16 \<Rightarrow> bool" where "S_ISLNK m \<longleftrightarrow> m AND 0xF000 = 0xA000"

section \<open>State\<close>

record inode_entry =
  e_inode :: "byte list"
  inumber :: u32
  bl_free :: bool
  old_mode :: u16
  pos :: u32

text \<open>
  The private state with the file's statics: \<open>this_open\<close> tells whether \<open>this\<close> points to it,
  \<open>diroffset\<close> and \<open>blockoffset\<close> belong to \<open>ext2_readdiri\<close>, \<open>tok_last\<close> to \<open>strtok_simple\<close>.  \<open>namebuf\<close> is the
  name object of the caller of \<open>ext2fs_open\<close> and \<open>fullname\<close> the local array of \<open>ext2_follow_link\<close>.
\<close>

record e2fs =
  this_open :: bool
  sb :: "byte list"
  gds :: "byte list"
  root_inode :: "nat option"
  ngroups :: u32
  directlim :: u32
  ind1lim :: u32
  ind2lim :: u32
  ptrs_per_blk :: u32
  blkbuf :: "byte list"
  cached_iblkno :: u32
  iblkbuf :: "byte list"
  cached_diblkno :: u32
  diblkbuf :: "byte list"
  blocksize :: u32
  inode_table :: "inode_entry list"
  diroffset :: u32
  blockoffset :: u32
  namebuf :: "byte list"
  fullname :: "byte list"
  tok_last :: "nat option"

record 's volume_ops =
  pread :: "'s \<Rightarrow> byte list \<Rightarrow> nat \<Rightarrow> u64 \<Rightarrow> u64 \<Rightarrow> (int \<times> byte list \<times> 's) option"
  bl_malloc :: "u32 \<Rightarrow> byte list option"

section \<open>Bytes of the volume\<close>

text \<open>
  The destination is an object and an offset into it.  A failed allocation or a short read leaves
  it unchanged.
\<close>

definition read_bytes ::
  "'s volume_ops \<Rightarrow> 's \<Rightarrow> u32 \<Rightarrow> byte list \<Rightarrow> nat \<Rightarrow> u32 \<Rightarrow> (int \<times> byte list \<times> 's) option" where
  "read_bytes v s offset addr aoff sz =
     (let base = ucast (offset div 512) :: u64;
          count = (sz + 511) div 512;
          buffer_size = count * 512
      in case bl_malloc v buffer_size of
           None \<Rightarrow> Some (- 1, addr, s)
         | Some buffer \<Rightarrow> do {
             (r, buffer, s) \<leftarrow> pread v s buffer 0 base (ucast count);
             if (of_int r :: u32) \<noteq> count then Some (- 1, addr, s)
             else do {
               data \<leftarrow> rd buffer (unat (ucast offset - base * 512)) (unat sz);
               addr \<leftarrow> wr addr aoff data;
               Some (0, addr, s)
             }
           })"

section \<open>Inodes\<close>

fun first_free :: "inode_entry list \<Rightarrow> nat \<Rightarrow> nat option" where
  "first_free [] i = None"
| "first_free (x # xs) i = (if bl_free x then Some i else first_free xs (i + 1))"

definition ext2_iget :: "'s volume_ops \<Rightarrow> e2fs \<Rightarrow> 's \<Rightarrow> u32 \<Rightarrow> (nat option \<times> e2fs \<times> 's) option" where
  "ext2_iget v e s ino =
     (case first_free (inode_table e) 0 of
        None \<Rightarrow> Some (None, e, s)
      | Some i \<Rightarrow> do {
          require (s_inodes_per_group (sb e) \<noteq> 0);
          let group = (ino - 1) div s_inodes_per_group (sb e);
          gd \<leftarrow> rd (gds e) (32 * unat group) 32;
          let offset = bg_inode_table gd * blocksize e
            + ((ino - 1) mod s_inodes_per_group (sb e)) * EXT2_INODE_SIZE (sb e);
          (r, ip, s) \<leftarrow> read_bytes v s offset (e_inode (inode_table e ! i)) 0 128;
          if r \<noteq> 0 then Some (None, e, s)
          else
            let itp = (inode_table e ! i)\<lparr>e_inode := ip, bl_free := False, inumber := ino, old_mode := i_mode ip\<rparr>
            in Some (Some i, e\<lparr>inode_table := (inode_table e)[i := itp]\<rparr>, s)
        })"

definition ext2_iput :: "e2fs \<Rightarrow> nat \<Rightarrow> e2fs" where
  "ext2_iput e i =
     e\<lparr>inode_table := (inode_table e)[i := (inode_table e ! i)\<lparr>inumber := 0, bl_free := True\<rparr>]\<rparr>"

section \<open>The block map\<close>

text \<open>Fetching an indirect block through its one-block cache; \<open>False\<close> when the read fails.\<close>

definition load_iblk :: "'s volume_ops \<Rightarrow> e2fs \<Rightarrow> 's \<Rightarrow> u32 \<Rightarrow> (bool \<times> e2fs \<times> 's) option" where
  "load_iblk v e s iblkno =
     (if cached_iblkno e = iblkno then Some (True, e, s)
      else do {
        (r, buf, s) \<leftarrow> read_bytes v s (iblkno * blocksize e) (iblkbuf e) 0 (blocksize e);
        if r \<noteq> 0 then Some (False, e, s)
        else Some (True, e\<lparr>iblkbuf := buf, cached_iblkno := iblkno\<rparr>, s)
      })"

definition load_diblk :: "'s volume_ops \<Rightarrow> e2fs \<Rightarrow> 's \<Rightarrow> u32 \<Rightarrow> (bool \<times> e2fs \<times> 's) option" where
  "load_diblk v e s diblkno =
     (if cached_diblkno e = diblkno then Some (True, e, s)
      else do {
        (r, buf, s) \<leftarrow> read_bytes v s (diblkno * blocksize e) (diblkbuf e) 0 (blocksize e);
        if r \<noteq> 0 then Some (False, e, s)
        else Some (True, e\<lparr>diblkbuf := buf, cached_diblkno := diblkno\<rparr>, s)
      })"

definition ext2_blkno :: "'s volume_ops \<Rightarrow> e2fs \<Rightarrow> 's \<Rightarrow> byte list \<Rightarrow> u32 \<Rightarrow> (u32 \<times> e2fs \<times> 's) option" where
  "ext2_blkno v e s ip blkoff =
     (if sint blkoff \<le> sint (directlim e) then do {
        require (0 \<le> sint blkoff);
        Some (i_block ip (unat blkoff), e, s)
      }
      else if sint blkoff \<le> sint (ind1lim e) then
        let iblkno = i_block ip EXT2_IND_BLOCK in
        if iblkno = 0 then Some (0, e, s)
        else do {
          (ok, e, s) \<leftarrow> load_iblk v e s iblkno;
          if \<not> ok then Some (0, e, s)
          else do {
            p \<leftarrow> rd (iblkbuf e) (4 * unat (blkoff - (directlim e + 1))) 4;
            Some (le_word p, e, s)
          }
        }
      else if sint blkoff \<le> sint (ind2lim e) then
        let diblkno = i_block ip EXT2_DIND_BLOCK in
        if diblkno = 0 then Some (0, e, s)
        else do {
          (ok, e, s) \<leftarrow> load_diblk v e s diblkno;
          if \<not> ok then Some (0, e, s)
          else do {
            require (ptrs_per_blk e \<noteq> 0);
            p \<leftarrow> rd (diblkbuf e) (4 * unat ((blkoff - (ind1lim e + 1)) div ptrs_per_blk e)) 4;
            let iblkno = le_word p;
            if iblkno = 0 then Some (0, e, s)
            else do {
              (ok, e, s) \<leftarrow> load_iblk v e s iblkno;
              if \<not> ok then Some (0, e, s)
              else do {
                p \<leftarrow> rd (iblkbuf e) (4 * unat ((blkoff - (ind1lim e + 1)) mod ptrs_per_blk e)) 4;
                Some (le_word p, e, s)
              }
            }
          }
        }
      else Some (0, e, s))"

section \<open>Reading blocks of a file\<close>

text \<open>
  The inner loop that extends a contiguous run; the last argument is \<open>nblks\<close>, which only
  decreases.  The result is the new \<open>blkno\<close>, the number of bytes of the run and the rest of \<open>nblks\<close>.
\<close>

fun contiguous_run ::
  "'s volume_ops \<Rightarrow> e2fs \<Rightarrow> 's \<Rightarrow> byte list \<Rightarrow> u32 \<Rightarrow> u32 \<Rightarrow> u32 \<Rightarrow> u32 \<Rightarrow> nat \<Rightarrow> (u32 \<times> u32 \<times> nat \<times> e2fs \<times> 's) option" where
  "contiguous_run v e s ip dev_blkno blkno ncontig nbytes 0 = None"
| "contiguous_run v e s ip dev_blkno blkno ncontig nbytes (Suc nblks) =
     (let blkno = blkno + 1; ncontig = ncontig + 1; nbytes = nbytes + blocksize e in
      if nblks = 0 then Some (blkno, nbytes, nblks, e, s)
      else do {
        (b, e, s) \<leftarrow> ext2_blkno v e s ip blkno;
        if b = dev_blkno + ncontig then contiguous_run v e s ip dev_blkno blkno ncontig nbytes nblks
        else Some (blkno, nbytes, nblks, e, s)
      })"

lemma contiguous_run_decreases:
  "contiguous_run v e s ip dev_blkno blkno ncontig nbytes n = Some (blkno', nbytes', n', e', s') \<Longrightarrow> n' < n"
proof (induction n arbitrary: e s blkno ncontig nbytes)
  case (Suc n)
  then show ?case by (fastforce simp: Let_def bind_eq_Some_conv split: if_splits intro: less_SucI)
qed simp

function breadi_loop ::
  "'s volume_ops \<Rightarrow> e2fs \<Rightarrow> 's \<Rightarrow> byte list \<Rightarrow> u32 \<Rightarrow> nat \<Rightarrow> byte list \<Rightarrow> nat \<Rightarrow> u32 \<Rightarrow> (int \<times> byte list \<times> e2fs \<times> 's) option" where
  "breadi_loop v e s ip blkno nblks buffer boff tot_bytes =
     (if nblks = 0 then Some (sint tot_bytes, buffer, e, s)
      else do {
        (dev_blkno, e, s) \<leftarrow> ext2_blkno v e s ip blkno;
        run \<leftarrow> contiguous_run v e s ip dev_blkno blkno 0 0 nblks;
        (case run of (blkno, nbytes, nblks, e, s) \<Rightarrow>
          if dev_blkno = 0 then do {
            buffer \<leftarrow> wr buffer boff (replicate (unat nbytes) 0);
            breadi_loop v e s ip blkno nblks buffer (boff + unat nbytes) (tot_bytes + nbytes)
          }
          else do {
            (r, buffer, s) \<leftarrow> read_bytes v s (dev_blkno * blocksize e) buffer boff nbytes;
            if r \<noteq> 0 then Some (- 1, buffer, e, s)
            else breadi_loop v e s ip blkno nblks buffer (boff + unat nbytes) (tot_bytes + nbytes)
          })
      })"
  by pat_completeness auto
termination
  by (relation "measure (\<lambda>(v, e, s, ip, blkno, nblks, buffer, boff, tot). nblks)")
    (auto dest: contiguous_run_decreases)

declare breadi_loop.simps [simp del]

definition ext2_breadi ::
  "'s volume_ops \<Rightarrow> e2fs \<Rightarrow> 's \<Rightarrow> byte list \<Rightarrow> u32 \<Rightarrow> u32 \<Rightarrow> byte list \<Rightarrow> nat \<Rightarrow> (int \<times> byte list \<times> e2fs \<times> 's) option" where
  "ext2_breadi v e s ip blkno nblks buffer boff =
     do {
       nblks \<leftarrow>
         (if (blkno + nblks) * blocksize e > i_size ip then do {
            require (blocksize e \<noteq> 0);
            Some ((i_size ip + blocksize e) div blocksize e - blkno)
          }
          else Some nblks);
       breadi_loop v e s ip blkno (unat nblks) buffer boff 0
     }"

section \<open>Directories\<close>

text \<open>An entry is an offset into \<open>blkbuf\<close>.\<close>

definition rec_len :: "byte list \<Rightarrow> nat \<Rightarrow> u16 option" where
  "rec_len buf dp = map_option le_word (rd buf (dp + 4) 2)"
definition name_len :: "byte list \<Rightarrow> nat \<Rightarrow> byte option" where
  "name_len buf dp = rd1 buf (dp + 6)"
definition d_inode :: "byte list \<Rightarrow> nat \<Rightarrow> u32 option" where
  "d_inode buf dp = map_option le_word (rd buf dp 4)"

definition ext2_readdiri ::
  "'s volume_ops \<Rightarrow> e2fs \<Rightarrow> 's \<Rightarrow> byte list \<Rightarrow> bool \<Rightarrow> (nat option \<times> e2fs \<times> 's) option" where
  "ext2_readdiri v e s dir_inode rewind =
     do {
       (failed, e, s) \<leftarrow>
         (if rewind then do {
            let e = e\<lparr>diroffset := 0, blockoffset := 0\<rparr>;
            (r, buf, e, s) \<leftarrow> ext2_breadi v e s dir_inode 0 1 (blkbuf e) 0;
            Some (r < 0, e\<lparr>blkbuf := buf\<rparr>, s)
          }
          else Some (False, e, s));
       if failed then Some (None, e, s)
       else do {
         (stop, e, s) \<leftarrow>
           (if sint (blockoffset e) \<ge> sint (blocksize e) then do {
              let e = e\<lparr>diroffset := diroffset e + blocksize e\<rparr>;
              if diroffset e \<ge> i_size dir_inode then Some (True, e, s)
              else do {
                require (blocksize e \<noteq> 0);
                (r, buf, e, s) \<leftarrow> ext2_breadi v e s dir_inode (of_int (sint (diroffset e) sdiv sint (blocksize e))) 1
                  (blkbuf e) 0;
                if r < 0 then Some (True, e\<lparr>blkbuf := buf\<rparr>, s)
                else Some (False, e\<lparr>blkbuf := buf, blockoffset := 0\<rparr>, s)
              }
            }
            else Some (False, e, s));
         if stop then Some (None, e, s)
         else do {
           let dp = unat (blockoffset e);
           len \<leftarrow> rec_len (blkbuf e) dp;
           Some (Some dp, e\<lparr>blockoffset := blockoffset e + ucast len\<rparr>, s)
         }
       }
     }"

text \<open>
  The name that \<open>ext2_namei\<close> tokenises in place lives in one of four objects: the caller's, the
  local \<open>fullname\<close>, the block buffer (the target of a long symbolic link) or the block pointers of an
  inode in the table (the target of a short one).
\<close>

datatype name_object = Caller_name | Full_name | Block_buffer | Inode_blocks nat

fun name_get :: "e2fs \<Rightarrow> name_object \<Rightarrow> byte list" where
  "name_get e Caller_name = namebuf e"
| "name_get e Full_name = fullname e"
| "name_get e Block_buffer = blkbuf e"
| "name_get e (Inode_blocks i) = drop 40 (e_inode (inode_table e ! i))"

fun name_put :: "e2fs \<Rightarrow> name_object \<Rightarrow> byte list \<Rightarrow> e2fs" where
  "name_put e Caller_name bs = e\<lparr>namebuf := bs\<rparr>"
| "name_put e Full_name bs = e\<lparr>fullname := bs\<rparr>"
| "name_put e Block_buffer bs = e\<lparr>blkbuf := bs\<rparr>"
| "name_put e (Inode_blocks i) bs =
     (let itp = inode_table e ! i in
      e\<lparr>inode_table := (inode_table e)[i := itp\<lparr>e_inode := take 40 (e_inode itp) @ bs\<rparr>]\<rparr>)"

definition next_component ::
  "e2fs \<Rightarrow> name_object \<Rightarrow> nat option \<Rightarrow> (nat option \<times> e2fs) option" where
  "next_component e name inp =
     do {
       (component, bs, l) \<leftarrow> strtok_simple (name_get e name) inp 0x2F (tok_last e);
       Some (component, (name_put e name bs)\<lparr>tok_last := l\<rparr>)
     }"

text \<open>The search for one component in the directory of inode slot \<open>dir\<close>; \<open>-1\<close> when it is not there.\<close>

partial_function (option) search_dir ::
  "'s volume_ops \<Rightarrow> name_object \<Rightarrow> nat \<Rightarrow> nat \<Rightarrow> nat \<Rightarrow> e2fs \<Rightarrow> 's \<Rightarrow> bool \<Rightarrow> (u32 \<times> e2fs \<times> 's) option" where
  "search_dir v name component component_length dir e s rewind =
     do {
       (dp, e, s) \<leftarrow> ext2_readdiri v e s (e_inode (inode_table e ! dir)) rewind;
       (case dp of
          None \<Rightarrow> Some (- 1, e, s)
        | Some dp \<Rightarrow> do {
            n \<leftarrow> name_len (blkbuf e) dp;
            same \<leftarrow>
              (if unat n = component_length then do {
                 c \<leftarrow> strncmp (drop component (name_get e name)) (drop (dp + 8) (blkbuf e)) (of_nat component_length);
                 Some (c = 0)
               }
               else Some False);
            if same then do {
              ino \<leftarrow> d_inode (blkbuf e) dp;
              Some (ino, e, s)
            }
            else search_dir v name component component_length dir e s False
          })
     }"

partial_function (option) namei_loop ::
  "'s volume_ops \<Rightarrow> name_object \<Rightarrow> nat \<Rightarrow> nat option \<Rightarrow> e2fs \<Rightarrow> 's \<Rightarrow> (nat option \<times> e2fs \<times> 's) option" where
  "namei_loop v name dir component e s =
     (case component of
        None \<Rightarrow> Some (Some dir, e, s)
      | Some c \<Rightarrow> do {
          n \<leftarrow> strlen (drop c (name_get e name));
          (next_ino, e, s) \<leftarrow> search_dir v name c n dir e s True;
          let e = (if root_inode e \<noteq> Some dir then ext2_iput e dir else e);
          if sint next_ino < 0 then Some (None, e, s)
          else do {
            (ip, e, s) \<leftarrow> ext2_iget v e s next_ino;
            (case ip of
               None \<Rightarrow> Some (None, e, s)
             | Some dir \<Rightarrow> do {
                 (component, e) \<leftarrow> next_component e name None;
                 namei_loop v name dir component e s
               })
          }
        })"

definition ext2_namei :: "'s volume_ops \<Rightarrow> e2fs \<Rightarrow> 's \<Rightarrow> name_object \<Rightarrow> (nat option \<times> e2fs \<times> 's) option" where
  "ext2_namei v e s name =
     do {
       (root, e, s) \<leftarrow>
         (case root_inode e of
            Some r \<Rightarrow> Some (Some r, e, s)
          | None \<Rightarrow> do {
              (ip, e, s) \<leftarrow> ext2_iget v e s EXT2_ROOT_INO;
              Some (ip, e\<lparr>root_inode := ip\<rparr>, s)
            });
       (case root of
          None \<Rightarrow> Some (None, e, s)
        | Some dir \<Rightarrow> do {
            (component, e) \<leftarrow> next_component e name (Some 0);
            namei_loop v name dir component e s
          })
     }"

section \<open>Symbolic links and open files\<close>

definition ext2_follow_link :: "'s volume_ops \<Rightarrow> e2fs \<Rightarrow> 's \<Rightarrow> nat \<Rightarrow> (nat option \<times> e2fs \<times> 's) option" where
  "ext2_follow_link v e s from =
     do {
       let ip = e_inode (inode_table e ! from);
       (linkto, e, s) \<leftarrow>
         (if i_blocks ip \<noteq> 0 then do {
            (r, buf, e, s) \<leftarrow> ext2_breadi v e s ip 0 1 (blkbuf e) 0;
            Some (if r = - 1 then None else Some Block_buffer, e\<lparr>blkbuf := buf\<rparr>, s)
          }
          else Some (Some (Inode_blocks from), e, s));
       (case linkto of
          None \<Rightarrow> Some (None, e, s)
        | Some linkto \<Rightarrow> do {
            c \<leftarrow> rd1 (name_get e linkto) 0;
            if c \<noteq> 0x2F then do {
              slash \<leftarrow> strrchr (namebuf e) (sint (0x2F :: byte));
              (case slash of
                 Some k \<Rightarrow> do {
                   n \<leftarrow> strlen (name_get e linkto);
                   if k + 1 + n + 1 \<ge> EXT2FS_PATH_MAXLEN then Some (None, e, s)
                   else do {
                     full \<leftarrow> strncpy (fullname e) (namebuf e) (of_nat (k + 1));
                     full \<leftarrow> wr full (k + 1) [0];
                     full \<leftarrow> strcat full (name_get e linkto);
                     ext2_namei v (e\<lparr>fullname := full\<rparr>) s Full_name
                   }
                 }
               | None \<Rightarrow> ext2_namei v e s linkto)
            }
            else ext2_namei v e s linkto
          })
     }"

partial_function (option) open_loop ::
  "'s volume_ops \<Rightarrow> e2fs \<Rightarrow> 's \<Rightarrow> nat \<Rightarrow> (int \<times> e2fs \<times> 's) option" where
  "open_loop v e s ip =
     (if S_ISLNK (i_mode (e_inode (inode_table e ! ip))) then do {
        (r, e, s) \<leftarrow> ext2_follow_link v e s ip;
        (case r of
           None \<Rightarrow> Some (- 1, e, s)
         | Some ip \<Rightarrow> open_loop v e s ip)
      }
      else Some (int ip, e, s))"

definition ext2_open :: "'s volume_ops \<Rightarrow> e2fs \<Rightarrow> 's \<Rightarrow> (int \<times> e2fs \<times> 's) option" where
  "ext2_open v e s =
     do {
       (r, e, s) \<leftarrow> ext2_namei v e s Caller_name;
       (case r of
          None \<Rightarrow> Some (- 1, e, s)
        | Some ip \<Rightarrow> open_loop v e s ip)
     }"

text \<open>\<open>ext2fs_open\<close>: the result is \<open>0\<close> with the descriptor, or \<open>-1\<close>; the name object comes back changed.\<close>

definition ext2fs_open ::
  "'s volume_ops \<Rightarrow> e2fs \<Rightarrow> 's \<Rightarrow> byte list \<Rightarrow> (nat option \<times> e2fs \<times> 's) option" where
  "ext2fs_open v e s name =
     (if \<not> this_open e then Some (None, e, s)
      else do {
        n \<leftarrow> strlen name;
        if n \<ge> EXT2FS_PATH_MAXLEN then Some (None, e, s)
        else do {
          (tmp, e, s) \<leftarrow> ext2_open v (e\<lparr>namebuf := name\<rparr>) s;
          if tmp \<noteq> - 1
          then
            let fd = nat tmp; itp = inode_table e ! fd in
            Some (Some fd, e\<lparr>inode_table := (inode_table e)[fd := itp\<lparr>pos := 0\<rparr>]\<rparr>, s)
          else Some (None, e, s)
        }
      })"

definition ext2_close :: "e2fs \<Rightarrow> nat \<Rightarrow> e2fs option" where
  "ext2_close e fd =
     do {
       _ \<leftarrow> rd1 (inode_table e) fd;
       Some (if root_inode e \<noteq> Some fd then ext2_iput e fd else e)
     }"

definition ext2fs_close :: "e2fs \<Rightarrow> nat \<Rightarrow> (int \<times> e2fs) option" where
  "ext2fs_close e fd =
     (if \<not> this_open e \<or> fd > MAX_OPEN_FILES then Some (- 1, e)
      else do {
        e \<leftarrow> ext2_close e fd;
        Some (0, e)
      })"

section \<open>Reading an open file\<close>

record ext2fs_stat =
  st_ino :: u32
  st_nlink :: u32
  st_mode :: u32
  st_uid :: u32
  st_gid :: u32
  st_size :: u32
  st_atime :: u32
  st_mtime :: u32
  st_ctime :: u32

definition ext2_fstat :: "e2fs \<Rightarrow> nat \<Rightarrow> ext2fs_stat option" where
  "ext2_fstat e fd =
     do {
       itp \<leftarrow> rd1 (inode_table e) fd;
       let ip = e_inode itp;
       Some \<lparr>st_ino = inumber itp, st_nlink = ucast (i_links_count ip), st_mode = ucast (i_mode ip),
         st_uid = ucast (i_uid ip), st_gid = ucast (i_gid ip), st_size = i_size ip,
         st_atime = i_atime ip, st_mtime = i_mtime ip, st_ctime = i_ctime ip\<rparr>
     }"

definition ext2fs_fstat :: "e2fs \<Rightarrow> nat \<Rightarrow> (int \<times> ext2fs_stat option) option" where
  "ext2fs_fstat e fd =
     (if \<not> this_open e \<or> fd > MAX_OPEN_FILES then Some (- 1, None)
      else do {
        st \<leftarrow> ext2_fstat e fd;
        Some (0, Some st)
      })"

text \<open>When \<open>ext2fs_fstat\<close> fails, \<open>ext2fs_len\<close> returns an uninitialised field: no defined result.\<close>

definition ext2fs_len :: "e2fs \<Rightarrow> nat \<Rightarrow> u64 option" where
  "ext2fs_len e fd =
     do {
       (_, st) \<leftarrow> ext2fs_fstat e fd;
       st \<leftarrow> st;
       Some (ucast (st_size st))
     }"

definition ext2fs_seek :: "e2fs \<Rightarrow> nat \<Rightarrow> u64 \<Rightarrow> (int \<times> e2fs) option" where
  "ext2fs_seek e fd newpos =
     (if \<not> this_open e \<or> fd > MAX_OPEN_FILES \<or> newpos \<ge> 0x100000000 then Some (- 1, e)
      else do {
        itp \<leftarrow> rd1 (inode_table e) fd;
        if newpos > ucast (i_size (e_inode itp)) then Some (- 1, e)
        else Some (0, e\<lparr>inode_table := (inode_table e)[fd := itp\<lparr>pos := ucast newpos\<rparr>]\<rparr>)
      })"

definition ext2_bread ::
  "'s volume_ops \<Rightarrow> e2fs \<Rightarrow> 's \<Rightarrow> nat \<Rightarrow> u32 \<Rightarrow> u32 \<Rightarrow> byte list \<Rightarrow> nat \<Rightarrow> (int \<times> byte list \<times> e2fs \<times> 's) option" where
  "ext2_bread v e s fd blkno nblks buffer boff =
     do {
       itp \<leftarrow> rd1 (inode_table e) fd;
       ext2_breadi v e s (e_inode itp) blkno nblks buffer boff
     }"

lemma read_progress:
  assumes "count \<noteq> 0" "bs \<noteq> (0 :: u32)"
  shows "unat (count - min count (bs - p mod bs)) < unat count"
proof -
  have "p mod bs < bs" using assms(2) by (simp add: word_less_nat_alt unat_mod_distrib unat_gt_0)
  then have "bs - p mod bs \<noteq> 0" by auto
  then have "min count (bs - p mod bs) \<noteq> 0" using assms(1) by (simp add: min_def)
  moreover have "unat (count - min count (bs - p mod bs)) = unat count - unat (min count (bs - p mod bs))"
    by (rule unat_sub) simp
  ultimately show ?thesis using assms(1) by (simp add: unat_gt_0)
qed

text \<open>
  The loop of \<open>ext2fs_read\<close>; \<open>red\<close> is \<open>*size\<close>.  \<open>count\<close> decreases by \<open>nc\<close>, which is positive as long as
  the block size is.
\<close>

function read_loop ::
  "'s volume_ops \<Rightarrow> e2fs \<Rightarrow> 's \<Rightarrow> nat \<Rightarrow> u32 \<Rightarrow> u32 \<Rightarrow> byte list \<Rightarrow> u32 \<Rightarrow> (int \<times> byte list \<times> u32 \<times> e2fs \<times> 's) option" where
  "read_loop v e s fd count p buf red =
     (if count = 0 then Some (0, buf, red, e, s)
      else if blocksize e = 0 then None
      else do {
        let bnum = p div blocksize e;
        let bofs = p mod blocksize e;
        let nc = min count (blocksize e - bofs);
        (r, block, e, s) \<leftarrow> ext2_bread v e s fd bnum 1 (blkbuf e) 0;
        let e = e\<lparr>blkbuf := block\<rparr>;
        if r = - 1 then Some (- 1, buf, red, e, s)
        else do {
          data \<leftarrow> rd block (unat bofs) (unat nc);
          buf \<leftarrow> wr buf (unat red) data;
          read_loop v e s fd (count - nc) (p + nc) buf (red + nc)
        }
      })"
  by pat_completeness auto
termination
  by (relation "measure (\<lambda>(v, e, s, fd, count, p, buf, red). unat count)") (simp_all add: read_progress)

declare read_loop.simps [simp del]

definition ext2fs_read ::
  "'s volume_ops \<Rightarrow> e2fs \<Rightarrow> 's \<Rightarrow> nat \<Rightarrow> byte list \<Rightarrow> u32 \<Rightarrow> (int \<times> byte list \<times> u32 \<times> e2fs \<times> 's) option" where
  "ext2fs_read v e s fd buf sz =
     (if \<not> this_open e \<or> fd > MAX_OPEN_FILES then Some (- 1, buf, sz, e, s)
      else do {
        itp \<leftarrow> rd1 (inode_table e) fd;
        let count = min sz (i_size (e_inode itp) - pos itp);
        if count = 0 then Some (0, buf, 0, e, s)
        else do {
          (ret, buf, red, e, s) \<leftarrow> read_loop v e s fd count (pos itp) buf 0;
          if ret \<noteq> 0 then Some (- 1, buf, red, e, s)
          else do {
            itp \<leftarrow> rd1 (inode_table e) fd;
            Some (0, buf, red, e\<lparr>inode_table := (inode_table e)[fd := itp\<lparr>pos := pos itp + red\<rparr>]\<rparr>, s)
          }
        }
      })"

section \<open>Mounting\<close>

definition zero_entry :: inode_entry where
  "zero_entry = \<lparr>e_inode = replicate 128 0, inumber = 0, bl_free = False, old_mode = 0, pos = 0\<rparr>"

text \<open>\<open>memset\<close> of the private state; the statics of other functions keep their values.\<close>

definition memset_e2fs :: "e2fs \<Rightarrow> e2fs" where
  "memset_e2fs e = e\<lparr>sb := replicate 1024 0, gds := [], root_inode := None, ngroups := 0, directlim := 0,
     ind1lim := 0, ind2lim := 0, ptrs_per_blk := 0, blkbuf := replicate EXT2_MAX_BLOCK_SIZE 0, cached_iblkno := 0,
     iblkbuf := replicate EXT2_MAX_BLOCK_SIZE 0, cached_diblkno := 0, diblkbuf := replicate EXT2_MAX_BLOCK_SIZE 0,
     blocksize := 0, inode_table := replicate MAX_OPEN_FILES zero_entry\<rparr>"

definition ext2fs_init_state :: "'s volume_ops \<Rightarrow> e2fs \<Rightarrow> 's \<Rightarrow> byte list \<Rightarrow> (int \<times> e2fs \<times> 's) option" where
  "ext2fs_init_state v e s super =
     do {
       let e = (memset_e2fs e)\<lparr>sb := super\<rparr>;
       require (s_blocks_per_group super \<noteq> 0);
       let e = e\<lparr>ngroups := (s_blocks_count super - s_first_data_block super + s_blocks_per_group super - 1)
         div s_blocks_per_group super\<rparr>;
       (case bl_malloc v (ngroups e * 32) of
          None \<Rightarrow> Some (- 1, e, s)
        | Some g \<Rightarrow> do {
            let e = e\<lparr>gds := g, blocksize := EXT2_BLOCK_SIZE super\<rparr>;
            require (blocksize e \<noteq> 0);
            (status, g, s) \<leftarrow> read_bytes v s (blocksize e * (EXT2_MIN_BLOCK_SIZE div blocksize e + 1))
              (gds e) 0 (ngroups e * 32);
            let e = e\<lparr>gds := g\<rparr>;
            if status \<noteq> 0 then Some (- 1, e, s)
            else do {
              let ptrs = blocksize e div 4;
              Some (0, e\<lparr>cached_diblkno := - 1, cached_iblkno := - 1,
                inode_table := map (\<lambda>x. x\<lparr>bl_free := True, inumber := 0\<rparr>) (inode_table e),
                root_inode := None,
                directlim := EXT2_NDIR_BLOCKS - 1, ptrs_per_blk := ptrs,
                ind1lim := ptrs + (EXT2_NDIR_BLOCKS - 1),
                ind2lim := ptrs * ptrs + (EXT2_NDIR_BLOCKS - 1)\<rparr>, s)
            }
          })
     }"

definition ext2fs_fs_open :: "'s volume_ops \<Rightarrow> e2fs \<Rightarrow> 's \<Rightarrow> (int \<times> e2fs \<times> 's) option" where
  "ext2fs_fs_open v e s =
     do {
       (status, super, s) \<leftarrow> read_bytes v s (1 * EXT2_MIN_BLOCK_SIZE) (replicate 1024 0) 0 1024;
       if status \<noteq> 0 then Some (- 1, e, s)
       else if s_magic super \<noteq> EXT2_SUPER_MAGIC then Some (- 1, e, s)
       else do {
         (status, e, s) \<leftarrow> ext2fs_init_state v (e\<lparr>this_open := True\<rparr>) s super;
         if status \<noteq> 0 then Some (- 1, e\<lparr>this_open := False\<rparr>, s) else Some (0, e, s)
       }
     }"

definition ext2fs_fs_close :: "e2fs \<Rightarrow> e2fs" where
  "ext2fs_fs_close e = e\<lparr>this_open := False\<rparr>"

end
