(* ===== verification/Ext2_Read.thy ===== *)
theory Ext2_Read
  imports Ext2
begin

text \<open>
  What reading a file of the ext2 volume means, and that \<^verbatim>\<open>ext2fs.c\<close> implements it: the block map
  with its indirect blocks and their caches, single blocks, and \<open>ext2fs_read\<close> as a read of an
  abstract file, which is a list of bytes.
\<close>

section \<open>The volume below\<close>

locale volume =
  fixes v :: "'s volume_ops"
    and inv :: "'s \<Rightarrow> bool"
    and img :: "byte list"
  assumes pread_ok: "inv s \<Longrightarrow> 512 * (unat sector + unat n) \<le> length img \<Longrightarrow> off + 512 * unat n \<le> length buf \<Longrightarrow>
      \<exists>s'. pread v s buf off sector n =
        Some (int (unat n), put_bytes off (bytes_at (512 * unat sector) (512 * unat n) img) buf, s') \<and> inv s'"
    and malloc_ok: "inv s \<Longrightarrow> unat k \<le> 65536 \<Longrightarrow> \<exists>b. bl_malloc v k = Some b \<and> unat k \<le> length b"

section \<open>Reference\<close>

definition block_at :: "byte list \<Rightarrow> nat \<Rightarrow> u32 \<Rightarrow> byte list" where
  "block_at img bs b = bytes_at (unat b * bs) bs img"

text \<open>A block number whose bytes lie in the volume and below the 32-bit limit of the byte offset.\<close>

definition block_ok :: "byte list \<Rightarrow> nat \<Rightarrow> u32 \<Rightarrow> bool" where
  "block_ok img bs b \<longleftrightarrow> (unat b + 1) * bs \<le> length img \<and> (unat b + 1) * bs \<le> 2 ^ 32"

definition pointer :: "byte list \<Rightarrow> nat \<Rightarrow> u32 \<Rightarrow> nat \<Rightarrow> u32" where
  "pointer img bs b i = le_word (bytes_at (4 * i) 4 (block_at img bs b))"

definition indirect :: "byte list \<Rightarrow> nat \<Rightarrow> u32 \<Rightarrow> nat \<Rightarrow> u32" where
  "indirect img bs b i = (if b = 0 then 0 else pointer img bs b i)"

definition block_map :: "byte list \<Rightarrow> nat \<Rightarrow> byte list \<Rightarrow> nat \<Rightarrow> u32" where
  "block_map img bs ip k =
     (let p = bs div 4 in
      if k < 12 then i_block ip k
      else if k < 12 + p then indirect img bs (i_block ip 12) (k - 12)
      else indirect img bs (indirect img bs (i_block ip 13) ((k - (12 + p)) div p)) ((k - (12 + p)) mod p))"

text \<open>Every block that the map of index \<open>k\<close> goes through is in the volume.\<close>

definition map_ok :: "byte list \<Rightarrow> nat \<Rightarrow> byte list \<Rightarrow> nat \<Rightarrow> bool" where
  "map_ok img bs ip k \<longleftrightarrow>
     (let p = bs div 4; d = indirect img bs (i_block ip 13) ((k - (12 + p)) div p) in
      (12 \<le> k \<and> k < 12 + p \<longrightarrow> i_block ip 12 = 0 \<or> block_ok img bs (i_block ip 12)) \<and>
      (12 + p \<le> k \<longrightarrow> (i_block ip 13 = 0 \<or> block_ok img bs (i_block ip 13)) \<and> (d = 0 \<or> block_ok img bs d)) \<and>
      (block_map img bs ip k = 0 \<or> block_ok img bs (block_map img bs ip k)))"

definition file_block :: "byte list \<Rightarrow> nat \<Rightarrow> byte list \<Rightarrow> nat \<Rightarrow> byte list" where
  "file_block img bs ip k =
     (let b = block_map img bs ip k in if b = 0 then replicate bs 0 else block_at img bs b)"

text \<open>The abstract file: the first \<open>i_size\<close> bytes of its blocks.\<close>

definition file_contents :: "byte list \<Rightarrow> nat \<Rightarrow> byte list \<Rightarrow> byte list" where
  "file_contents img bs ip = map (\<lambda>i. file_block img bs ip (i div bs) ! (i mod bs)) [0..<unat (i_size ip)]"

text \<open>A file within what the volume and the block map can hold.\<close>

definition file_ok :: "byte list \<Rightarrow> nat \<Rightarrow> byte list \<Rightarrow> bool" where
  "file_ok img bs ip \<longleftrightarrow> unat (i_size ip) < 2147483648 \<and>
     (\<forall>k < (unat (i_size ip) + bs - 1) div bs. k < 12 + bs div 4 * (bs div 4) \<and> map_ok img bs ip k)"

text \<open>An open file as its user sees it: the bytes and a position, and what reading and seeking do.\<close>

type_synonym open_file = "byte list \<times> nat"

fun read_file :: "nat \<Rightarrow> open_file \<Rightarrow> byte list \<times> open_file" where
  "read_file n (c, p) = (take n (drop p c), (c, p + length (take n (drop p c))))"

fun seek_file :: "nat \<Rightarrow> open_file \<Rightarrow> open_file option" where
  "seek_file q (c, p) = (if q \<le> length c then Some (c, q) else None)"

definition abs_file :: "byte list \<Rightarrow> e2fs \<Rightarrow> nat \<Rightarrow> open_file" where
  "abs_file img e fd =
     (file_contents img (unat (blocksize e)) (e_inode (inode_table e ! fd)), unat (pos (inode_table e ! fd)))"

section \<open>The mounted state\<close>

definition geometry_ok :: "e2fs \<Rightarrow> bool" where
  "geometry_ok e \<longleftrightarrow> (\<exists>i<3. blocksize e = 1024 * 2 ^ i) \<and> directlim e = 11 \<and> ptrs_per_blk e = blocksize e div 4
     \<and> ind1lim e = ptrs_per_blk e + 11 \<and> ind2lim e = ptrs_per_blk e * ptrs_per_blk e + 11"

definition cache_holds :: "byte list \<Rightarrow> nat \<Rightarrow> u32 \<Rightarrow> byte list \<Rightarrow> bool" where
  "cache_holds img bs b buf \<longleftrightarrow> length buf = 4096 \<and>
     (b \<noteq> - 1 \<longrightarrow> block_ok img bs b \<and> take bs buf = block_at img bs b)"

definition fs_ok :: "byte list \<Rightarrow> e2fs \<Rightarrow> bool" where
  "fs_ok img e \<longleftrightarrow> geometry_ok e \<and> length (blkbuf e) = 4096 \<and> length (inode_table e) = 32
     \<and> cache_holds img (unat (blocksize e)) (cached_iblkno e) (iblkbuf e)
     \<and> cache_holds img (unat (blocksize e)) (cached_diblkno e) (diblkbuf e)"

text \<open>States that differ only in the block buffers.\<close>

definition rebuffered :: "e2fs \<Rightarrow> e2fs \<Rightarrow> bool" where
  "rebuffered e e' \<longleftrightarrow> (\<exists>a b c d f. e' = e\<lparr>cached_iblkno := a, iblkbuf := b, cached_diblkno := c, diblkbuf := d, blkbuf := f\<rparr>)"

lemma rebuffered_refl [simp]: "rebuffered e e"
  unfolding rebuffered_def
  by (intro exI [of _ "cached_iblkno e"] exI [of _ "iblkbuf e"] exI [of _ "cached_diblkno e"]
      exI [of _ "diblkbuf e"] exI [of _ "blkbuf e"]) simp

lemma rebuffered_trans: "rebuffered e e' \<Longrightarrow> rebuffered e' e'' \<Longrightarrow> rebuffered e e''"
  unfolding rebuffered_def by (elim exE, simp) blast

lemma rebuffered_iblk: "rebuffered e (e\<lparr>iblkbuf := x, cached_iblkno := y\<rparr>)"
  unfolding rebuffered_def
  by (intro exI [of _ y] exI [of _ x] exI [of _ "cached_diblkno e"] exI [of _ "diblkbuf e"] exI [of _ "blkbuf e"]) simp

lemma rebuffered_diblk: "rebuffered e (e\<lparr>diblkbuf := x, cached_diblkno := y\<rparr>)"
  unfolding rebuffered_def
  by (intro exI [of _ "cached_iblkno e"] exI [of _ "iblkbuf e"] exI [of _ y] exI [of _ x] exI [of _ "blkbuf e"]) simp

lemma rebuffered_blkbuf: "rebuffered e (e\<lparr>blkbuf := x\<rparr>)"
  unfolding rebuffered_def
  by (intro exI [of _ "cached_iblkno e"] exI [of _ "iblkbuf e"] exI [of _ "cached_diblkno e"]
      exI [of _ "diblkbuf e"] exI [of _ x]) simp

lemma rebuffered_sel:
  "rebuffered e e' \<Longrightarrow> blocksize e' = blocksize e" "rebuffered e e' \<Longrightarrow> inode_table e' = inode_table e"
  "rebuffered e e' \<Longrightarrow> geometry_ok e' = geometry_ok e" "rebuffered e e' \<Longrightarrow> root_inode e' = root_inode e"
  "rebuffered e e' \<Longrightarrow> this_open e' = this_open e" "rebuffered e e' \<Longrightarrow> directlim e' = directlim e"
  "rebuffered e e' \<Longrightarrow> ind1lim e' = ind1lim e" "rebuffered e e' \<Longrightarrow> ptrs_per_blk e' = ptrs_per_blk e"
  "rebuffered e e' \<Longrightarrow> sb e' = sb e" "rebuffered e e' \<Longrightarrow> gds e' = gds e"
  by (auto simp: rebuffered_def geometry_ok_def)

lemma geometry_cases:
  assumes "geometry_ok e"
  obtains "blocksize e = 1024" "ptrs_per_blk e = 256" "ind1lim e = 267" "ind2lim e = 65547"
  | "blocksize e = 2048" "ptrs_per_blk e = 512" "ind1lim e = 523" "ind2lim e = 262155"
  | "blocksize e = 4096" "ptrs_per_blk e = 1024" "ind1lim e = 1035" "ind2lim e = 1048587"
proof -
  obtain i :: nat where i: "i < 3" "blocksize e = 1024 * 2 ^ i" using assms by (auto simp: geometry_ok_def)
  have "i = 0 \<or> i = 1 \<or> i = 2" using i(1) by auto
  then show ?thesis using i(2) assms that unfolding geometry_ok_def by auto
qed

lemma geometry_nat:
  assumes "geometry_ok e"
  shows "unat (ptrs_per_blk e) = unat (blocksize e) div 4" "512 dvd unat (blocksize e)" "unat (blocksize e) \<le> 4096"
    "1024 \<le> unat (blocksize e)"
  using assms by (elim geometry_cases; simp)+

lemma geometry_limits:
  assumes "geometry_ok e"
  defines "p \<equiv> unat (blocksize e) div 4"
  shows "sint (directlim e) = 11" "sint (ind1lim e) = int (11 + p)" "sint (ind2lim e) = int (11 + p * p)"
    "directlim e + 1 = 12" "unat (ind1lim e + 1) = 12 + p" "256 \<le> p" "p \<le> 1024" "ptrs_per_blk e \<noteq> 0"
    "4 * p = unat (blocksize e)"
proof -
  have d: "directlim e = 11" using assms(1) by (simp add: geometry_ok_def)
  show "sint (directlim e) = 11" "sint (ind1lim e) = int (11 + p)" "sint (ind2lim e) = int (11 + p * p)"
    "directlim e + 1 = 12" "unat (ind1lim e + 1) = 12 + p" "256 \<le> p" "p \<le> 1024" "ptrs_per_blk e \<noteq> 0"
    "4 * p = unat (blocksize e)"
    by (rule geometry_cases [OF assms(1)]; simp add: p_def d)+
qed

section \<open>Bytes of the volume\<close>

lemma ceil_sectors: "unat sz \<le> 65536 \<Longrightarrow> unat ((sz + 511) div 512 :: u32) = (unat sz + 511) div 512"
  by (simp add: unat_div_distrib unat_word_ariths)

lemma unat_sector_offset:
  "unat (ucast offset - ucast ((offset :: u32) div 512) * (512 :: u64)) = unat offset mod 512"
proof -
  have "unat (ucast offset :: u64) = unat offset" "unat (ucast (offset div 512) :: u64) = unat offset div 512"
    by (simp_all add: unat_ucast_u32_u64 unat_div_distrib)
  moreover from this have "unat (ucast (offset div 512) * (512 :: u64)) = 512 * (unat offset div 512)"
    using unat_u32_less [of offset] by (simp add: unat_word_ariths)
  ultimately have "unat (ucast offset - ucast (offset div 512) * (512 :: u64)) = unat offset - 512 * (unat offset div 512)"
    by (metis mult.commute times_div_less_eq_dividend unat_sub word_le_nat_alt)
  then show ?thesis by (simp add: modulo_nat_def mult.commute)
qed

lemma block_ok_not_minus_one: "block_ok img bs b \<Longrightarrow> 1024 \<le> bs \<Longrightarrow> b \<noteq> - 1"
  by (auto simp: block_ok_def unat_u32_minus_one)

lemma length_block_at: "block_ok img bs b \<Longrightarrow> length (block_at img bs b) = bs"
  by (auto simp: block_ok_def block_at_def algebra_simps)

lemma rd_pointer:
  assumes "take bs buf = block_at img bs b" "block_ok img bs b" "4 * i + 4 \<le> bs" "length buf = 4096" "bs \<le> 4096"
  shows "\<exists>q. rd buf (4 * i) 4 = Some q \<and> le_word q = pointer img bs b i"
proof -
  have "bytes_at (4 * i) 4 (take bs buf) = bytes_at (4 * i) 4 buf"
    using assms(3) by (simp add: bytes_at_def drop_take take_take min_def)
  then show ?thesis using assms by (auto simp: rd_def pointer_def)
qed

lemma length_file_block:
  assumes "map_ok img bs ip k"
  shows "length (file_block img bs ip k) = bs"
  using assms length_block_at [of img bs] by (auto simp: file_block_def map_ok_def Let_def)

lemma file_okD:
  assumes "file_ok img bs ip" "p < unat (i_size ip)" "0 < bs"
  shows "map_ok img bs ip (p div bs)" "p div bs < 12 + bs div 4 * (bs div 4)"
proof -
  have "bs * (p div bs) \<le> p" by simp
  then have "bs * Suc (p div bs) \<le> unat (i_size ip) + bs - 1"
    unfolding mult_Suc_right using assms(2,3) by linarith
  then have "Suc (p div bs) \<le> (unat (i_size ip) + bs - 1) div bs"
    using assms(3) by (simp add: less_eq_div_iff_mult_less_eq mult.commute)
  then show "map_ok img bs ip (p div bs)" "p div bs < 12 + bs div 4 * (bs div 4)" using assms(1) by (auto simp: file_ok_def)
qed

lemma file_contents_chunk:
  assumes "file_ok img bs ip" "p + n \<le> unat (i_size ip)" "p mod bs + n \<le> bs" "0 < n"
  shows "bytes_at p n (file_contents img bs ip) = bytes_at (p mod bs) n (file_block img bs ip (p div bs))"
proof (rule nth_equalityI)
  have "0 < bs" using assms(3,4) by linarith
  then have l: "length (file_block img bs ip (p div bs)) = bs"
    using length_file_block [OF file_okD(1) [OF assms(1), of p]] assms(2,4) by simp
  then show "length (bytes_at p n (file_contents img bs ip)) =
      length (bytes_at (p mod bs) n (file_block img bs ip (p div bs)))"
    using assms(2,3) by (simp add: file_contents_def)
  fix i
  assume "i < length (bytes_at p n (file_contents img bs ip))"
  then have i: "i < n" by simp
  have "p + i = bs * (p div bs) + (p mod bs + i)" by simp
  moreover have "p mod bs + i < bs" using i assms(3) by linarith
  ultimately have "(p + i) div bs = p div bs" "(p + i) mod bs = p mod bs + i"
    by (metis \<open>0 < bs\<close> div_less div_mult_self4 add.right_neutral less_not_refl, metis mod_less mod_mult_self4)
  then show "bytes_at p n (file_contents img bs ip) ! i =
      bytes_at (p mod bs) n (file_block img bs ip (p div bs)) ! i"
    using i l assms(2,3) by (simp add: file_contents_def)
qed

context volume
begin

lemma read_bytes_ok:
  assumes "inv s" "unat sz \<le> 65024" "unat offset mod 512 + unat sz \<le> 512 * ((unat sz + 511) div 512)"
    "512 * (unat offset div 512 + (unat sz + 511) div 512) \<le> length img" "aoff + unat sz \<le> length addr"
  shows "\<exists>s'. read_bytes v s offset addr aoff sz =
      Some (0, put_bytes aoff (bytes_at (unat offset) (unat sz) img) addr, s') \<and> inv s'"
proof -
  let ?count = "(sz + 511) div 512" and ?base = "ucast (offset div 512) :: u64"
  let ?n = "(unat sz + 511) div 512"
  have c: "unat ?count = ?n" using assms(2) by (simp add: ceil_sectors)
  have n: "?n \<le> 128" using assms(2) by simp
  have b: "unat ?base = unat offset div 512"
    by (simp add: unat_ucast_u32_u64 unat_div_distrib)
  have bs: "unat (?count * 512) = 512 * ?n" using c n by (simp add: unat_word_ariths)
  obtain buf where buf: "bl_malloc v (?count * 512) = Some buf" "512 * ?n \<le> length buf"
    using malloc_ok [OF assms(1), of "?count * 512"] bs n by auto
  have uc: "unat (ucast ?count :: u64) = ?n" using c by (simp add: unat_ucast_u32_u64)
  let ?data = "bytes_at (512 * (unat offset div 512)) (512 * ?n) img"
  have ld: "length ?data = 512 * ?n" using assms(4) by simp
  obtain s1 where s1: "pread v s buf 0 ?base (ucast ?count) = Some (int ?n, ?data @ drop (512 * ?n) buf, s1)" "inv s1"
    using pread_ok [OF assms(1), of ?base "ucast ?count" 0 buf] b uc buf(2) assms(4) ld by auto
  have r: "(of_int (int ?n) :: u32) = ?count" by (simp add: c [symmetric])
  have off: "unat (ucast offset - ?base * 512) = unat offset mod 512" by (rule unat_sector_offset)
  have "rd (?data @ drop (512 * ?n) buf) (unat offset mod 512) (unat sz) = Some (bytes_at (unat offset) (unat sz) img)"
    using assms(3) ld by (simp add: rd_def bytes_at_append_left bytes_at_bytes_at)
  moreover have "wr addr aoff (bytes_at (unat offset) (unat sz) img) =
      Some (put_bytes aoff (bytes_at (unat offset) (unat sz) img) addr)"
    using assms(5) by (simp add: wr_def)
  ultimately show ?thesis
    using s1 buf r off by (simp add: read_bytes_def Let_def)
qed

text \<open>A whole block, or several, starting at a block boundary.\<close>

lemma read_block_ok:
  assumes "inv s" "geometry_ok e" "block_ok img (unat (blocksize e)) b" "aoff + unat (blocksize e) \<le> length addr"
  shows "\<exists>s'. read_bytes v s (b * blocksize e) addr aoff (blocksize e) =
      Some (0, put_bytes aoff (block_at img (unat (blocksize e)) b) addr, s') \<and> inv s'"
proof -
  let ?bs = "unat (blocksize e)"
  obtain m where m: "?bs = 512 * m" using geometry_nat(2) [OF assms(2)] by auto
  have "unat b * ?bs < 2 ^ 32"
    using assms(3) geometry_nat(4) [OF assms(2)] unfolding block_ok_def add_mult_distrib by linarith
  then have "unat (b * blocksize e) = unat b * ?bs" by (simp add: unat_word_ariths)
  then have off: "unat (b * blocksize e) = 512 * (unat b * m)" using m by simp
  have sec: "(?bs + 511) div 512 = m" using m by simp
  have len: "512 * (unat b * m + m) \<le> length img" using assms(3) m by (simp add: block_ok_def algebra_simps)
  have "\<exists>s'. read_bytes v s (b * blocksize e) addr aoff (blocksize e) =
      Some (0, put_bytes aoff (bytes_at (unat (b * blocksize e)) ?bs img) addr, s') \<and> inv s'"
    by (rule read_bytes_ok) (use assms(1,4) geometry_nat(3) [OF assms(2)] sec off len m in \<open>simp_all\<close>)
  then show ?thesis using off m by (simp add: block_at_def algebra_simps)
qed

lemma load_iblk_ok:
  assumes "inv s" "fs_ok img e" "block_ok img (unat (blocksize e)) b"
  shows "\<exists>e' s'. load_iblk v e s b = Some (True, e', s') \<and> inv s' \<and> fs_ok img e' \<and> rebuffered e e'
    \<and> take (unat (blocksize e)) (iblkbuf e') = block_at img (unat (blocksize e)) b"
proof (cases "cached_iblkno e = b")
  case True
  then show ?thesis
    using assms block_ok_not_minus_one [OF assms(3)] geometry_nat(4) [of e] by (auto simp: load_iblk_def fs_ok_def cache_holds_def)
next
  case False
  have g: "geometry_ok e" "length (iblkbuf e) = 4096" using assms(2) by (auto simp: fs_ok_def cache_holds_def)
  obtain s' where s': "read_bytes v s (b * blocksize e) (iblkbuf e) 0 (blocksize e) =
      Some (0, put_bytes 0 (block_at img (unat (blocksize e)) b) (iblkbuf e), s')" "inv s'"
    using read_block_ok [OF assms(1) g(1) assms(3), of 0 "iblkbuf e"] geometry_nat(3) [OF g(1)] g(2) by auto
  let ?e = "e\<lparr>iblkbuf := put_bytes 0 (block_at img (unat (blocksize e)) b) (iblkbuf e), cached_iblkno := b\<rparr>"
  have "fs_ok img ?e" "rebuffered e ?e"
    "take (unat (blocksize e)) (iblkbuf ?e) = block_at img (unat (blocksize e)) b"
    using assms(2,3) length_block_at [OF assms(3)] geometry_nat(3) [OF g(1)]
    by (auto simp: fs_ok_def cache_holds_def geometry_ok_def rebuffered_iblk)
  then show ?thesis using False s' by (auto simp: load_iblk_def)
qed

lemma load_diblk_ok:
  assumes "inv s" "fs_ok img e" "block_ok img (unat (blocksize e)) b"
  shows "\<exists>e' s'. load_diblk v e s b = Some (True, e', s') \<and> inv s' \<and> fs_ok img e' \<and> rebuffered e e'
    \<and> take (unat (blocksize e)) (diblkbuf e') = block_at img (unat (blocksize e)) b"
proof (cases "cached_diblkno e = b")
  case True
  then show ?thesis
    using assms block_ok_not_minus_one [OF assms(3)] geometry_nat(4) [of e] by (auto simp: load_diblk_def fs_ok_def cache_holds_def)
next
  case False
  have g: "geometry_ok e" "length (diblkbuf e) = 4096" using assms(2) by (auto simp: fs_ok_def cache_holds_def)
  obtain s' where s': "read_bytes v s (b * blocksize e) (diblkbuf e) 0 (blocksize e) =
      Some (0, put_bytes 0 (block_at img (unat (blocksize e)) b) (diblkbuf e), s')" "inv s'"
    using read_block_ok [OF assms(1) g(1) assms(3), of 0 "diblkbuf e"] geometry_nat(3) [OF g(1)] g(2) by auto
  let ?e = "e\<lparr>diblkbuf := put_bytes 0 (block_at img (unat (blocksize e)) b) (diblkbuf e), cached_diblkno := b\<rparr>"
  have "fs_ok img ?e" "rebuffered e ?e"
    "take (unat (blocksize e)) (diblkbuf ?e) = block_at img (unat (blocksize e)) b"
    using assms(2,3) length_block_at [OF assms(3)] geometry_nat(3) [OF g(1)]
    by (auto simp: fs_ok_def cache_holds_def geometry_ok_def rebuffered_diblk)
  then show ?thesis using False s' by (auto simp: load_diblk_def)
qed

lemma load_iblk_pointer:
  assumes "inv s" "fs_ok img e" "block_ok img (unat (blocksize e)) b" "i < unat (blocksize e) div 4"
  shows "\<exists>e' s' q. load_iblk v e s b = Some (True, e', s') \<and> inv s' \<and> fs_ok img e' \<and> rebuffered e e'
    \<and> rd (iblkbuf e') (4 * i) 4 = Some q \<and> le_word q = pointer img (unat (blocksize e)) b i"
proof -
  obtain e' s' where l: "load_iblk v e s b = Some (True, e', s')" "inv s'" "fs_ok img e'" "rebuffered e e'"
      "take (unat (blocksize e)) (iblkbuf e') = block_at img (unat (blocksize e)) b"
    using load_iblk_ok [OF assms(1-3)] by blast
  moreover have "length (iblkbuf e') = 4096" "geometry_ok e" using l(3) assms(2) by (auto simp: fs_ok_def cache_holds_def)
  ultimately show ?thesis
    using rd_pointer [OF l(5) assms(3), of i] assms(4) geometry_nat(3) [of e] by auto
qed

lemma load_diblk_pointer:
  assumes "inv s" "fs_ok img e" "block_ok img (unat (blocksize e)) b" "i < unat (blocksize e) div 4"
  shows "\<exists>e' s' q. load_diblk v e s b = Some (True, e', s') \<and> inv s' \<and> fs_ok img e' \<and> rebuffered e e'
    \<and> rd (diblkbuf e') (4 * i) 4 = Some q \<and> le_word q = pointer img (unat (blocksize e)) b i"
proof -
  obtain e' s' where l: "load_diblk v e s b = Some (True, e', s')" "inv s'" "fs_ok img e'" "rebuffered e e'"
      "take (unat (blocksize e)) (diblkbuf e') = block_at img (unat (blocksize e)) b"
    using load_diblk_ok [OF assms(1-3)] by blast
  moreover have "length (diblkbuf e') = 4096" "geometry_ok e" using l(3) assms(2) by (auto simp: fs_ok_def cache_holds_def)
  ultimately show ?thesis
    using rd_pointer [OF l(5) assms(3), of i] assms(4) geometry_nat(3) [of e] by auto
qed

lemma ext2_blkno_ok:
  assumes "inv s" "fs_ok img e" "map_ok img (unat (blocksize e)) ip (unat k)"
    "unat k < 12 + (unat (blocksize e) div 4) * (unat (blocksize e) div 4)"
  shows "\<exists>e' s'. ext2_blkno v e s ip k = Some (block_map img (unat (blocksize e)) ip (unat k), e', s')
    \<and> inv s' \<and> fs_ok img e' \<and> rebuffered e e'"
proof -
  define bs where "bs = unat (blocksize e)"
  define p where "p = bs div 4"
  have g: "geometry_ok e" using assms(2) by (simp add: fs_ok_def)
  note lim = geometry_limits [OF g, folded bs_def, folded p_def]
  have "p * p \<le> 1024 * 1024" using lim(7) by (intro mult_le_mono) auto
  then have k: "sint k = int (unat k)" using assms(4) by (intro sint_small) (simp add: bs_def p_def)
  have c: "sint k \<le> sint (directlim e) \<longleftrightarrow> unat k < 12" "sint k \<le> sint (ind1lim e) \<longleftrightarrow> unat k < 12 + p"
    "sint k \<le> sint (ind2lim e)" "0 \<le> sint k"
    using assms(4) [folded bs_def, folded p_def] unfolding k lim by linarith+
  consider "unat k < 12" | "12 \<le> unat k" "unat k < 12 + p" | "12 + p \<le> unat k" by linarith
  then show ?thesis
  proof cases
    case 1
    then show ?thesis using assms(1,2) c by (simp add: ext2_blkno_def block_map_def)
  next
    case 2
    have i: "unat (k - (directlim e + 1)) = unat k - 12" unfolding lim(4)
      using 2 by (simp add: unat_sub word_le_nat_alt)
    show ?thesis
    proof (cases "i_block ip 12 = 0")
      case True
      then show ?thesis using 2 assms(1,2) c by (simp add: ext2_blkno_def block_map_def indirect_def EXT2_IND_BLOCK_def bs_def p_def)
    next
      case False
      then have b: "block_ok img bs (i_block ip 12)" using assms(3) 2 by (simp add: map_ok_def Let_def bs_def p_def)
      have "unat k - 12 < p" using 2 by linarith
      then obtain e1 s1 q where l: "load_iblk v e s (i_block ip 12) = Some (True, e1, s1)" "inv s1" "fs_ok img e1"
          "rebuffered e e1" "rd (iblkbuf e1) (4 * (unat k - 12)) 4 = Some q"
          "le_word q = pointer img bs (i_block ip 12) (unat k - 12)"
        using load_iblk_pointer [OF assms(1,2), of "i_block ip 12" "unat k - 12"] b by (auto simp: bs_def p_def)
      then show ?thesis using 2 False c i
        by (simp add: ext2_blkno_def block_map_def indirect_def EXT2_IND_BLOCK_def rebuffered_sel bs_def p_def)
    qed
  next
    case 3
    define j where "j = k - (ind1lim e + 1)"
    have j: "unat j = unat k - (12 + p)" using 3 lim(5) by (simp add: j_def unat_sub word_le_nat_alt)
    have pp: "unat (ptrs_per_blk e) = p" using geometry_nat(1) [OF g] by (simp add: bs_def p_def)
    have jd: "unat (j div ptrs_per_blk e) = (unat k - (12 + p)) div p" "unat (j mod ptrs_per_blk e) = (unat k - (12 + p)) mod p"
      using j pp by (simp_all add: unat_div_distrib unat_mod_distrib)
    show ?thesis
    proof (cases "i_block ip 13 = 0")
      case True
      then show ?thesis using 3 assms(1,2) c by (simp add: ext2_blkno_def block_map_def indirect_def EXT2_DIND_BLOCK_def bs_def p_def)
    next
      case False
      define d where "d = indirect img bs (i_block ip 13) ((unat k - (12 + p)) div p)"
      have b: "block_ok img bs (i_block ip 13)" "d = 0 \<or> block_ok img bs d"
        using False assms(3) 3 by (auto simp: map_ok_def Let_def bs_def p_def d_def)
      have "unat k - (12 + p) < p * p" using 3 assms(4) lim(6) by (simp add: bs_def p_def)
      then have j1: "(unat k - (12 + p)) div p < p" "(unat k - (12 + p)) mod p < p"
        using lim(6) by (simp_all add: less_mult_imp_div_less)
      obtain e1 s1 q where l: "load_diblk v e s (i_block ip 13) = Some (True, e1, s1)" "inv s1" "fs_ok img e1"
          "rebuffered e e1" "rd (diblkbuf e1) (4 * ((unat k - (12 + p)) div p)) 4 = Some q" "le_word q = d"
        using load_diblk_pointer [OF assms(1,2), of "i_block ip 13" "(unat k - (12 + p)) div p"] b(1) j1(1) False
        by (auto simp: bs_def p_def d_def indirect_def)
      show ?thesis
      proof (cases "d = 0")
        case True
        then show ?thesis using 3 False c l jd lim(8)
          by (simp add: ext2_blkno_def block_map_def EXT2_DIND_BLOCK_def rebuffered_sel bs_def p_def j_def d_def indirect_def)
      next
        case dn: False
        obtain e2 s2 q2 where l2: "load_iblk v e1 s1 d = Some (True, e2, s2)" "inv s2" "fs_ok img e2"
            "rebuffered e1 e2" "rd (iblkbuf e2) (4 * ((unat k - (12 + p)) mod p)) 4 = Some q2"
            "le_word q2 = indirect img bs d ((unat k - (12 + p)) mod p)"
          using load_iblk_pointer [OF l(2,3), of d "(unat k - (12 + p)) mod p"] b(2) dn j1(2) l(4)
          by (auto simp: bs_def p_def indirect_def rebuffered_sel)
        then show ?thesis using 3 False dn c l jd lim(8) rebuffered_trans [OF l(4) l2(4)]
          by (simp add: ext2_blkno_def block_map_def EXT2_DIND_BLOCK_def rebuffered_sel [OF l(4)] rebuffered_sel [OF l2(4)]
              bs_def p_def j_def d_def Let_def)
      qed
    qed
  qed
qed

text \<open>One block into a buffer, as \<open>ext2fs_read\<close>, \<open>ext2_readdiri\<close> and \<open>ext2_follow_link\<close> ask for it.\<close>

lemma ext2_breadi_ok:
  assumes "inv s" "fs_ok img e" "map_ok img (unat (blocksize e)) ip (unat k)"
    "unat k < 12 + (unat (blocksize e) div 4) * (unat (blocksize e) div 4)"
    "unat k * unat (blocksize e) < unat (i_size ip)" "unat (i_size ip) < 2147483648" "length buf = 4096"
  shows "\<exists>e' s'. ext2_breadi v e s ip k 1 buf 0 =
      Some (int (unat (blocksize e)), file_block img (unat (blocksize e)) ip (unat k) @ drop (unat (blocksize e)) buf, e', s')
    \<and> inv s' \<and> fs_ok img e' \<and> rebuffered e e'"
proof -
  define bs where "bs = unat (blocksize e)"
  have g: "geometry_ok e" using assms(2) by (simp add: fs_ok_def)
  note bs = geometry_nat [OF g, folded bs_def]
  have "Suc (unat k) * bs < 2 ^ 32" using assms(5,6) bs(3) by (simp add: bs_def)
  moreover have "Suc (unat k) \<le> Suc (unat k) * bs" using bs(4) by (metis One_nat_def Suc_leI le_numeral_extra(4) less_le_trans mult.commute mult_le_mono1 nat_mult_1 zero_less_numeral)
  ultimately have k1: "unat (k + 1) = Suc (unat k)" "unat ((k + 1) * blocksize e) = Suc (unat k) * bs"
    by (simp_all add: unat_word_ariths bs_def)
  have n: "(if (k + 1) * blocksize e > i_size ip then (i_size ip + blocksize e) div blocksize e - k else 1) = 1"
  proof (cases "(k + 1) * blocksize e > i_size ip")
    case True
    then have "unat (i_size ip) < Suc (unat k) * bs" using k1 by (simp add: word_less_nat_alt)
    then have "(unat (i_size ip) + bs) div bs = Suc (unat k)"
      using assms(5) by (intro div_nat_eqI) (simp_all add: bs_def algebra_simps)
    moreover have "unat (i_size ip + blocksize e) = unat (i_size ip) + bs"
      using assms(6) bs(3) by (simp add: unat_word_ariths bs_def)
    ultimately have "(i_size ip + blocksize e) div blocksize e = k + 1"
      using k1 by (simp add: word_unat_eq_iff unat_div_distrib bs_def)
    then show ?thesis by simp
  qed simp
  let ?b = "block_map img bs ip (unat k)"
  obtain e1 s1 where m: "ext2_blkno v e s ip k = Some (?b, e1, s1)" "inv s1" "fs_ok img e1" "rebuffered e e1"
    using ext2_blkno_ok [OF assms(1-4)] by (auto simp: bs_def)
  have r: "contiguous_run v e1 s1 ip ?b k 0 0 1 = Some (k + 1, blocksize e, 0, e1, s1)"
    using m(4) by (simp add: rebuffered_sel)
  have b: "ext2_breadi v e s ip k 1 buf 0 = breadi_loop v e s ip k 1 buf 0 0"
    using n bs(4) by (auto simp: ext2_breadi_def bind_require bs_def split: if_splits)
  have st: "sint (blocksize e) = int bs" using bs(3) by (simp add: sint_small bs_def del: of_nat_unat)
  show ?thesis
  proof (cases "?b = 0")
    case True
    then have "breadi_loop v e s ip k 1 buf 0 0 = Some (int bs, replicate bs 0 @ drop bs buf, e1, s1)"
      using m(1) r st bs(3) assms(7) by (simp add: breadi_loop.simps wr_def bs_def del: contiguous_run.simps of_nat_unat)
    then show ?thesis using True b m by (simp add: file_block_def bs_def)
  next
    case False
    have "block_ok img bs ?b" using False assms(3) by (simp add: map_ok_def Let_def bs_def)
    then obtain s2 where s2: "read_bytes v s1 (?b * blocksize e) buf 0 (blocksize e) =
        Some (0, block_at img bs ?b @ drop bs buf, s2)" "inv s2"
      using read_block_ok [OF m(2) g, of ?b 0 buf] bs assms(7) length_block_at by (auto simp: bs_def)
    have "breadi_loop v e s ip k 1 buf 0 0 = Some (int bs, block_at img bs ?b @ drop bs buf, e1, s2)"
      using False m(1,4) s2(1) r st
      by (simp add: breadi_loop.simps rebuffered_sel del: contiguous_run.simps of_nat_unat)
    then show ?thesis using False b m s2 by (simp add: file_block_def bs_def)
  qed
qed

lemma read_loop_ok:
  assumes "inv s" "fs_ok img e" "fd < 32" "ip = e_inode (inode_table e ! fd)" "file_ok img (unat (blocksize e)) ip"
    "unat p + unat count \<le> unat (i_size ip)" "unat red + unat count \<le> length buf" "unat red + unat count < 2 ^ 32"
  shows "\<exists>e' s'. read_loop v e s fd count p buf red =
      Some (0, put_bytes (unat red) (bytes_at (unat p) (unat count) (file_contents img (unat (blocksize e)) ip)) buf,
        red + count, e', s')
    \<and> inv s' \<and> fs_ok img e' \<and> rebuffered e e'"
  using assms
proof (induction "unat count" arbitrary: s e count p buf red rule: less_induct)
  case less
  show ?case
  proof (cases "count = 0")
    case True
    then show ?thesis using less.prems by (simp add: read_loop.simps)
  next
    case False
    define bs where "bs = unat (blocksize e)"
    define nc where "nc = min count (blocksize e - p mod blocksize e)"
    let ?n = "unat nc"
    have g: "geometry_ok e" using less.prems(2) by (simp add: fs_ok_def)
    note bs = geometry_nat [OF g, folded bs_def]
    have bn: "blocksize e \<noteq> 0" using bs(4) by (auto simp: bs_def)
    have pm: "unat (p mod blocksize e) = unat p mod bs" "unat (p div blocksize e) = unat p div bs" 
      by (simp_all add: unat_mod_distrib unat_div_distrib bs_def)
    have "p mod blocksize e \<le> blocksize e" using bs(4) pm(1) by (simp add: word_le_nat_alt bs_def)
    then have n: "?n = min (unat count) (bs - unat p mod bs)"
      using pm(1) by (simp add: nc_def min_def word_le_nat_alt unat_sub bs_def)
    have pb: "unat p mod bs < bs" using bs(4) by simp
    have n0: "0 < ?n" using n False pb by (simp add: unat_gt_0)
    have n1: "unat p mod bs + ?n \<le> bs" "?n \<le> unat count" using n pb by linarith+
    have p: "unat p < unat (i_size ip)" using less.prems(6) n0 n1(2) by linarith
    note fo = file_okD [OF less.prems(5) [folded bs_def] p]
    have "bs * (unat p div bs) \<le> unat p" by simp
    then have "unat p div bs * bs < unat (i_size ip)" using p by (metis le_less_trans mult.commute)
    then obtain e1 s1 where b: "ext2_breadi v e s ip (p div blocksize e) 1 (blkbuf e) 0 =
        Some (int bs, file_block img bs ip (unat p div bs) @ drop bs (blkbuf e), e1, s1)"
        "inv s1" "fs_ok img e1" "rebuffered e e1"
      using ext2_breadi_ok [OF less.prems(1,2), of ip "p div blocksize e" "blkbuf e"] fo bs(4) less.prems(2,5) pm(2)
      by (auto simp: bs_def fs_ok_def file_ok_def)
    define e2 where "e2 = e1\<lparr>blkbuf := file_block img bs ip (unat p div bs) @ drop bs (blkbuf e)\<rparr>"
    have lb: "length (file_block img bs ip (unat p div bs)) = bs" using fo(1) bs(4) by (simp add: length_file_block)
    then have e2: "fs_ok img e2" "rebuffered e e2"
      using b(3) less.prems(2) bs(3) rebuffered_trans [OF b(4) rebuffered_blkbuf]
      by (auto simp: e2_def fs_ok_def geometry_ok_def)
    have d: "rd (file_block img bs ip (unat p div bs) @ drop bs (blkbuf e)) (unat p mod bs) ?n =
       Some (bytes_at (unat p) ?n (file_contents img bs ip))"
      using file_contents_chunk [OF less.prems(5) [folded bs_def], of "unat p" ?n] n0 n1 lb less.prems(6)
      by (simp add: rd_def buffer_simps)
    let ?data = "bytes_at (unat p) ?n (file_contents img bs ip)"
    have ld: "length ?data = ?n" using less.prems(6) n1(2) by (simp add: file_contents_def)
    have st: "read_loop v e s fd count p buf red =
       read_loop v e2 s1 fd (count - nc) (p + nc) (put_bytes (unat red) ?data buf) (red + nc)"
    proof -
      have "rd1 (inode_table e) fd = Some (inode_table e ! fd)" using less.prems(2,3) by (simp add: rd1_def fs_ok_def)
      moreover have "wr buf (unat red) ?data = Some (put_bytes (unat red) ?data buf)"
        using less.prems(7) n1(2) ld by (simp add: wr_def)
      ultimately show ?thesis
        using False bn b(1) d pm(1) less.prems(4)
        by (simp add: read_loop.simps [of v e] ext2_bread_def Let_def e2_def flip: nc_def)
    qed
    have u: "unat (count - nc) = unat count - ?n" "unat (p + nc) = unat p + ?n" "unat (red + nc) = unat red + ?n"
      using n1(2) less.prems(6,8) unat_u32_less [of "i_size ip"] by (simp_all add: unat_sub word_le_nat_alt unat_word_ariths)
    have split: "bytes_at (unat p) (unat count) (file_contents img bs ip) =
        ?data @ bytes_at (unat p + ?n) (unat count - ?n) (file_contents img bs ip)"
      using bytes_at_split [of "unat p" ?n "unat count - ?n"] n1(2) by simp
    have eq: "blocksize e2 = blocksize e" "inode_table e2 = inode_table e" using rebuffered_sel [OF e2(2)] by simp_all
    obtain e3 s3 where f: "read_loop v e2 s1 fd (count - nc) (p + nc) (put_bytes (unat red) ?data buf) (red + nc) =
        Some (0, put_bytes (unat red + ?n) (bytes_at (unat p + ?n) (unat count - ?n) (file_contents img bs ip))
          (put_bytes (unat red) ?data buf), red + count, e3, s3)" "inv s3" "fs_ok img e3" "rebuffered e2 e3"
      using less.hyps [of "count - nc" s1 e2 "p + nc" "red + nc" "put_bytes (unat red) ?data buf"] u n0 n1(2) False b(2)
        e2(1) less.prems(3-8) ld eq by (auto simp: bs_def add.assoc)
    have "put_bytes (unat red + ?n) (bytes_at (unat p + ?n) (unat count - ?n) (file_contents img bs ip))
        (put_bytes (unat red) ?data buf) = put_bytes (unat red) (bytes_at (unat p) (unat count) (file_contents img bs ip)) buf"
      unfolding split using less.prems(6,7) n1(2) ld put_bytes_append [of "unat red" ?data _ buf]
      by (simp add: file_contents_def)
    then show ?thesis using f st rebuffered_trans [OF e2(2) f(4)] by (simp add: bs_def)
  qed
qed

lemma ext2fs_read_ok:
  assumes "inv s" "fs_ok img e" "this_open e" "fd < 32" "file_ok img (unat (blocksize e)) (e_inode (inode_table e ! fd))"
    "snd (abs_file img e fd) \<le> length (fst (abs_file img e fd))" "read_file (unat sz) (abs_file img e fd) = (data, f)"
    "length data \<le> length buf"
  shows "\<exists>e' s'. ext2fs_read v e s fd buf sz = Some (0, data @ drop (length data) buf, of_nat (length data), e', s')
    \<and> inv s' \<and> fs_ok img e' \<and> abs_file img e' fd = f \<and> blocksize e' = blocksize e
    \<and> inode_table e' = (inode_table e)[fd := (inode_table e ! fd)\<lparr>pos := of_nat (snd f)\<rparr>]
    \<and> rebuffered e (e'\<lparr>inode_table := inode_table e\<rparr>)"
proof -
  define ip where "ip = e_inode (inode_table e ! fd)"
  define p where "p = pos (inode_table e ! fd)"
  define count where "count = min sz (i_size ip - p)"
  let ?c = "file_contents img (unat (blocksize e)) ip"
  have lc: "length ?c = unat (i_size ip)" by (simp add: file_contents_def)
  have p: "unat p \<le> unat (i_size ip)" using assms(6) lc by (simp add: abs_file_def ip_def p_def)
  then have n: "unat count = min (unat sz) (unat (i_size ip) - unat p)"
    by (simp add: count_def min_def word_le_nat_alt unat_sub)
  have d: "data = bytes_at (unat p) (unat count) ?c" "f = (?c, unat p + unat count)"
    using assms(7) lc n by (auto simp: abs_file_def ip_def p_def bytes_at_def min_def)
  have ld: "length data = unat count" using d lc n by simp
  have pc: "unat p + unat count \<le> unat (i_size ip)" using n p by linarith
  have rd: "rd1 (inode_table e) fd = Some (inode_table e ! fd)" using assms(2,4) by (simp add: rd1_def fs_ok_def)
  show ?thesis
  proof (cases "count = 0")
    case True
    have "(inode_table e)[fd := (inode_table e ! fd)\<lparr>pos := p\<rparr>] = inode_table e" by (simp add: p_def)
    then show ?thesis using True assms(1-4) rd ld d
      by (simp add: ext2fs_read_def MAX_OPEN_FILES_def abs_file_def flip: ip_def p_def count_def)
  next
    case False
    obtain e1 s1 where r: "read_loop v e s fd count p buf 0 = Some (0, data @ drop (length data) buf, count, e1, s1)"
        "inv s1" "fs_ok img e1" "rebuffered e e1"
      using read_loop_ok [OF assms(1,2,4) refl assms(5), of p count 0 buf] pc assms(8) d(1) ld unat_u32_less [of count]
      by (auto simp: ip_def)
    let ?e = "e1\<lparr>inode_table := (inode_table e)[fd := (inode_table e ! fd)\<lparr>pos := p + count\<rparr>]\<rparr>"
    have "ext2fs_read v e s fd buf sz = Some (0, data @ drop (length data) buf, count, ?e, s1)"
      using False assms(3,4) rd r rebuffered_sel [OF r(4)]
      by (simp add: ext2fs_read_def MAX_OPEN_FILES_def flip: ip_def p_def count_def)
    moreover have "fs_ok img ?e" using r(3) assms(2) by (simp add: fs_ok_def geometry_ok_def)
    moreover have "unat (p + count) = unat p + unat count"
      using pc unat_u32_less [of "i_size ip"] by (simp add: unat_word_ariths)
    moreover have "rebuffered e (?e\<lparr>inode_table := inode_table e\<rparr>)"
      using r(4) rebuffered_sel(2) [OF r(4)] by (metis e2fs.surjective e2fs.update_convs(16))
    ultimately show ?thesis using r(2) d ld assms(2,4) rebuffered_sel [OF r(4)]
      by (simp add: abs_file_def fs_ok_def ip_def)
  qed
qed

end

section \<open>The partition is a volume\<close>

definition partition_ops :: "'h io \<Rightarrow> (u32 \<Rightarrow> byte list option) \<Rightarrow> partition \<Rightarrow> 'h machine volume_ops" where
  "partition_ops io m g = \<lparr>pread = partition_read (disk_read io) g, bl_malloc = m\<rparr>"

text \<open>The bytes of the partition \<open>g\<close> of the drive.\<close>

definition partition_image :: "media \<Rightarrow> harddisk_info \<Rightarrow> partition \<Rightarrow> byte list" where
  "partition_image media info g = sectors_from (\<lambda>k. media (i_slave info) (unat k)) (start g) (unat (psize g))"

text \<open>
  The drive serves its sectors, the cache is consistent, the partition lies on the drive, and the
  allocator grants requests of up to 64 KiB, with blocks of at least the size asked for.
\<close>

definition volume_ready ::
  "'h io \<Rightarrow> ('h \<Rightarrow> ata) \<Rightarrow> nat \<times> nat \<Rightarrow> media \<Rightarrow> harddisk_info \<Rightarrow> u64 \<Rightarrow> partition \<Rightarrow> (u32 \<Rightarrow> byte list option)
    \<Rightarrow> 'h machine \<Rightarrow> bool" where
  "volume_ready io view geo media info n g m s \<longleftrightarrow>
     ide_serves io view geo media info n s \<and> cache_ok n (media (i_slave info)) s
     \<and> unat (start g) + unat (psize g) \<le> unat n
     \<and> (\<forall>k. unat k \<le> 65536 \<longrightarrow> (\<exists>b. m k = Some b \<and> unat k \<le> length b))"

lemma sectors_from_add: "sectors_from med k (a + b) = sectors_from med k a @ sectors_from med (k + of_nat a) b"
  by (induction a arbitrary: k) (simp_all add: add.assoc)

lemma length_sectors_from_all:
  "\<forall>j<n. length (med (k + of_nat j)) = 512 \<Longrightarrow> length (sectors_from med k n) = 512 * n"
proof (induction n arbitrary: k)
  case (Suc n)
  have "length (med k) = 512" using Suc.prems [rule_format, of 0] by simp
  moreover have "\<forall>j<n. length (med (k + 1 + of_nat j)) = 512"
    using Suc.prems [rule_format, of "Suc _"] by (simp add: add.assoc)
  ultimately show ?case using Suc.IH by simp
qed simp

lemma sectors_from_within:
  assumes "\<forall>j<n. length (med (k + of_nat j)) = 512" "a + i \<le> n"
  shows "sectors_from med (k + of_nat a) i = bytes_at (512 * a) (512 * i) (sectors_from med k n)"
proof -
  obtain r where n: "n = a + (i + r)" using assms(2) by (metis add.assoc le_Suc_ex)
  have "length (sectors_from med k a) = 512 * a" using assms n by (intro length_sectors_from_all) auto
  moreover have "length (sectors_from med (k + of_nat a) i) = 512 * i"
  proof (intro length_sectors_from_all allI impI)
    fix j assume "j < i"
    then show "length (med (k + of_nat a + of_nat j)) = 512"
      using assms(1) [rule_format, of "a + j"] n by (simp add: add.assoc)
  qed
  ultimately show ?thesis unfolding n sectors_from_add [of med k a] sectors_from_add [of med _ i]
    by (simp add: bytes_at_def)
qed

lemma served_length:
  assumes "volume_ready io view geo media info n g m s" "j < unat (psize g)"
  shows "length (media (i_slave info) (unat (start g + of_nat j))) = 512"
proof -
  have "unat (start g + of_nat j) = unat (start g) + j"
    using assms unat_u64_less [of n] unfolding volume_ready_def by (simp add: unat_word_ariths unat_of_nat)
  then have "start g + of_nat j < n" using assms by (simp add: volume_ready_def word_less_nat_alt)
  then show ?thesis using assms(1) ide.sector_len [of io view geo media info n s] by (simp add: volume_ready_def)
qed

interpretation pvol: volume "partition_ops io m g" "volume_ready io view geo media info n g m"
  "partition_image media info g"
  for io m g view geo media info n
proof unfold_locales
  fix s off and sector k :: u64 and buf :: "byte list"
  assume r: "volume_ready io view geo media info n g m s"
    and len: "512 * (unat sector + unat k) \<le> length (partition_image media info g)" "off + 512 * unat k \<le> length buf"
  have "\<forall>j<unat (psize g). length (media (i_slave info) (unat (start g + of_nat j))) = 512"
    using served_length [OF r] by blast
  note all = length_sectors_from_all [of _ "\<lambda>k. media (i_slave info) (unat k)", OF this]
    sectors_from_within [of _ "\<lambda>k. media (i_slave info) (unat k)", OF this, of "unat sector" "unat k"]
  have in_part: "unat sector + unat k \<le> unat (psize g)" using len(1) all(1) by (simp add: partition_image_def)
  then have "sectors_from (\<lambda>k. media (i_slave info) (unat k)) (sector + start g) (unat k) =
      bytes_at (512 * unat sector) (512 * unat k) (partition_image media info g)"
    using all(2) by (simp add: partition_image_def add.commute)
  then show "\<exists>s'. pread (partition_ops io m g) s buf off sector k = Some (int (unat k),
      put_bytes off (bytes_at (512 * unat sector) (512 * unat k) (partition_image media info g)) buf, s')
    \<and> volume_ready io view geo media info n g m s'"
    using ide.partition_read_ok [of io view geo media info n s g sector k off buf] r in_part len(2)
    by (auto simp: volume_ready_def partition_ops_def disk_read_def ide_cached_iff)
qed (auto simp: volume_ready_def partition_ops_def)

section \<open>A sample file\<close>

text \<open>
  A file of 1500 bytes on the partition of 100 sectors at sector 40 of \<open>sample_media\<close>: its first block
  is block 20, the sectors 80 and 81 of the drive, its second block is a hole.
\<close>

definition sample_inode :: "byte list" where
  "sample_inode = [0xA4, 0x81, 0, 0, 0xDC, 5, 0, 0] @ replicate 32 0 @ [20, 0, 0, 0] @ replicate 84 0"

definition sample_open_entry :: inode_entry where
  "sample_open_entry = \<lparr>e_inode = sample_inode, inumber = 12, bl_free = False, old_mode = 0x81A4, pos = 510\<rparr>"

definition sample_e2fs :: e2fs where
  "sample_e2fs = \<lparr>this_open = True, sb = [], gds = [], root_inode = None, ngroups = 1, directlim = 11, ind1lim = 267,
     ind2lim = 65547, ptrs_per_blk = 256, blkbuf = replicate 4096 0, cached_iblkno = - 1, iblkbuf = replicate 4096 0,
     cached_diblkno = - 1, diblkbuf = replicate 4096 0, blocksize = 1024,
     inode_table = replicate 32 sample_open_entry, diroffset = 0, blockoffset = 0, namebuf = [], fullname = [],
     tok_last = None\<rparr>"

definition sample_partition :: partition where
  "sample_partition = \<lparr>start = 40, psize = 100\<rparr>"

definition sample_malloc :: "u32 \<Rightarrow> byte list option" where
  "sample_malloc k = Some (replicate (unat k) 0)"

definition sample_image :: "byte list" where
  "sample_image = partition_image sample_media sample_info sample_partition"

lemma sample_volume:
  "volume_ready (drive_io geo sample_media) drive_view geo sample_media sample_info 1000 sample_partition sample_malloc
     sample_machine"
proof -
  have "ide_serves (drive_io geo sample_media) drive_view geo sample_media sample_info 1000 sample_machine"
    by (rule sample_serves) (auto simp: sample_media_def)
  then show ?thesis using sample_cache by (auto simp: volume_ready_def sample_partition_def sample_malloc_def)
qed

lemma sample_image_sectors:
  assumes "a + i \<le> 100"
  shows "bytes_at (512 * a) (512 * i) sample_image = sectors_from (\<lambda>k. sample_media 0 (unat k)) (40 + of_nat a) i"
    and "length sample_image = 51200"
proof -
  have sl: "i_slave sample_info = 0" by (simp add: sample_info_def memset_info_def)
  have all: "\<forall>j<100. length ((\<lambda>k. sample_media 0 (unat k)) ((40 :: u64) + of_nat j)) = 512"
    by (simp add: sample_media_def unat_word_ariths unat_of_nat)
  show "bytes_at (512 * a) (512 * i) sample_image = sectors_from (\<lambda>k. sample_media 0 (unat k)) (40 + of_nat a) i"
    using sectors_from_within [OF all assms] sl by (simp add: sample_image_def partition_image_def sample_partition_def)
  show "length sample_image = 51200"
    using length_sectors_from_all [OF all] sl by (simp add: sample_image_def partition_image_def sample_partition_def)
qed

lemma sample_inode_fields:
  "i_size sample_inode = 1500" "i_block sample_inode 0 = 20" "i_block sample_inode (Suc 0) = 0"
  by (simp_all add: i_size_def i_block_def field32_def sample_inode_def bytes_at_def replicate_numeral)

lemma sample_mounted: "fs_ok sample_image sample_e2fs" "geometry_ok sample_e2fs"
  by (auto simp: fs_ok_def geometry_ok_def cache_holds_def sample_e2fs_def intro: exI [of _ 0])

lemma sample_map_ok: "k < 2 \<Longrightarrow> map_ok sample_image 1024 sample_inode k"
  using sample_image_sectors(2) [of 0 0] sample_inode_fields
  by (elim less_2_cases [THEN disjE]) (simp_all add: map_ok_def Let_def block_map_def block_ok_def)

lemma sample_file_ok: "file_ok sample_image 1024 sample_inode"
  using sample_map_ok by (simp add: file_ok_def sample_inode_fields)

lemma sectors_from_2: "sectors_from med k 2 = med k @ med (k + 1)"
  by (simp add: numeral_2_eq_2)

lemma sample_read: "bytes_at 510 4 (file_contents sample_image 1024 sample_inode) = [80, 80, 81, 81]"
proof -
  have "bytes_at 510 4 (file_contents sample_image 1024 sample_inode) = bytes_at 510 4 (block_at sample_image 1024 20)"
    using file_contents_chunk [OF sample_file_ok, of 510 4] sample_inode_fields
    by (simp add: file_block_def block_map_def)
  also have "block_at sample_image 1024 20 = replicate 512 80 @ replicate 512 81"
    using sample_image_sectors(1) [of 40 2] by (simp add: block_at_def sample_media_def sectors_from_2)
  finally show ?thesis by (simp add: bytes_at_def replicate_numeral)
qed

section \<open>Properties\<close>

text \<open>
  C16: The block map.  Whatever the one-block caches hold, \<open>ext2_blkno\<close> returns the block that the
  inode's direct, indirect and double indirect pointers give for the index, for every index up to
  \<open>ind2lim\<close>, and leaves the caches consistent with the volume.\<close>

theorem ext2_blkno_correct:
  assumes "volume_ready io view geo media info n g m s" "fs_ok (partition_image media info g) e"
    "map_ok (partition_image media info g) (unat (blocksize e)) ip (unat k)"
    "unat k < 12 + (unat (blocksize e) div 4) * (unat (blocksize e) div 4)"
  shows "\<exists>e' s'. ext2_blkno (partition_ops io m g) e s ip k =
      Some (block_map (partition_image media info g) (unat (blocksize e)) ip (unat k), e', s')
    \<and> volume_ready io view geo media info n g m s' \<and> fs_ok (partition_image media info g) e' \<and> rebuffered e e'"
  using assms by (rule pvol.ext2_blkno_ok)

theorem ext2_blkno_correct_witness:
  "\<exists>e' s'. ext2_blkno (partition_ops (drive_io (16, 63) sample_media) sample_malloc sample_partition) sample_e2fs
     sample_machine sample_inode 0 = Some (20, e', s')"
  using ext2_blkno_correct [OF sample_volume [of "(16, 63)"] sample_mounted(1) [unfolded sample_image_def], of sample_inode 0]
    sample_map_ok [of 0] sample_inode_fields
  by (auto simp: sample_e2fs_def block_map_def sample_image_def)

text \<open>
  C32: The double indirect range is cut short.  The format's double indirect block covers the indices
  from \<open>12 + P\<close> to \<open>12 + P + P * P - 1\<close> for \<open>P\<close> pointers in a block, but every index from \<open>12 + P * P\<close>
  on is answered with block 0, a hole, without a look at the volume.\<close>

theorem ext2_blkno_last_blocks_are_holes:
  assumes "geometry_ok e" "12 + (unat (blocksize e) div 4) * (unat (blocksize e) div 4) \<le> unat k" "unat k < 2147483648"
  shows "ext2_blkno v e s ip k = Some (0, e, s)"
proof -
  note lim = geometry_limits [OF assms(1)]
  have "1 * (unat (blocksize e) div 4) \<le> (unat (blocksize e) div 4) * (unat (blocksize e) div 4)"
    using lim(6) by (intro mult_le_mono1) simp
  then have "\<not> sint k \<le> sint (directlim e)" "\<not> sint k \<le> sint (ind1lim e)" "\<not> sint k \<le> sint (ind2lim e)"
    using assms(2) unfolding lim sint_small [OF assms(3)] by linarith+
  then show ?thesis by (simp add: ext2_blkno_def)
qed

theorem ext2_blkno_last_blocks_are_holes_witness:
  "ext2_blkno (partition_ops (drive_io (16, 63) sample_media) sample_malloc sample_partition) sample_e2fs
     sample_machine sample_inode 65548 = Some (0, sample_e2fs, sample_machine)"
  by (rule ext2_blkno_last_blocks_are_holes) (simp_all add: sample_mounted, simp_all add: sample_e2fs_def)

text \<open>
  C6: Reading an open file.  \<open>ext2fs_read\<close> on a mounted partition implements a read of the abstract
  file (its bytes and a position): the caller's buffer gets the bytes at the position, as many as
  asked for or as are left, \<open>*size\<close> becomes their number, the position moves past them, and no other
  open file changes.\<close>

theorem ext2fs_read_refines:
  assumes "volume_ready io view geo media info n g m s" "fs_ok (partition_image media info g) e" "this_open e" "fd < 32"
    "file_ok (partition_image media info g) (unat (blocksize e)) (e_inode (inode_table e ! fd))"
    "snd (abs_file (partition_image media info g) e fd) \<le> length (fst (abs_file (partition_image media info g) e fd))"
    "read_file (unat sz) (abs_file (partition_image media info g) e fd) = (data, f)" "length data \<le> length buf"
  shows "\<exists>e' s'. ext2fs_read (partition_ops io m g) e s fd buf sz =
      Some (0, data @ drop (length data) buf, of_nat (length data), e', s')
    \<and> volume_ready io view geo media info n g m s' \<and> fs_ok (partition_image media info g) e'
    \<and> abs_file (partition_image media info g) e' fd = f
    \<and> inode_table e' = (inode_table e)[fd := (inode_table e ! fd)\<lparr>pos := of_nat (snd f)\<rparr>]"
  using pvol.ext2fs_read_ok [OF assms] by blast

theorem ext2fs_read_refines_witness:
  "\<exists>e' s'. ext2fs_read (partition_ops (drive_io (16, 63) sample_media) sample_malloc sample_partition) sample_e2fs
     sample_machine 3 (replicate 6 7) 4 = Some (0, [80, 80, 81, 81, 7, 7], 4, e', s')"
proof -
  let ?c = "file_contents sample_image 1024 sample_inode"
  have a: "abs_file sample_image sample_e2fs 3 = (?c, 510)" "unat (blocksize sample_e2fs) = 1024"
    "e_inode (inode_table sample_e2fs ! 3) = sample_inode" "this_open sample_e2fs"
    by (simp_all add: abs_file_def sample_e2fs_def sample_open_entry_def)
  have l: "length ?c = 1500" by (simp add: file_contents_def sample_inode_fields)
  have "read_file (unat (4 :: u32)) (abs_file sample_image sample_e2fs 3) = ([80, 80, 81, 81], (?c, 514))"
    using sample_read a l by (simp add: bytes_at_def)
  with ext2fs_read_refines [OF sample_volume [of "(16, 63)"] sample_mounted(1) [unfolded sample_image_def], of 3 4
      "[80, 80, 81, 81]" "(?c, 514)" "replicate 6 7"] a l sample_file_ok
  show ?thesis by (auto simp: sample_image_def replicate_numeral)
qed

text \<open>
  C31: Seeking.  \<open>ext2fs_seek\<close> implements the seek of the abstract file for every 64-bit position:
  a position up to the end becomes the position, any other is refused and changes nothing.\<close>

theorem ext2fs_seek_refines:
  assumes "fs_ok img e" "this_open e" "fd < 32"
  shows "case seek_file (unat q) (abs_file img e fd) of
      Some f \<Rightarrow> \<exists>e'. ext2fs_seek e fd q = Some (0, e') \<and> abs_file img e' fd = f \<and> fs_ok img e'
    | None \<Rightarrow> ext2fs_seek e fd q = Some (- 1, e)"
proof -
  define ip where "ip = e_inode (inode_table e ! fd)"
  have l: "length (inode_table e) = 32" using assms(1) by (simp add: fs_ok_def)
  have c: "length (file_contents img (unat (blocksize e)) ip) = unat (i_size ip)" by (simp add: file_contents_def)
  have w: "ucast (i_size ip) < q \<longleftrightarrow> unat (i_size ip) < unat q"
    by (simp add: word_less_nat_alt unat_ucast_u32_u64)
  show ?thesis
  proof (cases "unat q \<le> unat (i_size ip)")
    case True
    then have "unat q < 4294967296" using unat_u32_less [of "i_size ip"] by linarith
    then have "\<not> q \<ge> 0x100000000" "unat (ucast q :: u32) = unat q"
      by (simp_all add: word_le_nat_alt unsigned_ucast_eq take_bit_nat_eq_self)
    with True assms l c w show ?thesis
      by (simp add: ext2fs_seek_def abs_file_def rd1_def MAX_OPEN_FILES_def fs_ok_def geometry_ok_def flip: ip_def)
  next
    case False
    with assms l c w show ?thesis
      by (simp add: ext2fs_seek_def abs_file_def rd1_def MAX_OPEN_FILES_def flip: ip_def)
  qed
qed

theorem ext2fs_seek_refines_witness:
  "ext2fs_seek sample_e2fs 3 1501 = Some (- 1, sample_e2fs)"
  using ext2fs_seek_refines [OF sample_mounted(1), of 3 1501]
  by (simp add: abs_file_def sample_e2fs_def sample_open_entry_def file_contents_def sample_inode_fields)

text \<open>
  C33: The descriptor check is off by one.  A mounted file system accepts descriptor 32, one past the
  table of 32 inodes: every operation that takes it then leaves the table.\<close>

theorem ext2fs_descriptor_off_by_one:
  assumes "this_open e" "length (inode_table e) = 32"
  shows "ext2fs_read v e s 32 buf sz = None \<and> ext2fs_close e 32 = None \<and> ext2fs_fstat e 32 = None
    \<and> ext2fs_seek e 32 0 = None \<and> ext2fs_read v e s 33 buf sz = Some (- 1, buf, sz, e, s)"
  using assms by (simp add: ext2fs_read_def ext2fs_close_def ext2_close_def ext2fs_fstat_def ext2_fstat_def ext2fs_seek_def
      MAX_OPEN_FILES_def rd1_def)

theorem ext2fs_descriptor_off_by_one_witness:
  "ext2fs_close sample_e2fs 32 = None"
  using ext2fs_descriptor_off_by_one [of sample_e2fs "partition_ops (drive_io (16, 63) sample_media) sample_malloc sample_partition"
      sample_machine "[]" 0] by (simp add: sample_e2fs_def)

text \<open>
  \<open>read_bytes\<close> counts sectors from the size alone.  When a request of a nonzero size starts inside a
  sector and its last byte falls into one sector more than the size needs, the copy runs past the
  allocated buffer.\<close>

theorem read_bytes_overrun:
  assumes "unat sz \<le> 65024" "512 * ((unat sz + 511) div 512) < unat offset mod 512 + unat sz"
    "bl_malloc v ((sz + 511) div 512 * 512) = Some buffer"
    "pread v s buffer 0 (ucast (offset div 512)) (ucast ((sz + 511) div 512)) =
      Some (int ((unat sz + 511) div 512), buffer', s')"
    "length buffer' = 512 * ((unat sz + 511) div 512)"
  shows "read_bytes v s offset addr aoff sz = None"
proof -
  let ?n = "(unat sz + 511) div 512"
  have c: "unat ((sz + 511) div 512) = ?n" using assms(1) by (simp add: ceil_sectors)
  have "(of_int (int ?n) :: u32) = (sz + 511) div 512" by (simp add: c [symmetric])
  moreover have "unat (ucast offset - ucast (offset div 512) * (512 :: u64)) = unat offset mod 512"
    by (rule unat_sector_offset)
  moreover have "rd buffer' (unat offset mod 512) (unat sz) = None"
    using assms(2,5) by (simp add: rd_def)
  ultimately show ?thesis using assms(3,4) by (simp add: read_bytes_def Let_def)
qed

theorem read_bytes_overrun_witness:
  "read_bytes \<lparr>pread = \<lambda>s buf off sector n. Some (int (unat n), buf, s), bl_malloc = sample_malloc\<rparr> () 128
     (replicate 1024 0) 0 1024 = None"
  by (rule read_bytes_overrun [of _ _ _ "replicate 1024 0" _ "replicate 1024 0" "()"])
    (simp_all add: sample_malloc_def)

end
