(* ===== verification/Ext2_Path.thy ===== *)
theory Ext2_Path
  imports Ext2_Read
begin

text \<open>
  What a path means on an ext2 volume, and that \<^verbatim>\<open>ext2fs.c\<close> finds it: mounting, the search of a
  directory, the walk along the components of a path, the table of open inodes.  A locale context
  holds the lemmas of \<open>volume\<close>; the properties are its instances on the partition.

  The reference definitions read the bytes of the volume: \<open>dir_entries\<close> is the list of the entries
  of a directory, \<open>resolve\<close> the inode number that a list of names leads to.  The state relation
  \<open>mounted\<close> ties the driver's state to the volume.
\<close>

section \<open>Reference\<close>

subsection \<open>The volume\<close>

definition sb_of :: "byte list \<Rightarrow> byte list" where "sb_of img = bytes_at 1024 1024 img"

definition block_size_of :: "byte list \<Rightarrow> nat" where
  "block_size_of img = 1024 * 2 ^ unat (s_log_block_size (sb_of img))"

definition ngroups_of :: "byte list \<Rightarrow> u32" where
  "ngroups_of img = (s_blocks_count (sb_of img) - s_first_data_block (sb_of img) + s_blocks_per_group (sb_of img) - 1)
     div s_blocks_per_group (sb_of img)"

definition gdt_place :: "byte list \<Rightarrow> nat" where
  "gdt_place img = (if block_size_of img = 1024 then 2048 else block_size_of img)"

definition gds_of :: "byte list \<Rightarrow> byte list" where
  "gds_of img = bytes_at (gdt_place img) (unat (ngroups_of img * 32)) img"

text \<open>A super block and a table of group descriptors that the driver reads without overflow.\<close>

definition volume_ok :: "byte list \<Rightarrow> bool" where
  "volume_ok img \<longleftrightarrow> s_magic (sb_of img) = EXT2_SUPER_MAGIC \<and> unat (s_log_block_size (sb_of img)) < 3
     \<and> s_blocks_per_group (sb_of img) \<noteq> 0 \<and> s_inodes_per_group (sb_of img) \<noteq> 0
     \<and> unat (ngroups_of img * 32) \<le> 65024
     \<and> gdt_place img + 512 * ((unat (ngroups_of img * 32) + 511) div 512) \<le> length img \<and> 2048 \<le> length img"

definition inode_group :: "byte list \<Rightarrow> u32 \<Rightarrow> nat" where
  "inode_group img ino = unat ((ino - 1) div s_inodes_per_group (sb_of img))"

definition inode_place :: "byte list \<Rightarrow> u32 \<Rightarrow> nat" where
  "inode_place img ino =
     unat (bg_inode_table (bytes_at (32 * inode_group img ino) 32 (gds_of img))) * block_size_of img
     + unat ((ino - 1) mod s_inodes_per_group (sb_of img)) * unat (EXT2_INODE_SIZE (sb_of img))"

definition inode_at :: "byte list \<Rightarrow> u32 \<Rightarrow> byte list" where
  "inode_at img ino = bytes_at (inode_place img ino) 128 img"

text \<open>The inode lies in the volume, below the limit of the 32-bit offset and within one sector.\<close>

definition inode_ok :: "byte list \<Rightarrow> u32 \<Rightarrow> bool" where
  "inode_ok img ino \<longleftrightarrow> 32 * inode_group img ino + 32 \<le> unat (ngroups_of img * 32)
     \<and> inode_place img ino < 2 ^ 32 \<and> inode_place img ino mod 512 + 128 \<le> 512
     \<and> 512 * (inode_place img ino div 512 + 1) \<le> length img"

subsection \<open>Directories\<close>

text \<open>The chain of records of a block from an offset on, and that it ends with the block.\<close>

function dirents :: "byte list \<Rightarrow> nat \<Rightarrow> (u32 \<times> byte list) list" where
  "dirents blk off =
     (if off < length blk \<and> 0 < unat (field16 (off + 4) blk)
      then (field32 off blk, bytes_at (off + 8) (unat (blk ! (off + 6))) blk) # dirents blk (off + unat (field16 (off + 4) blk))
      else [])"
  by pat_completeness auto
termination by (relation "measure (\<lambda>(blk, off). length blk - off)") auto

function chain_ok :: "byte list \<Rightarrow> nat \<Rightarrow> bool" where
  "chain_ok blk off \<longleftrightarrow> off = length blk \<or>
     (if off + 8 \<le> length blk \<and> 8 + unat (blk ! (off + 6)) \<le> unat (field16 (off + 4) blk)
         \<and> off + unat (field16 (off + 4) blk) \<le> length blk
      then chain_ok blk (off + unat (field16 (off + 4) blk)) else False)"
  by pat_completeness auto
termination by (relation "measure (\<lambda>(blk, off). length blk - off)") auto

declare dirents.simps [simp del] chain_ok.simps [simp del]

definition dir_blocks :: "nat \<Rightarrow> byte list \<Rightarrow> nat" where
  "dir_blocks bs ip = (unat (i_size ip) + bs - 1) div bs"

definition dir_entries :: "byte list \<Rightarrow> nat \<Rightarrow> byte list \<Rightarrow> (u32 \<times> byte list) list" where
  "dir_entries img bs ip = concat (map (\<lambda>k. dirents (file_block img bs ip k) 0) [0..<dir_blocks bs ip])"

definition dir_ok :: "byte list \<Rightarrow> nat \<Rightarrow> byte list \<Rightarrow> bool" where
  "dir_ok img bs ip \<longleftrightarrow> file_ok img bs ip \<and> 0 < unat (i_size ip) \<and> (\<forall>k < dir_blocks bs ip. chain_ok (file_block img bs ip k) 0)"

text \<open>The first entry with the name; the driver does not leave out the entries of inode 0.\<close>

definition entry_of :: "byte list \<Rightarrow> (u32 \<times> byte list) list \<Rightarrow> u32 option" where
  "entry_of name es = map_option fst (List.find (\<lambda>d. snd d = name) es)"

definition dir_lookup :: "byte list \<Rightarrow> byte list \<Rightarrow> byte list \<Rightarrow> u32 option" where
  "dir_lookup img ip name = entry_of name (dir_entries img (block_size_of img) ip)"

subsection \<open>Paths\<close>

fun resolve :: "byte list \<Rightarrow> u32 \<Rightarrow> byte list list \<Rightarrow> u32 option" where
  "resolve img ino [] = Some ino"
| "resolve img ino (c # cs) =
     (case dir_lookup img (inode_at img ino) c of None \<Rightarrow> None | Some j \<Rightarrow> resolve img j cs)"

definition names_ok :: "byte list list \<Rightarrow> bool" where
  "names_ok cs \<longleftrightarrow> (\<forall>c \<in> set cs. path_component 0x2F c \<and> length c < 256)"

text \<open>Every inode on the way is in the volume, and all but the last are directories.\<close>

fun path_ok :: "byte list \<Rightarrow> u32 \<Rightarrow> byte list list \<Rightarrow> bool" where
  "path_ok img ino [] \<longleftrightarrow> inode_ok img ino"
| "path_ok img ino (c # cs) \<longleftrightarrow> inode_ok img ino \<and> dir_ok img (block_size_of img) (inode_at img ino)
     \<and> (case dir_lookup img (inode_at img ino) c of None \<Rightarrow> True | Some j \<Rightarrow> unat j < 2147483648 \<and> path_ok img j cs)"

lemma path_ok_inode: "path_ok img ino cs \<Longrightarrow> inode_ok img ino"
  by (cases cs) auto

lemma up_to_sector: "(n :: nat) \<le> 512 * ((n + 511) div 512)"
proof -
  have "(n + 511) mod 512 < 512" by simp
  then show ?thesis using mult_div_mod_eq [of 512 "n + 511"] by linarith
qed

lemma length_gds: "volume_ok img \<Longrightarrow> length (gds_of img) = unat (ngroups_of img * 32)"
  using up_to_sector [of "unat (ngroups_of img * 32)"] unfolding gds_of_def volume_ok_def length_bytes_at by linarith

lemma inode_within:
  assumes "inode_ok img ino"
  shows "inode_place img ino + 128 \<le> length img" "length (inode_at img ino) = 128"
proof -
  have "p + 128 \<le> n" if "p = 512 * q + r" "r + 128 \<le> 512" "512 * (q + 1) \<le> n" for p q r n :: nat using that by simp
  from this [OF _ _ _, of "inode_place img ino" "inode_place img ino div 512" "inode_place img ino mod 512"]
  show "inode_place img ino + 128 \<le> length img" using assms by (simp add: inode_ok_def)
  then show "length (inode_at img ino) = 128" by (simp add: inode_at_def)
qed

section \<open>State\<close>

text \<open>The driver's state for the volume, and what a search changes.\<close>

definition mounted :: "byte list \<Rightarrow> e2fs \<Rightarrow> bool" where
  "mounted img e \<longleftrightarrow> fs_ok img e \<and> this_open e \<and> sb e = sb_of img \<and> take (length (gds_of img)) (gds e) = gds_of img
     \<and> unat (blocksize e) = block_size_of img"

definition same_files :: "e2fs \<Rightarrow> e2fs \<Rightarrow> bool" where
  "same_files e e' \<longleftrightarrow> inode_table e' = inode_table e \<and> root_inode e' = root_inode e \<and> namebuf e' = namebuf e
     \<and> tok_last e' = tok_last e"

lemma same_files_refl [simp]: "same_files e e"
  by (simp add: same_files_def)

lemma same_files_trans: "same_files e e' \<Longrightarrow> same_files e' e'' \<Longrightarrow> same_files e e''"
  by (simp add: same_files_def)

lemma rebuffered_same_files: "rebuffered e e' \<Longrightarrow> same_files e e'"
  by (auto simp: rebuffered_def same_files_def)

lemma mounted_rebuffered: "mounted img e \<Longrightarrow> rebuffered e e' \<Longrightarrow> fs_ok img e' \<Longrightarrow> mounted img e'"
  by (simp add: mounted_def rebuffered_sel)

lemma mounted_update [simp]:
  "mounted img (e\<lparr>diroffset := a\<rparr>) = mounted img e" "mounted img (e\<lparr>blockoffset := b\<rparr>) = mounted img e"
  "mounted img (e\<lparr>namebuf := c\<rparr>) = mounted img e" "mounted img (e\<lparr>tok_last := d\<rparr>) = mounted img e"
  "mounted img (e\<lparr>root_inode := f\<rparr>) = mounted img e"
  by (simp_all add: mounted_def fs_ok_def geometry_ok_def)

lemma mounted_table: "mounted img e \<Longrightarrow> length t = 32 \<Longrightarrow> mounted img (e\<lparr>inode_table := t\<rparr>)"
  by (auto simp: mounted_def fs_ok_def geometry_ok_def)

lemma mounted_blkbuf: "mounted img e \<Longrightarrow> length x = 4096 \<Longrightarrow> mounted img (e\<lparr>blkbuf := x\<rparr>)"
  by (auto simp: mounted_def fs_ok_def geometry_ok_def)

lemma mounted_block_size:
  assumes "mounted img e"
  shows "unat (blocksize e) = block_size_of img" "1024 \<le> block_size_of img" "block_size_of img \<le> 4096"
    "sint (blocksize e) = int (block_size_of img)" "length (blkbuf e) = 4096" "length (inode_table e) = 32"
  using assms geometry_nat [of e] sint_small [of "blocksize e"] by (auto simp: mounted_def fs_ok_def)

text \<open>The table of open inodes: the inode buffers, the slot of the root directory, free slots.\<close>

definition slot_holds :: "byte list \<Rightarrow> e2fs \<Rightarrow> nat \<Rightarrow> u32 \<Rightarrow> bool" where
  "slot_holds img e i ino \<longleftrightarrow> i < 32 \<and> \<not> bl_free (inode_table e ! i) \<and> e_inode (inode_table e ! i) = inode_at img ino"

definition table_ok :: "byte list \<Rightarrow> e2fs \<Rightarrow> bool" where
  "table_ok img e \<longleftrightarrow> (\<forall>i<32. length (e_inode (inode_table e ! i)) = 128)
     \<and> (\<forall>r. root_inode e = Some r \<longrightarrow> slot_holds img e r EXT2_ROOT_INO)"

definition free_slot :: "e2fs \<Rightarrow> nat \<Rightarrow> bool" where
  "free_slot e i \<longleftrightarrow> i < 32 \<and> bl_free (inode_table e ! i)"

text \<open>Room in the table: one slot for the walk, and one for the root directory the first time.\<close>

definition has_room :: "e2fs \<Rightarrow> bool" where
  "has_room e \<longleftrightarrow> (\<exists>i j. free_slot e i \<and> (root_inode e = None \<longrightarrow> free_slot e j \<and> i \<noteq> j))"

text \<open>Slots in use keep what they hold, but for those in \<open>A\<close>.\<close>

definition slots_kept :: "nat set \<Rightarrow> e2fs \<Rightarrow> e2fs \<Rightarrow> bool" where
  "slots_kept A e e' \<longleftrightarrow> (\<forall>i<32. i \<notin> A \<longrightarrow> \<not> bl_free (inode_table e ! i) \<longrightarrow> inode_table e' ! i = inode_table e ! i)"

lemma slots_kept_refl [simp]: "slots_kept A e e"
  by (simp add: slots_kept_def)

lemma slots_kept_mono: "slots_kept A e e' \<Longrightarrow> A \<subseteq> B \<Longrightarrow> slots_kept B e e'"
  by (auto simp: slots_kept_def)

lemma first_free_Some: "first_free xs k = Some i \<Longrightarrow> k \<le> i \<and> i - k < length xs \<and> bl_free (xs ! (i - k))"
proof (induction xs arbitrary: k)
  case (Cons x xs)
  then show ?case by (cases "bl_free x") (fastforce simp: Suc_diff_le nth_Cons' split: if_splits)+
qed simp

lemma first_free_None: "first_free xs k = None \<longleftrightarrow> (\<forall>x \<in> set xs. \<not> bl_free x)"
  by (induction xs arbitrary: k) auto

lemma first_free_slot:
  assumes "length (inode_table e) = 32" "free_slot e j"
  shows "\<exists>i. first_free (inode_table e) 0 = Some i \<and> free_slot e i"
proof -
  have "inode_table e ! j \<in> set (inode_table e)" using assms by (simp add: free_slot_def)
  then obtain i where "first_free (inode_table e) 0 = Some i"
    using assms(2) first_free_None [of "inode_table e" 0] by (auto simp: free_slot_def)
  then show ?thesis using first_free_Some [of "inode_table e" 0 i] assms(1) by (auto simp: free_slot_def)
qed

lemma same_files_table:
  assumes "same_files e e'"
  shows "table_ok img e' = table_ok img e" "slot_holds img e' i ino = slot_holds img e i ino" "free_slot e' i = free_slot e i"
    "slots_kept A e e'"
  using assms by (simp_all add: same_files_def table_ok_def slot_holds_def free_slot_def slots_kept_def)

lemma table_ok_pos:
  assumes "table_ok img e" "length (inode_table e) = 32" "fd < 32"
  shows "table_ok img (e\<lparr>inode_table := (inode_table e)[fd := (inode_table e ! fd)\<lparr>pos := q\<rparr>]\<rparr>)"
  using assms by (auto simp: table_ok_def slot_holds_def nth_list_update)

lemma iput_ok:
  assumes "mounted img e" "table_ok img e" "dir < 32" "root_inode e \<noteq> Some dir"
  shows "mounted img (ext2_iput e dir)" "table_ok img (ext2_iput e dir)" "free_slot (ext2_iput e dir) dir"
    "slots_kept {dir} e (ext2_iput e dir)"
    "namebuf (ext2_iput e dir) = namebuf e" "tok_last (ext2_iput e dir) = tok_last e" "root_inode (ext2_iput e dir) = root_inode e"
  using assms mounted_table [OF assms(1)] mounted_block_size(6) [OF assms(1)]
  by (auto simp: ext2_iput_def table_ok_def free_slot_def slot_holds_def slots_kept_def nth_list_update)

section \<open>Components of a path\<close>

text \<open>
  The walk along a path: \<open>cur\<close> is the component at hand, cut off in the name object, and the rest of
  the object is still to be split.
\<close>

definition to_split :: "e2fs \<Rightarrow> nat option \<Rightarrow> byte list list \<Rightarrow> bool" where
  "to_split e cur cs \<longleftrightarrow> (case cs of
       [] \<Rightarrow> cur = None
     | c # cs \<Rightarrow> (\<exists>pre t. cur = Some (length pre) \<and>
         (if cs = [] then namebuf e = pre @ c @ 0 # t \<and> tok_last e = None
          else namebuf e = pre @ c @ 0 # join_path 0x2F cs @ 0 # t \<and> tok_last e = Some (length pre + length c + 1))))"

lemma to_split_cong: "namebuf e' = namebuf e \<Longrightarrow> tok_last e' = tok_last e \<Longrightarrow> to_split e' cur cs = to_split e cur cs"
  by (simp add: to_split_def cong: list.case_cong)

lemma next_component_ok:
  assumes "to_split e cur (c # cs)" "\<forall>c \<in> set cs. path_component 0x2F c"
  shows "\<exists>cur' bs l. next_component e Caller_name None = Some (cur', e\<lparr>namebuf := bs, tok_last := l\<rparr>)
    \<and> to_split (e\<lparr>namebuf := bs, tok_last := l\<rparr>) cur' cs \<and> length bs = length (namebuf e)"
proof (cases cs)
  case Nil
  then show ?thesis using assms(1)
    by (auto simp: to_split_def next_component_def strtok_simple_def intro!: exI [of _ "namebuf e"] exI [of _ None])
next
  case (Cons d ds)
  then obtain pre t where p: "namebuf e = (pre @ c @ [0]) @ join_path 0x2F cs @ 0 # t"
    "tok_last e = Some (length (pre @ c @ [0]))"
    using assms(1) by (auto simp: to_split_def)
  have d: "d \<noteq> []" "0 \<notin> set d" "0x2F \<notin> set d" using assms(2) Cons by (auto simp: path_component_def)
  note tok = strtok_simple_component [OF d, of None "tok_last e" "pre @ c @ [0]"]
  show ?thesis
  proof (cases ds)
    case Nil
    have "strtok_simple (namebuf e) None 0x2F (tok_last e) = Some (Some (length (pre @ c @ [0])), (pre @ c @ [0]) @ d @ 0 # t, None)"
      using tok(2) [of t] p Cons Nil by simp
    then have "next_component e Caller_name None = Some (Some (length (pre @ c @ [0])),
        e\<lparr>namebuf := (pre @ c @ [0]) @ d @ 0 # t, tok_last := None\<rparr>)"
      by (simp add: next_component_def)
    moreover have "to_split (e\<lparr>namebuf := (pre @ c @ [0]) @ d @ 0 # t, tok_last := None\<rparr>) (Some (length (pre @ c @ [0]))) cs"
      using Cons Nil by (simp add: to_split_def) (rule exI [of _ "pre @ c @ [0]"], simp)
    moreover have "length ((pre @ c @ [0]) @ d @ 0 # t) = length (namebuf e)" using p Cons Nil by simp
    ultimately show ?thesis by blast
  next
    case (Cons d' ds')
    have "strtok_simple (namebuf e) None 0x2F (tok_last e) = Some (Some (length (pre @ c @ [0])),
        (pre @ c @ [0]) @ d @ 0 # join_path 0x2F ds @ 0 # t, Some (length (pre @ c @ [0]) + length d + 1))"
      using tok(1) [of "join_path 0x2F ds @ 0 # t"] p Cons \<open>cs = d # ds\<close> by simp
    then have "next_component e Caller_name None = Some (Some (length (pre @ c @ [0])),
        e\<lparr>namebuf := (pre @ c @ [0]) @ d @ 0 # join_path 0x2F ds @ 0 # t, tok_last := Some (length (pre @ c @ [0]) + length d + 1)\<rparr>)"
      by (simp add: next_component_def)
    moreover have "to_split (e\<lparr>namebuf := (pre @ c @ [0]) @ d @ 0 # join_path 0x2F ds @ 0 # t,
        tok_last := Some (length (pre @ c @ [0]) + length d + 1)\<rparr>) (Some (length (pre @ c @ [0]))) cs"
      using \<open>cs = d # ds\<close> Cons by (simp add: to_split_def) (rule exI [of _ "pre @ c @ [0]"], simp)
    moreover have "length ((pre @ c @ [0]) @ d @ 0 # join_path 0x2F ds @ 0 # t) = length (namebuf e)"
      using p \<open>cs = d # ds\<close> Cons by simp
    ultimately show ?thesis by blast
  qed
qed

text \<open>The first call: a path with or without a leading slash.\<close>

definition path_string :: "byte list list \<Rightarrow> byte list \<Rightarrow> bool" where
  "path_string cs path \<longleftrightarrow> cs \<noteq> [] \<and> (path = join_path 0x2F cs \<or> path = 0x2F # join_path 0x2F cs)"

lemma strtok_leading: "b \<noteq> c \<Longrightarrow> strtok_simple (c # b # t) (Some 0) c prev = strtok_simple (c # b # t) (Some 1) c prev"
  by (simp add: strtok_simple_def rd1_def Let_def)

lemma strtok_first:
  assumes "path_string (c # cs) path" "path_component 0x2F c"
  shows "\<exists>pre bs l. strtok_simple (path @ 0 # t) (Some 0) 0x2F prev = Some (Some (length pre), bs, l)
    \<and> (if cs = [] then bs = pre @ c @ 0 # t \<and> l = None
       else bs = pre @ c @ 0 # join_path 0x2F cs @ 0 # t \<and> l = Some (length pre + length c + 1))
    \<and> length bs = length path + 1 + length t"
proof -
  have c: "c \<noteq> []" "0 \<notin> set c" "0x2F \<notin> set c" using assms(2) by (simp_all add: path_component_def)
  have body: "join_path 0x2F (c # cs) = (if cs = [] then c else c @ 0x2F # join_path 0x2F cs)"
    by (cases cs) simp_all
  have tok: "strtok_simple (pre @ join_path 0x2F (c # cs) @ 0 # t) (Some (length pre)) 0x2F prev =
      Some (Some (length pre), pre @ c @ 0 # (if cs = [] then t else join_path 0x2F cs @ 0 # t),
        if cs = [] then None else Some (length pre + length c + 1))" for pre
    using strtok_simple_component [OF c, of "Some (length pre)" prev pre] by (simp add: body)
  have first: "\<exists>b t'. join_path 0x2F (c # cs) @ 0 # t = b # t' \<and> b \<noteq> 0x2F"
    using c(1,3) body by (cases c) auto
  from assms(1) consider "path = join_path 0x2F (c # cs)" | "path = 0x2F # join_path 0x2F (c # cs)"
    by (auto simp: path_string_def)
  then show ?thesis
  proof cases
    case 1
    then show ?thesis using tok [of "[]"] by - (rule exI [of _ "[]"], cases "cs = []"; simp add: body)
  next
    case 2
    then have "strtok_simple (path @ 0 # t) (Some 0) 0x2F prev = strtok_simple (path @ 0 # t) (Some 1) 0x2F prev"
      using first strtok_leading by force
    then show ?thesis using 2 tok [of "[0x2F]"] by - (rule exI [of _ "[0x2F]"], cases "cs = []"; simp add: body)
  qed
qed

lemma first_component_ok:
  assumes "path_string cs path" "names_ok cs" "namebuf e = path @ 0 # t"
  shows "\<exists>cur bs l. next_component e Caller_name (Some 0) = Some (cur, e\<lparr>namebuf := bs, tok_last := l\<rparr>)
    \<and> to_split (e\<lparr>namebuf := bs, tok_last := l\<rparr>) cur cs \<and> length bs = length (namebuf e)"
proof -
  obtain c cs' where cs: "cs = c # cs'" using assms(1) by (cases cs) (auto simp: path_string_def)
  have "path_component 0x2F c" using assms(2) by (simp add: cs names_ok_def)
  then obtain pre bs l where s: "strtok_simple (path @ 0 # t) (Some 0) 0x2F (tok_last e) = Some (Some (length pre), bs, l)"
    "if cs' = [] then bs = pre @ c @ 0 # t \<and> l = None
     else bs = pre @ c @ 0 # join_path 0x2F cs' @ 0 # t \<and> l = Some (length pre + length c + 1)"
    "length bs = length path + 1 + length t"
    using strtok_first [of c cs' path t "tok_last e"] assms(1) by (auto simp: cs)
  then have "next_component e Caller_name (Some 0) = Some (Some (length pre), e\<lparr>namebuf := bs, tok_last := l\<rparr>)"
    by (simp add: next_component_def assms(3))
  moreover have "to_split (e\<lparr>namebuf := bs, tok_last := l\<rparr>) (Some (length pre)) cs"
    using s(2) by (auto simp: to_split_def cs split: if_splits)
  moreover have "length bs = length (namebuf e)" using s(3) assms(3) by simp
  ultimately show ?thesis by blast
qed

section \<open>Records of a directory block\<close>

lemma chain_step:
  assumes "chain_ok blk off" "off < length blk"
  shows "off + 8 + unat (blk ! (off + 6)) \<le> length blk" "0 < unat (field16 (off + 4) blk)"
    "off + unat (field16 (off + 4) blk) \<le> length blk" "chain_ok blk (off + unat (field16 (off + 4) blk))"
    "dirents blk off = (field32 off blk, bytes_at (off + 8) (unat (blk ! (off + 6))) blk)
       # dirents blk (off + unat (field16 (off + 4) blk))"
  using assms chain_ok.simps [of blk off] dirents.simps [of blk off] by (auto split: if_splits)

lemma chain_end: "dirents blk (length blk) = []"
  by (simp add: dirents.simps)

text \<open>The state between two calls of \<open>ext2_readdiri\<close>: at \<open>off\<close> in block \<open>k\<close>.\<close>

definition dir_at :: "byte list \<Rightarrow> byte list \<Rightarrow> nat \<Rightarrow> nat \<Rightarrow> e2fs \<Rightarrow> bool" where
  "dir_at img ip k off e \<longleftrightarrow>
     (let bs = block_size_of img in
      k < dir_blocks bs ip \<and> off \<le> bs \<and> chain_ok (file_block img bs ip k) off
      \<and> take bs (blkbuf e) = file_block img bs ip k \<and> diroffset e = of_nat (k * bs) \<and> blockoffset e = of_nat off)"

definition dir_rest :: "byte list \<Rightarrow> byte list \<Rightarrow> nat \<Rightarrow> nat \<Rightarrow> (u32 \<times> byte list) list" where
  "dir_rest img ip k off =
     (let bs = block_size_of img in
      dirents (file_block img bs ip k) off
      @ concat (map (\<lambda>k. dirents (file_block img bs ip k) 0) [Suc k..<dir_blocks bs ip]))"

lemma dir_rest_start: "0 < dir_blocks (block_size_of img) ip \<Longrightarrow> dir_rest img ip 0 0 = dir_entries img (block_size_of img) ip"
  by (simp add: dir_rest_def dir_entries_def Let_def upt_conv_Cons)

lemma dir_rest_next:
  assumes "length (file_block img (block_size_of img) ip k) = block_size_of img" "Suc k < dir_blocks (block_size_of img) ip"
  shows "dir_rest img ip k (block_size_of img) = dir_rest img ip (Suc k) 0"
  using assms chain_end [of "file_block img (block_size_of img) ip k"] by (simp add: dir_rest_def Let_def upt_conv_Cons)


text \<open>The record at \<open>dp\<close> of the block buffer.\<close>

definition entry_in :: "e2fs \<Rightarrow> nat \<Rightarrow> u32 \<Rightarrow> byte list \<Rightarrow> bool" where
  "entry_in e dp ino nm \<longleftrightarrow> d_inode (blkbuf e) dp = Some ino \<and> map_option unat (name_len (blkbuf e) dp) = Some (length nm)
     \<and> bytes_at (dp + 8) (length nm) (blkbuf e) = nm"

lemma entry_taken:
  assumes "mounted img e" "dir_at img ip k off e" "off < block_size_of img"
  shows "\<exists>len ino nm. rec_len (blkbuf e) off = Some len \<and> entry_in e off ino nm
    \<and> dir_at img ip k (off + unat len) (e\<lparr>blockoffset := blockoffset e + ucast len\<rparr>)
    \<and> dir_rest img ip k off = (ino, nm) # dir_rest img ip k (off + unat len)"
proof -
  note bs = mounted_block_size [OF assms(1)]
  let ?blk = "file_block img (block_size_of img) ip k"
  have blk: "take (block_size_of img) (blkbuf e) = ?blk" using assms(2) by (simp add: dir_at_def Let_def)
  then have l: "length ?blk = block_size_of img" using bs(3,5) by (metis length_take min.absorb2)
  have b: "bytes_at a n ?blk = bytes_at a n (blkbuf e)" if "a + n \<le> block_size_of img" for a n
    using that unfolding blk [symmetric] by (simp add: bytes_at_def take_drop min_def)
  have "chain_ok ?blk off" using assms(2) by (simp add: dir_at_def Let_def)
  note c = chain_step [OF this, unfolded l, OF assms(3)]
  have n: "blkbuf e ! (off + 6) = ?blk ! (off + 6)" using c(1) unfolding blk [symmetric] by simp
  let ?len = "field16 (off + 4) ?blk"
  have "rec_len (blkbuf e) off = Some ?len" using c(1) b [of "off + 4" 2] bs(3,5) by (simp add: rec_len_def rd_def field16_def)
  moreover have "entry_in e off (field32 off ?blk) (bytes_at (off + 8) (unat (?blk ! (off + 6))) ?blk)"
    using c(1) b [of off 4] b [of "off + 8" "unat (?blk ! (off + 6))"] bs(3,5) l n
    by (simp add: entry_in_def d_inode_def name_len_def rd_def rd1_def field32_def)
  moreover have "dir_at img ip k (off + unat ?len) (e\<lparr>blockoffset := blockoffset e + ucast ?len\<rparr>)"
    using assms(2) c(3,4) by (simp add: dir_at_def Let_def)
  ultimately show ?thesis using c(5) by (auto simp: dir_rest_def Let_def)
qed

context volume
begin

text \<open>Reading block \<open>k\<close> of a directory into the block buffer.\<close>

lemma load_dir_block:
  assumes "inv s" "mounted img e" "dir_ok img (block_size_of img) ip" "k < dir_blocks (block_size_of img) ip"
    and "unat n = k"
  shows "\<exists>buf e' s'. ext2_breadi v e s ip n 1 (blkbuf e) 0 = Some (int (block_size_of img), buf, e', s') \<and> inv s'
    \<and> mounted img (e'\<lparr>blkbuf := buf\<rparr>) \<and> rebuffered e e' \<and> take (block_size_of img) buf = file_block img (block_size_of img) ip k
    \<and> length (file_block img (block_size_of img) ip k) = block_size_of img"
proof -
  note bs = mounted_block_size [OF assms(2)]
  have f: "file_ok img (block_size_of img) ip" using assms(3) by (simp add: dir_ok_def)
  have "Suc k \<le> (unat (i_size ip) + block_size_of img - 1) div block_size_of img" using assms(4) by (simp add: dir_blocks_def)
  then have "Suc k * block_size_of img \<le> unat (i_size ip) + block_size_of img - 1"
    using bs(2) by (simp add: less_eq_div_iff_mult_less_eq)
  then have k: "k * block_size_of img < unat (i_size ip)" using bs(2) by simp
  have m: "map_ok img (block_size_of img) ip k" "k < 12 + block_size_of img div 4 * (block_size_of img div 4)"
    using f assms(4) by (auto simp: file_ok_def dir_blocks_def)
  then have l: "length (file_block img (block_size_of img) ip k) = block_size_of img"
    using bs(2) by (simp add: length_file_block)
  obtain e' s' where r: "ext2_breadi v e s ip n 1 (blkbuf e) 0 =
      Some (int (block_size_of img), file_block img (block_size_of img) ip k @ drop (block_size_of img) (blkbuf e), e', s')"
    "inv s'" "fs_ok img e'" "rebuffered e e'"
    using ext2_breadi_ok [OF assms(1), of e ip n "blkbuf e"] assms(2,5) f k m bs(1,5)
    by (auto simp: mounted_def file_ok_def)
  have "mounted img (e'\<lparr>blkbuf := file_block img (block_size_of img) ip k @ drop (block_size_of img) (blkbuf e)\<rparr>)"
    using mounted_rebuffered [OF assms(2) r(4,3)] l bs(3,5) by (intro mounted_blkbuf) simp_all
  then show ?thesis using r l
    by (intro exI [of _ "file_block img (block_size_of img) ip k @ drop (block_size_of img) (blkbuf e)"] exI [of _ e'] exI [of _ s']) simp
qed

text \<open>The state after a call of \<open>ext2_readdiri\<close>: the next entry, or the end.\<close>

definition dir_step ::
  "byte list \<Rightarrow> (u32 \<times> byte list) list \<Rightarrow> e2fs \<Rightarrow> nat option \<times> e2fs \<times> 's \<Rightarrow> bool" where
  "dir_step ip es e r \<longleftrightarrow> (case r of (dp, e', s') \<Rightarrow> inv s' \<and> mounted img e' \<and> same_files e e' \<and>
     (case es of
        [] \<Rightarrow> dp = None
      | (ino, nm) # es' \<Rightarrow> (\<exists>k off dp'. dp = Some dp' \<and> entry_in e' dp' ino nm \<and> dir_at img ip k off e' \<and> dir_rest img ip k off = es')))"

lemma dir_step_taken:
  assumes "inv s'" "mounted img e'" "same_files e e'" "dir_at img ip k off e'" "off < block_size_of img"
    and "dir_rest img ip k off = es"
  shows "\<exists>r. do { len \<leftarrow> rec_len (blkbuf e') (unat (blockoffset e'));
        Some (Some (unat (blockoffset e')), e'\<lparr>blockoffset := blockoffset e' + ucast len\<rparr>, s') } = Some r \<and> dir_step ip es e r"
proof -
  note bs = mounted_block_size [OF assms(2)]
  obtain len ino nm where t: "rec_len (blkbuf e') off = Some len" "entry_in e' off ino nm"
    "dir_at img ip k (off + unat len) (e'\<lparr>blockoffset := blockoffset e' + ucast len\<rparr>)"
    "es = (ino, nm) # dir_rest img ip k (off + unat len)"
    using entry_taken [OF assms(2,4,5)] assms(6) by auto
  have "unat (blockoffset e') = off"
    using assms(4,5) bs(3) by (simp add: dir_at_def Let_def unat_of_nat)
  then show ?thesis using t assms(1-3)
    by (fastforce simp: dir_step_def entry_in_def same_files_def)
qed

lemma ext2_readdiri_next:
  assumes "inv s" "mounted img e" "dir_ok img (block_size_of img) ip" "dir_at img ip k off e"
  shows "\<exists>r. ext2_readdiri v e s ip False = Some r \<and> dir_step ip (dir_rest img ip k off) e r"
proof (cases "off < block_size_of img")
  case True
  note bs = mounted_block_size [OF assms(2)]
  have "unat (blockoffset e) = off" using assms(4) True bs(3) by (simp add: dir_at_def Let_def unat_of_nat)
  then have "sint (blockoffset e) < sint (blocksize e)"
    using True bs(3,4) sint_small [of "blockoffset e"] by simp
  then show ?thesis
    using dir_step_taken [OF assms(1,2) _ assms(4) True refl, of e] by (simp add: ext2_readdiri_def Let_def)
next
  case False
  note bs = mounted_block_size [OF assms(2)]
  have a: "k < dir_blocks (block_size_of img) ip" "off = block_size_of img" "diroffset e = of_nat (k * block_size_of img)"
    "unat (blockoffset e) = block_size_of img"
    using assms(4) False bs(3) by (simp_all add: dir_at_def Let_def unat_of_nat)
  then have ge: "sint (blockoffset e) \<ge> sint (blocksize e)"
    using bs(3,4) sint_small [of "blockoffset e"] by simp
  have sz: "unat (i_size ip) < 2147483648" using assms(3) by (simp add: dir_ok_def file_ok_def)
  have kk: "j < dir_blocks (block_size_of img) ip \<longleftrightarrow> j * block_size_of img < unat (i_size ip)" for j
  proof -
    have "j < dir_blocks (block_size_of img) ip \<longleftrightarrow> Suc j * block_size_of img \<le> unat (i_size ip) + block_size_of img - 1"
      using bs(2) by (simp add: dir_blocks_def less_eq_div_iff_mult_less_eq flip: Suc_le_eq)
    then show ?thesis using bs(2) by auto
  qed
  have kb: "k * block_size_of img < 2147483648" using kk [of k] a(1) sz by linarith
  have "k < 4294967296" using mult_le_mono2 [OF bs(2), of k] kb by linarith
  then have lk: "length (file_block img (block_size_of img) ip k) = block_size_of img"
    using load_dir_block [OF assms(1-3) a(1), of "of_nat k"] by (auto simp: unat_of_nat)
  have "blocksize e = of_nat (block_size_of img)" unfolding bs(1) [symmetric] by simp
  then have d1: "diroffset e + blocksize e = of_nat (Suc k * block_size_of img)" using a(3) by simp
  have "Suc k * block_size_of img < 4294967296" using kb bs(3) by simp
  then have d: "diroffset e + blocksize e = of_nat (Suc k * block_size_of img)" "unat (diroffset e + blocksize e) = Suc k * block_size_of img"
    unfolding d1 by (simp_all only: unat_of_nat) simp
  show ?thesis
  proof (cases "Suc k < dir_blocks (block_size_of img) ip")
    case False
    then have stop: "diroffset e + blocksize e \<ge> i_size ip" using kk [of "Suc k"] d(2) by (simp add: word_le_nat_alt)
    have "dir_rest img ip k off = []"
      using False a(2) lk chain_end [of "file_block img (block_size_of img) ip k"] by (simp add: dir_rest_def Let_def)
    then show ?thesis using ge stop assms(1,2) by (simp add: ext2_readdiri_def dir_step_def same_files_def)
  next
    case True
    then have go: "\<not> diroffset e + blocksize e \<ge> i_size ip" using kk [of "Suc k"] d(2) by (simp add: word_le_nat_alt)
    let ?blk = "of_int (sint (diroffset e + blocksize e) sdiv sint (blocksize e)) :: u32"
    have n: "unat ?blk = Suc k"
    proof -
      have "Suc k * block_size_of img < 2147483648" using go sz d(2) by (simp add: word_le_nat_alt)
      then have "sint (diroffset e + blocksize e) = int (Suc k * block_size_of img)"
        using sint_small [of "diroffset e + blocksize e"] unfolding d(2) by simp
      moreover have "int (Suc k * block_size_of img) sdiv int (block_size_of img) = int (Suc k)"
        using bs(2) by (simp add: signed_divide_int_def del: of_nat_Suc of_nat_mult flip: zdiv_int)
      ultimately have "?blk = of_nat (Suc k)" unfolding bs(4) by simp
      moreover have "Suc k < 4294967296" using mult_le_mono2 [OF bs(2), of "Suc k"] kb bs(3) by simp
      ultimately show ?thesis by (simp only: unat_of_nat) simp
    qed
    let ?e = "e\<lparr>diroffset := diroffset e + blocksize e\<rparr>"
    have "mounted img ?e" using assms(2) by simp
    from load_dir_block [OF assms(1) this assms(3) True n] obtain buf e1 s1 where
      r: "ext2_breadi v ?e s ip ?blk 1 (blkbuf e) 0 = Some (int (block_size_of img), buf, e1, s1)"
      "inv s1" "mounted img (e1\<lparr>blkbuf := buf\<rparr>)" "rebuffered ?e e1" "take (block_size_of img) buf = file_block img (block_size_of img) ip (Suc k)"
      by auto
    let ?e2 = "e1\<lparr>blkbuf := buf, blockoffset := 0\<rparr>"
    have "diroffset e1 = diroffset e + blocksize e" using r(4) by (auto simp: rebuffered_def)
    then have at: "dir_at img ip (Suc k) 0 ?e2" "dir_rest img ip (Suc k) 0 = dir_rest img ip k off"
      using True d(1) r(5) assms(3) dir_rest_next [OF lk True] a(2) by (simp_all add: dir_at_def dir_ok_def Let_def)
    have "same_files e ?e2" using rebuffered_same_files [OF r(4)] by (simp add: same_files_def)
    from dir_step_taken [OF r(2) _ this at(1) _ at(2)] show ?thesis
      using ge go r(1,3) bs(1,2,4) by (auto simp: ext2_readdiri_def bind_require)
  qed
qed

lemma ext2_readdiri_first:
  assumes "inv s" "mounted img e" "dir_ok img (block_size_of img) ip"
  shows "\<exists>r. ext2_readdiri v e s ip True = Some r \<and> dir_step ip (dir_entries img (block_size_of img) ip) e r"
proof -
  note bs = mounted_block_size [OF assms(2)]
  have n: "0 < dir_blocks (block_size_of img) ip"
    using assms(3) bs(2) by (auto simp: dir_ok_def dir_blocks_def div_greater_zero_iff)
  let ?e = "e\<lparr>diroffset := 0, blockoffset := 0\<rparr>"
  have "mounted img ?e" using assms(2) by simp
  from load_dir_block [OF assms(1) this assms(3) n, of 0] obtain buf e1 s1 where
    r: "ext2_breadi v ?e s ip 0 1 (blkbuf e) 0 = Some (int (block_size_of img), buf, e1, s1)"
    "inv s1" "mounted img (e1\<lparr>blkbuf := buf\<rparr>)" "rebuffered ?e e1" "take (block_size_of img) buf = file_block img (block_size_of img) ip 0"
    by auto
  let ?e2 = "e1\<lparr>blkbuf := buf\<rparr>"
  have z: "diroffset e1 = 0" "blockoffset e1 = 0" "blocksize e1 = blocksize e" using r(4) by (auto simp: rebuffered_def)
  then have at: "dir_at img ip 0 0 ?e2" "dir_rest img ip 0 0 = dir_entries img (block_size_of img) ip"
    using n r(5) assms(3) dir_rest_start by (simp_all add: dir_at_def dir_ok_def Let_def)
  have "same_files e ?e2" using rebuffered_same_files [OF r(4)] by (simp add: same_files_def)
  from dir_step_taken [OF r(2,3) this at(1) _ at(2)] show ?thesis
    using r(1) z bs(2,4) by (auto simp: ext2_readdiri_def)
qed

lemma strncmp_decides:
  assumes "0 \<notin> set c" "length c \<le> length t" "length c < 2 ^ 32"
  shows "\<exists>k. strncmp (c @ 0 # r) t (of_nat (length c)) = Some k \<and> (k = 0 \<longleftrightarrow> take (length c) t = c)"
proof -
  have "strncmp (c @ 0 # r) t (of_nat (length c)) \<noteq> None"
    using assms(2,3)
  proof (induction c arbitrary: t)
    case (Cons a c)
    then obtain b t' where t: "t = b # t'" by (cases t) auto
    have "(of_nat (length (a # c)) - 1 :: u32) = of_nat (length c)" by simp
    with Cons t show ?case by (auto simp del: of_nat_Suc)
  qed simp
  then show ?thesis using strncmp_component [OF assms, of r] by auto
qed

lemma search_dir_ok:
  assumes "inv s" "mounted img e" "dir_ok img (block_size_of img) (e_inode (inode_table e ! dir))"
    and "\<exists>r. ext2_readdiri v e s (e_inode (inode_table e ! dir)) b = Some r \<and> dir_step (e_inode (inode_table e ! dir)) es e r"
    and "namebuf e = pre @ c @ 0 # t" "0 \<notin> set c" "length c < 256"
  shows "\<exists>e' s'. search_dir v Caller_name (length pre) (length c) dir e s b =
      Some (case entry_of c es of None \<Rightarrow> - 1 | Some ino \<Rightarrow> ino, e', s') \<and> inv s' \<and> mounted img e' \<and> same_files e e'"
  using assms
proof (induction es arbitrary: e s b)
  case Nil
  then show ?case by (subst search_dir.simps) (auto simp: dir_step_def entry_of_def)
next
  case (Cons x es)
  obtain ino nm where x: "x = (ino, nm)" by force
  let ?ip = "e_inode (inode_table e ! dir)"
  from Cons.prems(4) obtain dp e1 s1 k off where r: "ext2_readdiri v e s ?ip b = Some (Some dp, e1, s1)" "inv s1" "mounted img e1"
    "same_files e e1" "entry_in e1 dp ino nm" "dir_at img ?ip k off e1" "dir_rest img ?ip k off = es"
    by (auto simp: dir_step_def x)
  obtain n where n: "name_len (blkbuf e1) dp = Some n" "unat n = length nm" "d_inode (blkbuf e1) dp = Some ino"
    "bytes_at (dp + 8) (length nm) (blkbuf e1) = nm"
    using r(5) by (auto simp: entry_in_def)
  have ip: "e_inode (inode_table e1 ! dir) = ?ip" and nb: "namebuf e1 = pre @ c @ 0 # t"
    using r(4) Cons.prems(5) by (simp_all add: same_files_def)
  have "\<exists>same. (if unat n = length c then do { k \<leftarrow> strncmp (c @ 0 # t) (drop (dp + 8) (blkbuf e1)) (of_nat (length c)); Some (k = 0) }
      else Some False) = Some same \<and> (same \<longleftrightarrow> nm = c)"
  proof (cases "length nm = length c")
    case True
    have "length nm \<le> length (drop (dp + 8) (blkbuf e1))" using n(4) by (metis length_bytes_at length_drop min.cobounded2)
    then obtain k where "strncmp (c @ 0 # t) (drop (dp + 8) (blkbuf e1)) (of_nat (length c)) = Some k" "k = 0 \<longleftrightarrow> nm = c"
      using strncmp_decides [OF Cons.prems(6), of "drop (dp + 8) (blkbuf e1)" t] True n(4) Cons.prems(7) by (auto simp: bytes_at_def)
    then show ?thesis using True n(2) by simp
  qed (use n(2) in auto)
  then obtain same where same: "(if unat n = length c then do { k \<leftarrow> strncmp (c @ 0 # t) (drop (dp + 8) (blkbuf e1)) (of_nat (length c));
      Some (k = 0) } else Some False) = Some same" "same \<longleftrightarrow> nm = c"
    by blast
  show ?case
  proof (cases "nm = c")
    case True
    have "search_dir v Caller_name (length pre) (length c) dir e s b = Some (ino, e1, s1)"
      using same True by (subst search_dir.simps) (simp add: r(1) n nb)
    then show ?thesis using r True by (simp add: x entry_of_def)
  next
    case False
    have "search_dir v Caller_name (length pre) (length c) dir e s b = search_dir v Caller_name (length pre) (length c) dir e1 s1 False"
      using same False by (subst search_dir.simps) (auto simp: r(1) n nb bind_eq_Some_conv split: if_splits)
    moreover have "entry_of c (x # es) = entry_of c es" using False by (simp add: x entry_of_def)
    moreover obtain e2 s2 where "search_dir v Caller_name (length pre) (length c) dir e1 s1 False =
        Some (case entry_of c es of None \<Rightarrow> - 1 | Some ino \<Rightarrow> ino, e2, s2)" "inv s2" "mounted img e2" "same_files e1 e2"
      using Cons.IH [OF r(2,3), of False] ext2_readdiri_next [OF r(2,3) _ r(6)] r(7) Cons.prems(3,6,7) nb ip by auto
    ultimately show ?thesis using same_files_trans [OF r(4)] by auto
  qed
qed

lemma rd_prefix: "rd xs off n = Some x \<Longrightarrow> rd (xs @ ys) off n = Some x"
  by (simp add: rd_def bytes_at_append_left split: if_splits)

lemma ext2_iget_ok:
  assumes "inv s" "mounted img e" "table_ok img e" "volume_ok img" "inode_ok img ino" "free_slot e j"
  shows "\<exists>i e' s'. ext2_iget v e s ino = Some (Some i, e', s') \<and> inv s' \<and> mounted img e' \<and> table_ok img e' \<and> free_slot e i
    \<and> slot_holds img e' i ino \<and> slots_kept {} e e' \<and> (\<forall>j. j \<noteq> i \<longrightarrow> free_slot e' j = free_slot e j)
    \<and> namebuf e' = namebuf e \<and> tok_last e' = tok_last e \<and> root_inode e' = root_inode e"
proof -
  note bs = mounted_block_size [OF assms(2)]
  have m: "sb e = sb_of img" "take (length (gds_of img)) (gds e) = gds_of img" using assms(2) by (simp_all add: mounted_def)
  obtain i where i: "first_free (inode_table e) 0 = Some i" "free_slot e i" using first_free_slot [OF bs(6) assms(6)] by blast
  have k: "s_inodes_per_group (sb_of img) \<noteq> 0" using assms(4) by (simp add: volume_ok_def)
  note lg = length_gds [OF assms(4)]
  let ?gd = "bytes_at (32 * inode_group img ino) 32 (gds_of img)"
  let ?off = "bg_inode_table ?gd * blocksize e + ((ino - 1) mod s_inodes_per_group (sb_of img)) * EXT2_INODE_SIZE (sb_of img)"
  have gd: "rd (gds e) (32 * unat ((ino - 1) div s_inodes_per_group (sb_of img))) 32 = Some ?gd"
  proof -
    have "rd (gds_of img) (32 * unat ((ino - 1) div s_inodes_per_group (sb_of img))) 32 = Some ?gd"
      using assms(5) lg by (simp add: inode_ok_def inode_group_def rd_def)
    then show ?thesis using rd_prefix [of "gds_of img" _ _ _ "drop (length (gds_of img)) (gds e)"] m(2)
      by (metis append_take_drop_id)
  qed
  have p: "unat (bg_inode_table ?gd) * unat (blocksize e)
      + unat ((ino - 1) mod s_inodes_per_group (sb_of img)) * unat (EXT2_INODE_SIZE (sb_of img)) = inode_place img ino"
    by (simp add: inode_place_def bs(1))
  moreover have "inode_place img ino < 4294967296" using assms(5) by (simp add: inode_ok_def)
  ultimately have off: "unat ?off = inode_place img ino"
    by (simp add: unat_word_ariths del: bs(1))
  have len: "length (e_inode (inode_table e ! i)) = 128" using assms(3) i(2) by (simp add: table_ok_def free_slot_def)
  obtain s1 where r: "read_bytes v s ?off (e_inode (inode_table e ! i)) 0 128 = Some (0, inode_at img ino, s1)" "inv s1"
    using read_bytes_ok [OF assms(1), of 128 ?off 0 "e_inode (inode_table e ! i)"] off len assms(5) inode_within(1) [OF assms(5)]
    by (auto simp: inode_ok_def inode_at_def)
  let ?t = "(inode_table e)[i := (inode_table e ! i)\<lparr>e_inode := inode_at img ino, bl_free := False, inumber := ino,
    old_mode := i_mode (inode_at img ino)\<rparr>]"
  have "ext2_iget v e s ino = Some (Some i, e\<lparr>inode_table := ?t\<rparr>, s1)"
    using i(1) k gd r(1) by (simp add: ext2_iget_def m Let_def)
  moreover have "mounted img (e\<lparr>inode_table := ?t\<rparr>)" using mounted_table [OF assms(2)] bs(6) by simp
  moreover have "table_ok img (e\<lparr>inode_table := ?t\<rparr>)"
    using assms(3) i(2) bs(6) inode_within(2) [OF assms(5)] by (auto simp: table_ok_def free_slot_def slot_holds_def nth_list_update)
  ultimately show ?thesis using i(2) bs(6) r(2)
    by (intro exI [of _ i] exI [of _ "e\<lparr>inode_table := ?t\<rparr>"] exI [of _ s1])
      (auto simp: slot_holds_def free_slot_def slots_kept_def nth_list_update)
qed

text \<open>One component: the search, the release of the directory, and the next inode.\<close>

lemma namei_step:
  assumes "inv s" "mounted img e" "table_ok img e" "slot_holds img e dir ino" "root_inode e = Some r"
    and "dir_ok img (block_size_of img) (inode_at img ino)" "to_split e cur (c # cs)" "path_component 0x2F c" "length c < 256"
    and "dir = r \<longrightarrow> (\<exists>j. free_slot e j)"
  shows "\<exists>p e1 s1. cur = Some p \<and> strlen (drop p (namebuf e)) = Some (length c)
    \<and> search_dir v Caller_name p (length c) dir e s True = Some (case dir_lookup img (inode_at img ino) c of None \<Rightarrow> - 1 | Some j \<Rightarrow> j, e1, s1)
    \<and> inv s1 \<and> (let e2 = (if root_inode e1 \<noteq> Some dir then ext2_iput e1 dir else e1) in
        mounted img e2 \<and> table_ok img e2 \<and> slots_kept ({dir} - {r}) e e2 \<and> root_inode e2 = Some r \<and> to_split e2 cur (c # cs)
        \<and> namebuf e2 = namebuf e \<and> (\<exists>j. free_slot e2 j) \<and> (\<forall>j. free_slot e2 j \<longrightarrow> free_slot e j \<or> j = dir) \<and> \<not> free_slot e2 r)"
proof -
  obtain pre t where p: "cur = Some (length pre)" "namebuf e = pre @ c @ 0 # t"
    using assms(7) by (auto simp: to_split_def split: if_splits)
  have c: "0 \<notin> set c" using assms(8) by (simp add: path_component_def)
  have ip: "e_inode (inode_table e ! dir) = inode_at img ino" "dir < 32" "\<not> bl_free (inode_table e ! dir)"
    using assms(4) by (simp_all add: slot_holds_def)
  obtain e1 s1 where 1: "search_dir v Caller_name (length pre) (length c) dir e s True =
      Some (case dir_lookup img (inode_at img ino) c of None \<Rightarrow> - 1 | Some j \<Rightarrow> j, e1, s1)" "inv s1" "mounted img e1" "same_files e e1"
    using search_dir_ok [OF assms(1,2), of dir True, unfolded ip(1), OF assms(6) ext2_readdiri_first [OF assms(1,2,6)] p(2) c assms(9)]
    by (auto simp: dir_lookup_def)
  have t1: "table_ok img e1" "root_inode e1 = Some r" "to_split e1 cur (c # cs)" "namebuf e1 = namebuf e"
    using 1(4) assms(3,5,7) same_files_table(1) [OF 1(4)] to_split_cong [of e1 e] by (simp_all add: same_files_def)
  let ?e2 = "if root_inode e1 \<noteq> Some dir then ext2_iput e1 dir else e1"
  have "mounted img ?e2 \<and> table_ok img ?e2 \<and> slots_kept ({dir} - {r}) e1 ?e2 \<and> root_inode ?e2 = Some r \<and> to_split ?e2 cur (c # cs)
    \<and> namebuf ?e2 = namebuf e \<and> (\<exists>j. free_slot ?e2 j) \<and> (\<forall>j. free_slot ?e2 j \<longrightarrow> free_slot e1 j \<or> j = dir)"
  proof (cases "dir = r")
    case True
    then show ?thesis using t1 1(3) assms(10) same_files_table(3) [OF 1(4)] by simp
  next
    case False
    note io = iput_ok [OF 1(3) t1(1) ip(2)]
    have "\<forall>j. free_slot (ext2_iput e1 dir) j \<longrightarrow> free_slot e1 j \<or> j = dir" by (auto simp: ext2_iput_def free_slot_def)
    moreover have "to_split (ext2_iput e1 dir) cur (c # cs)" using t1(3) io(5,6) to_split_cong [of "ext2_iput e1 dir" e1] False t1(2) by simp
    ultimately show ?thesis using False io t1(2,4) by auto
  qed
  moreover have "slots_kept A e e2" if "slots_kept A e1 e2" for A e2
    using that 1(4) by (simp add: slots_kept_def same_files_def)
  moreover have "\<not> free_slot e2 r" if "table_ok img e2" "root_inode e2 = Some r" for e2
    using that by (simp add: table_ok_def slot_holds_def free_slot_def)
  ultimately show ?thesis
    using 1(1,2) p c same_files_table(3) [OF 1(4)] by (intro exI [of _ "length pre"] exI [of _ e1] exI [of _ s1]) (simp add: Let_def)
qed

lemma namei_loop_ok:
  assumes "volume_ok img" "inv s" "mounted img e" "table_ok img e" "slot_holds img e dir ino" "root_inode e = Some r"
    and "path_ok img ino cs" "names_ok cs" "to_split e cur cs" "dir = r \<longrightarrow> (\<exists>j. free_slot e j)"
  shows "\<exists>i e' s'. namei_loop v Caller_name dir cur e s = Some (i, e', s') \<and> inv s' \<and> mounted img e' \<and> table_ok img e'
    \<and> root_inode e' = Some r \<and> slots_kept ({dir} - {r}) e e' \<and> length (namebuf e') = length (namebuf e)
    \<and> (case resolve img ino cs of None \<Rightarrow> i = None
       | Some k \<Rightarrow> \<exists>j. i = Some j \<and> slot_holds img e' j k \<and> (if cs = [] then j = dir else j \<noteq> r \<and> (free_slot e j \<or> j = dir)))"
  using assms
proof (induction cs arbitrary: s e dir ino cur)
  case Nil
  then show ?case by (subst namei_loop.simps) (auto simp: to_split_def)
next
  case (Cons c cs)
  have c: "path_component 0x2F c" "length c < 256" "names_ok cs" using Cons.prems(8) by (simp_all add: names_ok_def)
  have d: "dir_ok img (block_size_of img) (inode_at img ino)" using Cons.prems(7) by simp
  obtain p e1 s1 where 1: "cur = Some p" "strlen (drop p (namebuf e)) = Some (length c)"
    "search_dir v Caller_name p (length c) dir e s True =
       Some (case dir_lookup img (inode_at img ino) c of None \<Rightarrow> - 1 | Some j \<Rightarrow> j, e1, s1)" "inv s1"
    and 2: "let e2 = (if root_inode e1 \<noteq> Some dir then ext2_iput e1 dir else e1) in
        mounted img e2 \<and> table_ok img e2 \<and> slots_kept ({dir} - {r}) e e2 \<and> root_inode e2 = Some r \<and> to_split e2 cur (c # cs)
        \<and> namebuf e2 = namebuf e \<and> (\<exists>j. free_slot e2 j) \<and> (\<forall>j. free_slot e2 j \<longrightarrow> free_slot e j \<or> j = dir) \<and> \<not> free_slot e2 r"
    using namei_step [OF Cons.prems(2-6) d Cons.prems(9) c(1,2) Cons.prems(10)] by blast
  define e2 where "e2 = (if root_inode e1 \<noteq> Some dir then ext2_iput e1 dir else e1)"
  have 2: "mounted img e2" "table_ok img e2" "slots_kept ({dir} - {r}) e e2" "root_inode e2 = Some r" "to_split e2 cur (c # cs)"
    "\<exists>j. free_slot e2 j" "\<And>j. free_slot e2 j \<Longrightarrow> free_slot e j \<or> j = dir" "\<not> free_slot e2 r" "namebuf e2 = namebuf e"
    using 2 by (simp_all add: Let_def flip: e2_def)
  show ?case
  proof (cases "dir_lookup img (inode_at img ino) c")
    case None
    then have "namei_loop v Caller_name dir cur e s = Some (None, e2, s1)"
      using 1 by (subst namei_loop.simps) (simp add: e2_def Let_def)
    then show ?thesis using None 1(4) 2 by simp
  next
    case (Some k)
    have k: "path_ok img k cs" "\<not> sint k < 0" using Cons.prems(7) Some sint_small [of k] by simp_all
    obtain i e3 s2 where 3: "ext2_iget v e2 s1 k = Some (Some i, e3, s2)" "inv s2" "mounted img e3" "table_ok img e3" "free_slot e2 i"
      "slot_holds img e3 i k" "slots_kept {} e2 e3" "\<And>j. j \<noteq> i \<Longrightarrow> free_slot e3 j = free_slot e2 j"
      "namebuf e3 = namebuf e2" "tok_last e3 = tok_last e2" "root_inode e3 = Some r"
      using 2(4,6) ext2_iget_ok [OF 1(4) 2(1,2) Cons.prems(1) path_ok_inode [OF k(1)]] by force
    have ir: "i \<noteq> r" using 2(8) 3(5) by auto
    have "to_split e3 cur (c # cs)" using 2(5) to_split_cong [OF 3(9,10)] by simp
    then obtain cur' bs l where 4: "next_component e3 Caller_name None = Some (cur', e3\<lparr>namebuf := bs, tok_last := l\<rparr>)"
      "to_split (e3\<lparr>namebuf := bs, tok_last := l\<rparr>) cur' cs" "length bs = length (namebuf e3)"
      using next_component_ok c(3) unfolding names_ok_def by blast
    let ?e4 = "e3\<lparr>namebuf := bs, tok_last := l\<rparr>"
    have run: "namei_loop v Caller_name dir cur e s = namei_loop v Caller_name i cur' ?e4 s2"
      using 1(1-3) 3(1) 4(1) Some k(2) by (subst namei_loop.simps) (simp add: e2_def Let_def)
    have same: "table_ok img ?e4 = table_ok img e3" "slot_holds img ?e4 i k = slot_holds img e3 i k"
      "slots_kept A ?e4 x = slots_kept A e3 x" "free_slot ?e4 j = free_slot e3 j" for A x j
      by (simp_all add: table_ok_def slot_holds_def slots_kept_def free_slot_def)
    obtain j e' s' where 5: "namei_loop v Caller_name i cur' ?e4 s2 = Some (j, e', s')" "inv s'" "mounted img e'" "table_ok img e'"
      "root_inode e' = Some r" "slots_kept ({i} - {r}) e3 e'" "length (namebuf e') = length bs"
      "case resolve img k cs of None \<Rightarrow> j = None
       | Some n \<Rightarrow> \<exists>j'. j = Some j' \<and> slot_holds img e' j' n \<and> (if cs = [] then j' = i else j' \<noteq> r \<and> (free_slot e3 j' \<or> j' = i))"
      using Cons.IH [OF Cons.prems(1) 3(2), of ?e4 i k cur'] 3(3,4,6,11) 4(2) k(1) c(3) ir by (auto simp: same cong: option.case_cong if_cong)
    have "slots_kept ({dir} - {r}) e e'"
      using 2(3) 3(5,7) 5(6) by (auto simp: slots_kept_def free_slot_def)
    moreover have "free_slot e x \<or> x = dir" if "free_slot e3 x \<or> x = i" for x
      using that 2(7) [of x] 3(5) 3(8) [of x] by (cases "x = i") auto
    moreover have "length (namebuf e') = length (namebuf e)" using 5(7) 4(3) 3(9) 2(9) by simp
    ultimately show ?thesis using run 5 Some ir by (auto split: option.splits if_splits)
  qed
qed

lemma ext2_namei_ok:
  assumes "volume_ok img" "inv s" "mounted img e" "table_ok img e" "has_room e"
    and "path_ok img EXT2_ROOT_INO cs" "names_ok cs" "path_string cs path" "namebuf e = path @ 0 # t"
  shows "\<exists>i e' s'. ext2_namei v e s Caller_name = Some (i, e', s') \<and> inv s' \<and> mounted img e' \<and> table_ok img e'
    \<and> slots_kept {} e e' \<and> root_inode e' \<noteq> None \<and> (root_inode e \<noteq> None \<longrightarrow> root_inode e' = root_inode e) \<and> length (namebuf e') = length (namebuf e)
    \<and> (case resolve img EXT2_ROOT_INO cs of None \<Rightarrow> i = None
       | Some k \<Rightarrow> \<exists>j. i = Some j \<and> slot_holds img e' j k \<and> root_inode e' \<noteq> Some j \<and> free_slot e j)"
proof -
  obtain r e1 s1 where 1: "(case root_inode e of Some r \<Rightarrow> Some (Some r, e, s)
        | None \<Rightarrow> do { (ip, e, s) \<leftarrow> ext2_iget v e s EXT2_ROOT_INO; Some (ip, e\<lparr>root_inode := ip\<rparr>, s) }) = Some (Some r, e1, s1)"
    "inv s1" "mounted img e1" "table_ok img e1" "slots_kept {} e e1" "root_inode e1 = Some r"
    "root_inode e \<noteq> None \<longrightarrow> root_inode e = Some r" "\<exists>j. free_slot e1 j" "\<And>j. free_slot e1 j \<Longrightarrow> free_slot e j"
    "namebuf e1 = namebuf e"
  proof (cases "root_inode e")
    case (Some r)
    have "\<exists>j. free_slot e j" using assms(5) by (auto simp: has_room_def)
    then show ?thesis using Some assms(2-4) by (intro that [of r e s]) simp_all
  next
    case None
    obtain i j where ij: "free_slot e i" "free_slot e j" "i \<noteq> j" using assms(5) None by (auto simp: has_room_def)
    obtain r e1 s1 where g: "ext2_iget v e s EXT2_ROOT_INO = Some (Some r, e1, s1)" "inv s1" "mounted img e1" "table_ok img e1"
      "free_slot e r" "slot_holds img e1 r EXT2_ROOT_INO" "slots_kept {} e e1" "\<And>j. j \<noteq> r \<Longrightarrow> free_slot e1 j = free_slot e j"
      "namebuf e1 = namebuf e"
      using ext2_iget_ok [OF assms(2-4,1) path_ok_inode [OF assms(6)] ij(1)] by blast
    have same: "slot_holds img (e1\<lparr>root_inode := x\<rparr>) = slot_holds img e1" "free_slot (e1\<lparr>root_inode := x\<rparr>) = free_slot e1"
      "slots_kept A e (e1\<lparr>root_inode := x\<rparr>) = slots_kept A e e1" for x A
      by (simp_all add: slot_holds_def free_slot_def slots_kept_def fun_eq_iff)
    have "\<not> free_slot e1 r" using g(6) by (simp add: slot_holds_def free_slot_def)
    then have fr: "free_slot e x" if "free_slot e1 x" for x using that g(5,8) by (cases "x = r") auto
    have "table_ok img (e1\<lparr>root_inode := Some r\<rparr>)" using g(4,6) by (simp add: table_ok_def same)
    moreover have "\<exists>x. free_slot e1 x" using ij g(8) by (metis (full_types))
    ultimately show ?thesis using that [of r "e1\<lparr>root_inode := Some r\<rparr>" s1] None g fr by (simp add: same)
  qed
  obtain cur bs l where 2: "next_component e1 Caller_name (Some 0) = Some (cur, e1\<lparr>namebuf := bs, tok_last := l\<rparr>)"
    "to_split (e1\<lparr>namebuf := bs, tok_last := l\<rparr>) cur cs" "length bs = length (namebuf e1)"
    using first_component_ok [OF assms(8,7), of e1 t] 1(10) assms(9) by auto
  let ?e = "e1\<lparr>namebuf := bs, tok_last := l\<rparr>"
  have same: "table_ok img ?e = table_ok img e1" "slot_holds img ?e = slot_holds img e1" "slots_kept A ?e x = slots_kept A e1 x"
    "free_slot ?e = free_slot e1" for A x
    by (simp_all add: table_ok_def slot_holds_def slots_kept_def free_slot_def fun_eq_iff)
  have "slot_holds img e1 r EXT2_ROOT_INO" using 1(4,6) by (simp add: table_ok_def)
  then obtain i e' s' where 3: "namei_loop v Caller_name r cur ?e s1 = Some (i, e', s')" "inv s'" "mounted img e'" "table_ok img e'"
    "root_inode e' = Some r" "slots_kept {} e1 e'" "length (namebuf e') = length bs" "case resolve img EXT2_ROOT_INO cs of None \<Rightarrow> i = None
       | Some k \<Rightarrow> \<exists>j. i = Some j \<and> slot_holds img e' j k \<and> (if cs = [] then j = r else j \<noteq> r \<and> (free_slot e1 j \<or> j = r))"
    using namei_loop_ok [OF assms(1) 1(2), of ?e r EXT2_ROOT_INO r cs cur] 1(3,4,6,8) 2(2) assms(6,7)
    unfolding same by auto
  have "cs \<noteq> []" using assms(8) by (simp add: path_string_def)
  moreover have "ext2_namei v e s Caller_name = Some (i, e', s')"
    using 1(1) 2(1) 3(1) by (simp add: ext2_namei_def split: option.splits)
  moreover have "slots_kept {} e e'" using 1(5) 3(6) by (auto simp: slots_kept_def)
  moreover have "length (namebuf e') = length (namebuf e)" using 3(7) 2(3) 1(10) by simp
  ultimately show ?thesis using 3 1(7,9) by (intro exI [of _ i] exI [of _ e'] exI [of _ s']) (auto split: option.splits)
qed

text \<open>\<open>ext2fs_open\<close>: the descriptor of the inode that the path leads to, at position 0, in a slot that was free.\<close>

lemma ext2fs_open_ok:
  assumes "volume_ok img" "inv s" "mounted img e" "table_ok img e" "has_room e"
    and "path_ok img EXT2_ROOT_INO cs" "names_ok cs" "path_string cs path" "0 \<notin> set path" "length path < 4095"
    and "\<And>k. resolve img EXT2_ROOT_INO cs = Some k \<Longrightarrow> \<not> S_ISLNK (i_mode (inode_at img k))"
  shows "\<exists>fd e' s'. ext2fs_open v e s (path @ 0 # t) = Some (fd, e', s') \<and> inv s' \<and> mounted img e' \<and> table_ok img e'
    \<and> slots_kept {} e e' \<and> root_inode e' \<noteq> None \<and> (root_inode e \<noteq> None \<longrightarrow> root_inode e' = root_inode e) \<and> length (namebuf e') = length path + 1 + length t
    \<and> (case resolve img EXT2_ROOT_INO cs of None \<Rightarrow> fd = None
       | Some k \<Rightarrow> \<exists>j. fd = Some j \<and> slot_holds img e' j k \<and> pos (inode_table e' ! j) = 0 \<and> root_inode e' \<noteq> Some j \<and> free_slot e j)"
proof -
  let ?e = "e\<lparr>namebuf := path @ 0 # t\<rparr>"
  have same: "table_ok img ?e = table_ok img e" "has_room ?e = has_room e" "slots_kept A ?e x = slots_kept A e x"
    "free_slot ?e j = free_slot e j" for A x j
    by (simp_all add: table_ok_def slot_holds_def slots_kept_def free_slot_def has_room_def)
  obtain i e1 s1 where 1: "ext2_namei v ?e s Caller_name = Some (i, e1, s1)" "inv s1" "mounted img e1" "table_ok img e1"
    "slots_kept {} ?e e1" "root_inode e1 \<noteq> None" "root_inode ?e \<noteq> None \<longrightarrow> root_inode e1 = root_inode ?e"
    "length (namebuf e1) = length (namebuf ?e)"
    "case resolve img EXT2_ROOT_INO cs of None \<Rightarrow> i = None
       | Some k \<Rightarrow> \<exists>j. i = Some j \<and> slot_holds img e1 j k \<and> root_inode e1 \<noteq> Some j \<and> free_slot ?e j"
    using ext2_namei_ok [OF assms(1,2), of ?e cs path t] assms(3-8) unfolding same by auto
  have n: "this_open e" "strlen (path @ 0 # t) = Some (length path)" "length path < EXT2FS_PATH_MAXLEN"
    using assms(3,9,10) by (simp_all add: mounted_def EXT2FS_PATH_MAXLEN_def)
  show ?thesis
  proof (cases "resolve img EXT2_ROOT_INO cs")
    case None
    then have "ext2fs_open v e s (path @ 0 # t) = Some (None, e1, s1)"
      using 1(1,9) n by (simp add: ext2fs_open_def ext2_open_def)
    then show ?thesis using 1 None by (auto simp: slots_kept_def)
  next
    case (Some k)
    then obtain j where j: "i = Some j" "slot_holds img e1 j k" "root_inode e1 \<noteq> Some j" "free_slot e j"
      using 1(9) by (auto simp: free_slot_def)
    then have "open_loop v e1 s1 j = Some (int j, e1, s1)"
      using assms(11) [OF Some] by (subst open_loop.simps) (simp add: slot_holds_def)
    let ?e' = "e1\<lparr>inode_table := (inode_table e1)[j := (inode_table e1 ! j)\<lparr>pos := 0\<rparr>]\<rparr>"
    have l: "length (inode_table e1) = 32" using mounted_block_size [OF 1(3)] by simp
    have "ext2fs_open v e s (path @ 0 # t) = Some (Some j, ?e', s1)"
      using 1(1) j(1) n \<open>open_loop v e1 s1 j = _\<close> by (simp add: ext2fs_open_def ext2_open_def Let_def)
    moreover have "mounted img ?e'" using mounted_table [OF 1(3)] l by simp
    moreover have "table_ok img ?e'" using table_ok_pos [OF 1(4) l] j(2) by (simp add: slot_holds_def)
    moreover have "slot_holds img ?e' j k" "pos (inode_table ?e' ! j) = 0" using j(2) l by (auto simp: slot_holds_def)
    moreover have "slots_kept {} e ?e'"
      using 1(5) j(4) l by (auto simp: slots_kept_def free_slot_def nth_list_update)
    ultimately show ?thesis using 1(2,6-8) j Some by (intro exI [of _ "Some j"] exI [of _ ?e'] exI [of _ s1]) simp
  qed
qed

lemma ext2fs_close_ok:
  assumes "mounted img e" "table_ok img e" "slot_holds img e fd k" "root_inode e \<noteq> Some fd"
  shows "\<exists>e'. ext2fs_close e fd = Some (0, e') \<and> mounted img e' \<and> table_ok img e' \<and> free_slot e' fd
    \<and> slots_kept {fd} e e' \<and> root_inode e' = root_inode e \<and> namebuf e' = namebuf e"
  using iput_ok [OF assms(1,2) _ assms(4)] mounted_block_size(6) [OF assms(1)] assms
  by (auto simp: ext2fs_close_def ext2_close_def rd1_def slot_holds_def MAX_OPEN_FILES_def mounted_def)

text \<open>A file from open to close: the file at the path, whole.\<close>

lemma read_whole_file:
  assumes "volume_ok img" "inv s" "mounted img e" "table_ok img e" "has_room e"
    and "path_ok img EXT2_ROOT_INO cs" "names_ok cs" "path_string cs path" "0 \<notin> set path" "length path < 4095"
    and "resolve img EXT2_ROOT_INO cs = Some k" "\<not> S_ISLNK (i_mode (inode_at img k))"
    and "file_ok img (block_size_of img) (inode_at img k)" "unat (i_size (inode_at img k)) \<le> length buf"
  shows "\<exists>fd e1 s1 e2 s2 e3. ext2fs_open v e s (path @ 0 # t) = Some (Some fd, e1, s1)
    \<and> ext2fs_len e1 fd = Some (ucast (i_size (inode_at img k)))
    \<and> ext2fs_read v e1 s1 fd buf (i_size (inode_at img k)) =
        Some (0, file_contents img (block_size_of img) (inode_at img k) @ drop (unat (i_size (inode_at img k))) buf,
          i_size (inode_at img k), e2, s2)
    \<and> ext2fs_close e2 fd = Some (0, e3) \<and> inv s2 \<and> mounted img e3 \<and> table_ok img e3 \<and> has_room e3 \<and> slots_kept {} e e3
    \<and> length (namebuf e3) = length path + 1 + length t"
proof -
  let ?ip = "inode_at img k"
  obtain fd e1 s1 where 1: "ext2fs_open v e s (path @ 0 # t) = Some (Some fd, e1, s1)" "inv s1" "mounted img e1" "table_ok img e1"
    "slots_kept {} e e1" "root_inode e1 \<noteq> None" "slot_holds img e1 fd k" "pos (inode_table e1 ! fd) = 0" "root_inode e1 \<noteq> Some fd"
    "free_slot e fd" "length (namebuf e1) = length path + 1 + length t"
    using ext2fs_open_ok [OF assms(1-10), of t] assms(11,12) by auto
  have fd: "fd < 32" "e_inode (inode_table e1 ! fd) = ?ip" using 1(7) by (simp_all add: slot_holds_def)
  have a: "abs_file img e1 fd = (file_contents img (block_size_of img) ?ip, 0)"
    using fd 1(8) mounted_block_size(1) [OF 1(3)] by (simp add: abs_file_def)
  have lc: "length (file_contents img (block_size_of img) ?ip) = unat (i_size ?ip)" by (simp add: file_contents_def)
  obtain e2 s2 where 2: "ext2fs_read v e1 s1 fd buf (i_size ?ip) =
      Some (0, file_contents img (block_size_of img) ?ip @ drop (unat (i_size ?ip)) buf, of_nat (unat (i_size ?ip)), e2, s2)" "inv s2" "fs_ok img e2" "blocksize e2 = blocksize e1"
    "inode_table e2 = (inode_table e1)[fd := (inode_table e1 ! fd)\<lparr>pos := of_nat (unat (i_size ?ip))\<rparr>]"
    "rebuffered e1 (e2\<lparr>inode_table := inode_table e1\<rparr>)"
    using ext2fs_read_ok [OF 1(2), of e1 fd "i_size ?ip" "file_contents img (block_size_of img) ?ip"
        "(file_contents img (block_size_of img) ?ip, unat (i_size ?ip))" buf] 1(3) fd a lc assms(13,14) mounted_block_size(1) [OF 1(3)]
    by (auto simp: mounted_def)
  note rb = rebuffered_sel [OF 2(6)]
  have m2: "mounted img e2" using 1(3) 2(3) rb by (simp add: mounted_def)
  have l: "length (inode_table e1) = 32" using mounted_block_size [OF 1(3)] by simp
  have r2: "root_inode e2 = root_inode e1" using rb(4) by simp
  have t2: "table_ok img e2" "slot_holds img e2 fd k"
    using table_ok_pos [OF 1(4) l fd(1), of "of_nat (unat (i_size ?ip))"] 1(7) l fd(1)
    by (auto simp: table_ok_def slot_holds_def 2(5) r2)
  obtain e3 where 3: "ext2fs_close e2 fd = Some (0, e3)" "mounted img e3" "table_ok img e3" "free_slot e3 fd" "slots_kept {fd} e2 e3"
    "root_inode e3 = root_inode e2" "namebuf e3 = namebuf e2"
    using ext2fs_close_ok [OF m2 t2] 1(9) r2 by auto
  have "slots_kept {} e e3"
    using 1(5,10) 3(5) by (auto simp: slots_kept_def free_slot_def 2(5))
  moreover have "has_room e3" using 3(4,6) 1(6) r2 by (auto simp: has_room_def)
  moreover have "ext2fs_len e1 fd = Some (ucast (i_size ?ip))"
    using 1(3) fd l by (simp add: ext2fs_len_def ext2fs_fstat_def ext2_fstat_def mounted_def MAX_OPEN_FILES_def rd1_def Let_def)
  moreover have "namebuf e2 = namebuf e1" using 2(6) by (auto simp: rebuffered_def dest: arg_cong [of _ _ namebuf])
  ultimately show ?thesis using 3(7) 1(11) 1(1) 2(1,2) 3(1-3)
    by (intro exI [of _ fd] exI [of _ e1] exI [of _ s1] exI [of _ e2] exI [of _ s2] exI [of _ e3]) simp
qed

text \<open>Mounting a volume.\<close>

lemma ext2fs_fs_open_ok:
  assumes "volume_ok img" "inv s"
  shows "\<exists>e' s'. ext2fs_fs_open v e s = Some (0, e', s') \<and> inv s' \<and> mounted img e' \<and> table_ok img e' \<and> has_room e'
    \<and> namebuf e' = namebuf e \<and> fullname e' = fullname e"
proof -
  have len: "2048 \<le> length img" using assms(1) by (simp add: volume_ok_def)
  have sbl: "length (sb_of img) = 1024" using len by (simp add: sb_of_def)
  obtain s1 where 1: "read_bytes v s 1024 (replicate 1024 0) 0 1024 = Some (0, sb_of img, s1)" "inv s1"
    using read_bytes_ok [OF assms(2), of 1024 1024 0 "replicate 1024 0"] len sbl
    by (auto simp: sb_of_def simp del: replicate_numeral)
  have lg: "s_log_block_size (sb_of img) \<noteq> 0 \<longrightarrow> unat (s_log_block_size (sb_of img)) = 1 \<or> unat (s_log_block_size (sb_of img)) = 2"
    and l3: "unat (s_log_block_size (sb_of img)) < 3"
    using assms(1) unat_eq_zero [of "s_log_block_size (sb_of img)"] by (auto simp: volume_ok_def)
  define n where "n = ngroups_of img * 32"
  have n: "unat n \<le> 65024" using assms(1) by (simp add: volume_ok_def n_def)
  obtain g where g: "bl_malloc v n = Some g" "unat n \<le> length g" using malloc_ok [OF 1(2), of n] n by auto
  have b: "EXT2_BLOCK_SIZE (sb_of img) = 1024 * 2 ^ unat (s_log_block_size (sb_of img))"
    using l3 by (simp add: EXT2_BLOCK_SIZE_def EXT2_MIN_BLOCK_SIZE_def push_bit_eq_mult)
  have ub: "unat (EXT2_BLOCK_SIZE (sb_of img)) = block_size_of img"
    using l3 lg unfolding b by (cases "s_log_block_size (sb_of img) = 0") (auto simp: block_size_of_def unat_word_ariths)
  let ?off = "EXT2_BLOCK_SIZE (sb_of img) * (EXT2_MIN_BLOCK_SIZE div EXT2_BLOCK_SIZE (sb_of img) + 1)"
  have off: "unat ?off = gdt_place img" "gdt_place img mod 512 = 0"
    using lg unfolding b by (cases "s_log_block_size (sb_of img) = 0";
      auto simp: gdt_place_def block_size_of_def EXT2_MIN_BLOCK_SIZE_def unat_word_ariths unat_div_distrib)+
  have gl: "length (gds_of img) = unat n" using length_gds [OF assms(1)] by (simp add: n_def)
  have "512 * (unat ?off div 512) = gdt_place img" using off mult_div_mod_eq [of 512 "gdt_place img"] by simp
  then obtain s2 where 2: "read_bytes v s1 ?off g 0 n = Some (0, gds_of img @ drop (unat n) g, s2)" "inv s2"
    using read_bytes_ok [OF 1(2) n, of ?off 0 g] off up_to_sector [of "unat n"] g(2) gl assms(1)
    by (auto simp: volume_ok_def gds_of_def n_def distrib_left)
  define e' where "e' = (memset_e2fs (e\<lparr>this_open := True\<rparr>))\<lparr>sb := sb_of img, ngroups := ngroups_of img, gds := gds_of img @ drop (unat n) g,
    blocksize := EXT2_BLOCK_SIZE (sb_of img), cached_diblkno := - 1, cached_iblkno := - 1,
    inode_table := replicate 32 (zero_entry\<lparr>bl_free := True, inumber := 0\<rparr>), root_inode := None,
    directlim := EXT2_NDIR_BLOCKS - 1, ptrs_per_blk := EXT2_BLOCK_SIZE (sb_of img) div 4,
    ind1lim := EXT2_BLOCK_SIZE (sb_of img) div 4 + (EXT2_NDIR_BLOCKS - 1),
    ind2lim := EXT2_BLOCK_SIZE (sb_of img) div 4 * (EXT2_BLOCK_SIZE (sb_of img) div 4) + (EXT2_NDIR_BLOCKS - 1)\<rparr>"
  have nz: "EXT2_BLOCK_SIZE (sb_of img) \<noteq> 0" using ub by (auto simp: block_size_of_def)
  have magic: "s_magic (sb_of img) = EXT2_SUPER_MAGIC" "s_blocks_per_group (sb_of img) \<noteq> 0"
    using assms(1) by (simp_all add: volume_ok_def)
  have "ext2fs_init_state v (e\<lparr>this_open := True\<rparr>) s1 (sb_of img) = Some (0, e', s2)"
    using g(1) 2(1) nz magic(2)
    by (simp add: ext2fs_init_state_def Let_def ngroups_of_def [symmetric] n_def [symmetric] e'_def memset_e2fs_def MAX_OPEN_FILES_def)
  then have "ext2fs_fs_open v e s = Some (0, e', s2)"
    using 1(1) magic(1) by (simp add: ext2fs_fs_open_def EXT2_MIN_BLOCK_SIZE_def del: replicate_numeral)
  moreover have "mounted img e'"
    unfolding mounted_def fs_ok_def geometry_ok_def cache_holds_def using ub l3
    by (simp add: e'_def memset_e2fs_def b EXT2_NDIR_BLOCKS_def EXT2_MAX_BLOCK_SIZE_def) blast
  moreover have "table_ok img e'" "namebuf e' = namebuf e" "fullname e' = fullname e"
    by (simp_all add: table_ok_def e'_def zero_entry_def memset_e2fs_def)
  moreover have "has_room e'"
    unfolding has_room_def by (rule exI [of _ 0], rule exI [of _ 1]) (simp add: free_slot_def e'_def)
  ultimately show ?thesis using 2(2) by blast
qed

end

section \<open>A sample volume\<close>

text \<open>
  On the partition of 100 sectors at sector 40: super block, one group, the inode table in block 3, the
  root directory in block 4 with the entries \<open>k\<close>, inode 3, a file of 8 KiB in the blocks 5 to 12, and
  \<open>mb_boot_tv.conf\<close>, inode 4, a file of 9 bytes in block 13.
\<close>

definition volume_dir :: "byte list" where
  "volume_dir = [0xED, 0x41, 0, 0, 0, 4, 0, 0] @ replicate 32 0 @ [4, 0, 0, 0] @ replicate 84 0"

definition volume_file :: "byte list" where
  "volume_file = [0xA4, 0x81, 0, 0, 0, 0x20, 0, 0] @ replicate 32 0
     @ [5, 0, 0, 0, 6, 0, 0, 0, 7, 0, 0, 0, 8, 0, 0, 0, 9, 0, 0, 0, 10, 0, 0, 0, 11, 0, 0, 0, 12, 0, 0, 0] @ replicate 56 0"

definition volume_text :: "byte list" where
  "volume_text = [0xA4, 0x81, 0, 0, 9, 0, 0, 0] @ replicate 32 0 @ [13, 0, 0, 0] @ replicate 84 0"

definition volume_name :: "byte list" where
  "volume_name = map of_char ''mb_boot_tv.conf''"

definition volume_media :: media where
  "volume_media d n =
     (if 1000 \<le> n then []
      else if n = 42 then replicate 4 0 @ [50, 0, 0, 0] @ replicate 12 0 @ [1, 0, 0, 0] @ replicate 8 0 @ [0, 0x20, 0, 0]
        @ replicate 4 0 @ [16, 0, 0, 0] @ replicate 12 0 @ [0x53, 0xEF] @ replicate 454 0
      else if n = 44 then replicate 8 0 @ [3, 0, 0, 0] @ replicate 500 0
      else if n = 46 then replicate 128 0 @ volume_dir @ volume_file @ volume_text
      else if n = 48 then [3, 0, 0, 0, 12, 0, 1, 0, 0x6B, 0, 0, 0] @ [4, 0, 0, 0, 0xF4, 3, 15, 0] @ volume_name @ replicate 477 0
      else if n = 50 then replicate 510 0 @ [0x55, 0xAA]
      else if n = 66 then map of_char ''kernel /k'' @ replicate 503 0
      else replicate 512 0)"

definition volume_image :: "byte list" where
  "volume_image = partition_image volume_media sample_info sample_partition"

lemma length_volume_media [simp]: "n < 1000 \<Longrightarrow> length (volume_media d n) = 512"
  by (simp add: volume_media_def volume_dir_def volume_file_def volume_text_def volume_name_def del: replicate_numeral)

lemma volume_media_granted:
  assumes "\<forall>k. unat k \<le> 65536 \<longrightarrow> (\<exists>b. m k = Some b \<and> unat k \<le> length b)"
  shows "volume_ready (drive_io geo volume_media) drive_view geo volume_media sample_info 1000 sample_partition m sample_machine"
proof -
  have "ide_serves (drive_io geo volume_media) drive_view geo volume_media sample_info 1000 sample_machine"
    by (rule sample_serves) (simp, simp add: volume_media_def)
  then show ?thesis using sample_cache assms by (auto simp: volume_ready_def sample_partition_def)
qed

lemma volume_media_ready:
  "volume_ready (drive_io geo volume_media) drive_view geo volume_media sample_info 1000 sample_partition sample_malloc sample_machine"
  by (rule volume_media_granted) (simp add: sample_malloc_def)

lemma volume_image_sectors:
  assumes "a + i \<le> 100"
  shows "bytes_at (512 * a) (512 * i) volume_image = sectors_from (\<lambda>k. volume_media 0 (unat k)) (40 + of_nat a) i"
    and "length volume_image = 51200"
proof -
  have sl: "i_slave sample_info = 0" by (simp add: sample_info_def memset_info_def)
  have all: "\<forall>j<100. length ((\<lambda>k. volume_media 0 (unat k)) ((40 :: u64) + of_nat j)) = 512"
    by (simp add: unat_word_ariths unat_of_nat)
  show "bytes_at (512 * a) (512 * i) volume_image = sectors_from (\<lambda>k. volume_media 0 (unat k)) (40 + of_nat a) i"
    using sectors_from_within [OF all assms] sl by (simp add: volume_image_def partition_image_def sample_partition_def)
  show "length volume_image = 51200"
    using length_sectors_from_all [OF all] sl by (simp add: volume_image_def partition_image_def sample_partition_def)
qed

lemma volume_bytes:
  assumes "a < 100" "r + n \<le> 512"
  shows "bytes_at (512 * a + r) n volume_image = bytes_at r n (volume_media 0 (40 + a))"
proof -
  have "unat (40 + of_nat a :: u64) = 40 + a" using assms(1) by (simp add: unat_word_ariths unat_of_nat)
  then have "bytes_at (512 * a) 512 volume_image = volume_media 0 (40 + a)"
    using volume_image_sectors(1) [of a 1] assms(1) by simp
  then show ?thesis using bytes_at_bytes_at [OF assms(2), of "512 * a" volume_image] by simp
qed

lemma bytes_at_Cons:
  "bytes_at off n (x # xs) = (if off = 0 then (if n = 0 then [] else x # bytes_at 0 (n - 1) xs) else bytes_at (off - 1) n xs)"
  by (simp add: bytes_at_def take_Cons' drop_Cons')

lemma bytes_at_replicate: "off + n \<le> k \<Longrightarrow> bytes_at off n (replicate k x) = replicate n x"
  by (simp add: bytes_at_def min_def)

lemmas bytes_at_eval = bytes_at_Cons bytes_at_replicate bytes_at_append_left bytes_at_append_right

lemma length_volume_inodes [simp]: "length volume_dir = 128" "length volume_file = 128" "length volume_text = 128"
  "length volume_name = 15"
  by (simp_all add: volume_dir_def volume_file_def volume_text_def volume_name_def del: replicate_numeral)

lemma volume_super_bytes:
  "bytes_at 56 2 (volume_media 0 42) = [0x53, 0xEF]" "bytes_at 24 4 (volume_media 0 42) = replicate 4 0"
  "bytes_at 4 4 (volume_media 0 42) = [50, 0, 0, 0]" "bytes_at 20 4 (volume_media 0 42) = [1, 0, 0, 0]"
  "bytes_at 32 4 (volume_media 0 42) = [0, 0x20, 0, 0]" "bytes_at 40 4 (volume_media 0 42) = [16, 0, 0, 0]"
  "bytes_at 76 4 (volume_media 0 42) = replicate 4 0" "bytes_at 8 4 (volume_media 0 44) = [3, 0, 0, 0]"
  "bytes_at 128 128 (volume_media 0 46) = volume_dir" "bytes_at 256 128 (volume_media 0 46) = volume_file"
  "bytes_at 384 128 (volume_media 0 46) = volume_text"
  by (simp_all add: volume_media_def bytes_at_eval del: replicate_numeral)

lemma volume_super:
  "s_magic (sb_of volume_image) = EXT2_SUPER_MAGIC" "s_log_block_size (sb_of volume_image) = 0"
  "s_blocks_count (sb_of volume_image) = 50" "s_first_data_block (sb_of volume_image) = 1"
  "s_blocks_per_group (sb_of volume_image) = 8192" "s_inodes_per_group (sb_of volume_image) = 16"
  "s_rev_level (sb_of volume_image) = 0"
  using volume_bytes [of 2 56 2] volume_bytes [of 2 24 4] volume_bytes [of 2 4 4] volume_bytes [of 2 20 4]
    volume_bytes [of 2 32 4] volume_bytes [of 2 40 4] volume_bytes [of 2 76 4]
  by (simp_all add: sb_of_def s_magic_def s_log_block_size_def s_blocks_count_def s_first_data_block_def s_blocks_per_group_def
      s_inodes_per_group_def s_rev_level_def field16_def field32_def bytes_at_bytes_at EXT2_SUPER_MAGIC_def volume_super_bytes replicate_numeral)

lemma volume_geometry: "block_size_of volume_image = 1024" "ngroups_of volume_image = 1" "gdt_place volume_image = 2048"
  by (simp_all add: block_size_of_def ngroups_of_def gdt_place_def volume_super)

lemma volume_image_ok: "volume_ok volume_image"
  using volume_image_sectors(2) [of 0 0] by (simp add: volume_ok_def volume_super volume_geometry)

lemma volume_inode_places: "inode_place volume_image 2 = 3200" "inode_place volume_image 3 = 3328" "inode_place volume_image 4 = 3456"
proof -
  have "gds_of volume_image = bytes_at 2048 32 volume_image" by (simp add: gds_of_def volume_geometry)
  then have "bg_inode_table (bytes_at 0 32 (gds_of volume_image)) = 3"
    using volume_bytes [of 4 8 4] by (simp add: bg_inode_table_def field32_def bytes_at_bytes_at volume_super_bytes)
  then show "inode_place volume_image 2 = 3200" "inode_place volume_image 3 = 3328" "inode_place volume_image 4 = 3456"
    by (simp_all add: inode_place_def inode_group_def volume_super volume_geometry EXT2_INODE_SIZE_def)
qed

lemma volume_inodes:
  "inode_at volume_image 2 = volume_dir" "inode_at volume_image 3 = volume_file" "inode_at volume_image 4 = volume_text"
  "inode_ok volume_image 2" "inode_ok volume_image 3" "inode_ok volume_image 4"
  using volume_bytes [of 6 128 128] volume_bytes [of 6 256 128] volume_bytes [of 6 384 128] volume_image_sectors(2) [of 0 0]
  by (simp_all add: inode_at_def inode_ok_def inode_group_def volume_inode_places volume_super volume_geometry volume_super_bytes)

lemma volume_dir_fields: "i_size volume_dir = 1024" "i_block volume_dir 0 = 4"
  by (simp_all add: i_size_def i_block_def field32_def volume_dir_def bytes_at_eval del: replicate_numeral)

lemma volume_file_fields: "i_size volume_file = 8192" "i_mode volume_file = 0x81A4" "k < 8 \<Longrightarrow> i_block volume_file k = of_nat (5 + k)"
proof -
  show "i_size volume_file = 8192" "i_mode volume_file = 0x81A4"
    by (simp_all add: i_size_def i_mode_def field32_def field16_def volume_file_def bytes_at_eval del: replicate_numeral)
  assume "k < 8"
  then have "k \<in> {0, 1, 2, 3, 4, 5, 6, 7}" by auto
  then show "i_block volume_file k = of_nat (5 + k)"
    by (elim insertE emptyE) (simp_all add: i_block_def field32_def volume_file_def bytes_at_eval del: replicate_numeral)
qed

lemma volume_text_fields: "i_size volume_text = 9" "i_mode volume_text = 0x81A4" "i_block volume_text 0 = 13"
  by (simp_all add: i_size_def i_mode_def i_block_def field32_def field16_def volume_text_def bytes_at_eval del: replicate_numeral)

lemma volume_text_ok: "file_ok volume_image 1024 volume_text"
  using volume_image_sectors(2) [of 0 0]
  by (simp add: file_ok_def map_ok_def Let_def block_map_def block_ok_def volume_text_fields)

lemma volume_text_contents: "file_contents volume_image 1024 volume_text = map of_char ''kernel /k''"
proof -
  have "file_block volume_image 1024 volume_text 0 = volume_media 0 66 @ volume_media 0 67"
    using volume_image_sectors(1) [of 26 2]
    by (simp add: file_block_def block_map_def volume_text_fields block_at_def sectors_from_2)
  then have "file_contents volume_image 1024 volume_text = map (\<lambda>i. volume_media 0 66 ! i) [0..<9]"
    by (simp add: file_contents_def volume_text_fields nth_append)
  then show ?thesis by (simp add: volume_media_def upt_rec nth_append nth_Cons')
qed

lemma volume_file_ok: "file_ok volume_image 1024 volume_file"
  using volume_image_sectors(2) [of 0 0]
  by (simp add: file_ok_def map_ok_def Let_def block_map_def block_ok_def volume_file_fields unat_word_ariths unat_of_nat)

lemma volume_dir_block: "file_block volume_image 1024 volume_dir 0 = volume_media 0 48 @ volume_media 0 49"
  using volume_image_sectors(1) [of 8 2]
  by (simp add: file_block_def block_map_def volume_dir_fields block_at_def sectors_from_2)

lemma volume_dirents:
  "chain_ok (file_block volume_image 1024 volume_dir 0) 0"
  "dirents (file_block volume_image 1024 volume_dir 0) 0 = [(3, [0x6B]), (4, volume_name)]"
proof -
  let ?b = "volume_media 0 48 @ volume_media 0 49"
  have l: "length ?b = 1024" by simp
  have f: "field16 4 ?b = 12" "field32 0 ?b = 3" "?b ! 6 = 1" "bytes_at 8 1 ?b = [0x6B]"
    "field16 16 ?b = 1012" "field32 12 ?b = 4" "?b ! 18 = 15" "bytes_at 20 15 ?b = volume_name"
    by (simp_all add: field16_def field32_def bytes_at_append_left)
      (simp_all add: volume_media_def bytes_at_eval nth_append nth_Cons' del: replicate_numeral)
  show "chain_ok (file_block volume_image 1024 volume_dir 0) 0"
    unfolding volume_dir_block using f l by (simp add: chain_ok.simps [of ?b])
  show "dirents (file_block volume_image 1024 volume_dir 0) 0 = [(3, [0x6B]), (4, volume_name)]"
    unfolding volume_dir_block using f l by (simp add: dirents.simps [of ?b])
qed

lemma volume_dir_ok: "dir_ok volume_image 1024 volume_dir"
  using volume_image_sectors(2) [of 0 0] volume_dirents(1)
  by (simp add: dir_ok_def dir_blocks_def file_ok_def map_ok_def Let_def block_map_def block_ok_def volume_dir_fields)

lemma volume_path: "path_ok volume_image EXT2_ROOT_INO [[0x6B]]" "resolve volume_image EXT2_ROOT_INO [[0x6B]] = Some 3"
  "names_ok [[0x6B]]" "path_string [[0x6B]] [0x2F, 0x6B]"
proof -
  have "dir_lookup volume_image volume_dir [0x6B] = Some 3"
    by (simp add: dir_lookup_def entry_of_def dir_entries_def dir_blocks_def volume_geometry volume_dir_fields volume_dirents)
  then show "path_ok volume_image EXT2_ROOT_INO [[0x6B]]" "resolve volume_image EXT2_ROOT_INO [[0x6B]] = Some 3"
    using volume_dir_ok by (simp_all add: EXT2_ROOT_INO_def volume_inodes volume_geometry)
  show "names_ok [[0x6B]]" "path_string [[0x6B]] [0x2F, 0x6B]" by (simp_all add: names_ok_def path_component_def path_string_def)
qed

lemma volume_conf_path: "path_ok volume_image EXT2_ROOT_INO [volume_name]" "resolve volume_image EXT2_ROOT_INO [volume_name] = Some 4"
  "names_ok [volume_name]" "path_string [volume_name] (0x2F # volume_name)"
proof -
  have "dir_lookup volume_image volume_dir volume_name = Some 4"
    by (simp add: dir_lookup_def entry_of_def dir_entries_def dir_blocks_def volume_geometry volume_dir_fields volume_dirents volume_name_def)
  then show "path_ok volume_image EXT2_ROOT_INO [volume_name]" "resolve volume_image EXT2_ROOT_INO [volume_name] = Some 4"
    using volume_dir_ok by (simp_all add: EXT2_ROOT_INO_def volume_inodes volume_geometry)
  show "names_ok [volume_name]" "path_string [volume_name] (0x2F # volume_name)"
    by (simp_all add: names_ok_def path_component_def path_string_def volume_name_def)
qed

section \<open>Properties\<close>

text \<open>
  C3: \<open>ext2fs_open\<close> implements the look-up of a path: it returns a descriptor exactly if every component
  is an entry of the directory that the components before it lead to, in a slot that was free, at
  position 0, holding the inode that the path leads to; all other open inodes stay as they were.  A path whose last
  component is a symbolic link is excluded.\<close>

theorem ext2fs_open_resolves:
  assumes "volume_ready io view geo media info n g m s" "img = partition_image media info g" "volume_ok img"
    and "mounted img e" "table_ok img e" "has_room e"
    and "path_ok img EXT2_ROOT_INO cs" "names_ok cs" "path_string cs path" "0 \<notin> set path" "length path < 4095"
    and "\<And>k. resolve img EXT2_ROOT_INO cs = Some k \<Longrightarrow> \<not> S_ISLNK (i_mode (inode_at img k))"
  shows "\<exists>fd e' s'. ext2fs_open (partition_ops io m g) e s (path @ 0 # t) = Some (fd, e', s')
    \<and> volume_ready io view geo media info n g m s' \<and> mounted img e' \<and> table_ok img e' \<and> slots_kept {} e e'
    \<and> (case resolve img EXT2_ROOT_INO cs of None \<Rightarrow> fd = None
       | Some k \<Rightarrow> \<exists>j. fd = Some j \<and> slot_holds img e' j k \<and> pos (inode_table e' ! j) = 0 \<and> free_slot e j)"
proof -
  from pvol.ext2fs_open_ok [of media info g io view geo n m s e cs path t, folded assms(2), OF assms(3,1,4-12)]
  obtain fd e' s' where "ext2fs_open (partition_ops io m g) e s (path @ 0 # t) = Some (fd, e', s')"
    "volume_ready io view geo media info n g m s'" "mounted img e'" "table_ok img e'" "slots_kept {} e e'"
    "case resolve img EXT2_ROOT_INO cs of None \<Rightarrow> fd = None
       | Some k \<Rightarrow> \<exists>j. fd = Some j \<and> slot_holds img e' j k \<and> pos (inode_table e' ! j) = 0 \<and> root_inode e' \<noteq> Some j \<and> free_slot e j"
    by blast
  then show ?thesis by (intro exI [of _ fd] exI [of _ e'] exI [of _ s']) (auto split: option.splits)
qed

theorem ext2fs_open_resolves_witness:
  "\<exists>e0 s0 fd e1 s1. ext2fs_fs_open (partition_ops (drive_io (16, 63) volume_media) sample_malloc sample_partition)
      sample_e2fs sample_machine = Some (0, e0, s0)
    \<and> ext2fs_open (partition_ops (drive_io (16, 63) volume_media) sample_malloc sample_partition) e0 s0 [0x2F, 0x6B, 0] = Some (Some fd, e1, s1)
    \<and> e_inode (inode_table e1 ! fd) = volume_file"
proof -
  let ?v = "partition_ops (drive_io (16, 63) volume_media) sample_malloc sample_partition"
  obtain e0 s0 where 0: "ext2fs_fs_open ?v sample_e2fs sample_machine = Some (0, e0, s0)"
    "volume_ready (drive_io (16, 63) volume_media) drive_view (16, 63) volume_media sample_info 1000 sample_partition sample_malloc s0"
    "mounted volume_image e0" "table_ok volume_image e0" "has_room e0"
    using pvol.ext2fs_fs_open_ok [OF _ volume_media_ready [of "(16, 63)"], folded volume_image_def, OF volume_image_ok] by blast
  have "\<not> S_ISLNK (i_mode (inode_at volume_image k))" if "resolve volume_image EXT2_ROOT_INO [[0x6B]] = Some k" for k
    using that unfolding volume_path(2) by (simp add: volume_inodes volume_file_fields S_ISLNK_def)
  from ext2fs_open_resolves [OF 0(2) refl, folded volume_image_def, OF volume_image_ok 0(3-5) volume_path(1,3,4) _ _ this, of "[]"]
  show ?thesis using 0(1) volume_path(2) volume_inodes(2) by (fastforce simp: slot_holds_def)
qed

text \<open>
  C11: Mounting a valid ext2 volume on a partition and then opening, sizing, reading and closing the file at a
  path gives that file whole: the bytes of the blocks of the inode that the directories lead to.  A
  path whose last component is a symbolic link is excluded.\<close>

theorem volume_file_read:
  assumes "volume_ready io view geo media info n g m s" "img = partition_image media info g" "volume_ok img"
    and "path_ok img EXT2_ROOT_INO cs" "names_ok cs" "path_string cs path" "0 \<notin> set path" "length path < 4095"
    and "resolve img EXT2_ROOT_INO cs = Some k" "\<not> S_ISLNK (i_mode (inode_at img k))"
    and "file_ok img (block_size_of img) (inode_at img k)" "length buf = unat (i_size (inode_at img k))"
  shows "\<exists>e0 s0 fd e1 s1 e2 s2 e3. ext2fs_fs_open (partition_ops io m g) e s = Some (0, e0, s0)
    \<and> ext2fs_open (partition_ops io m g) e0 s0 (path @ 0 # t) = Some (Some fd, e1, s1)
    \<and> ext2fs_len e1 fd = Some (ucast (i_size (inode_at img k)))
    \<and> ext2fs_read (partition_ops io m g) e1 s1 fd buf (i_size (inode_at img k)) =
        Some (0, file_contents img (block_size_of img) (inode_at img k), i_size (inode_at img k), e2, s2)
    \<and> ext2fs_close e2 fd = Some (0, e3) \<and> mounted img e3 \<and> table_ok img e3 \<and> has_room e3"
proof -
  obtain e0 s0 where 0: "ext2fs_fs_open (partition_ops io m g) e s = Some (0, e0, s0)" "volume_ready io view geo media info n g m s0"
    "mounted img e0" "table_ok img e0" "has_room e0"
    using pvol.ext2fs_fs_open_ok [of media info g io view geo n m s e] assms(1-3) by auto
  then show ?thesis
    using pvol.read_whole_file [of media info g io view geo n m s0 e0 cs path k buf t] assms(2-12) by simp blast
qed

theorem volume_file_read_witness:
  "\<exists>e0 s0 fd e1 s1 e2 s2 data. ext2fs_fs_open (partition_ops (drive_io (16, 63) volume_media) sample_malloc sample_partition)
      sample_e2fs sample_machine = Some (0, e0, s0)
    \<and> ext2fs_open (partition_ops (drive_io (16, 63) volume_media) sample_malloc sample_partition) e0 s0 [0x2F, 0x6B, 0] = Some (Some fd, e1, s1)
    \<and> ext2fs_read (partition_ops (drive_io (16, 63) volume_media) sample_malloc sample_partition) e1 s1 fd (replicate 8192 7) 8192 =
        Some (0, data, 8192, e2, s2) \<and> length data = 8192"
proof -
  have k: "\<not> S_ISLNK (i_mode (inode_at volume_image 3))" "file_ok volume_image (block_size_of volume_image) (inode_at volume_image 3)"
    "length (replicate 8192 (7 :: byte)) = unat (i_size (inode_at volume_image 3))"
    using volume_file_ok by (simp_all add: volume_inodes volume_geometry volume_file_fields S_ISLNK_def del: replicate_numeral)
  show ?thesis
    using volume_file_read [OF volume_media_ready [of "(16, 63)"] refl, folded volume_image_def, OF volume_image_ok volume_path(1,3,4) _ _
        volume_path(2) k, of sample_e2fs "[]"]
    by (auto simp: volume_inodes volume_geometry volume_file_fields file_contents_def simp del: replicate_numeral)
qed

end
