(* ===== verification/Pci.thy ===== *)
theory Pci
  imports Io
begin

text \<open>
  The PCI configuration space (\<^verbatim>\<open>src/main/eb-pci_bios.c\<close>, \<^verbatim>\<open>src/main/pci.c\<close>), the bus scan and the
  helpers of \<^verbatim>\<open>src/main/eb/pci.c\<close>, and the two drivers of \<^verbatim>\<open>src/main/eb-pci_drivers.c\<close>.  The device
  names, which are only printed, are left out.
\<close>

section \<open>Configuration access\<close>

definition CONFIG_CMD :: "u32 \<Rightarrow> u32 \<Rightarrow> u32 \<Rightarrow> u32" where
  "CONFIG_CMD bus device_fn reg = 0x80000000 OR push_bit 16 bus OR push_bit 8 device_fn OR (reg AND NOT 3)"

definition pcibios_bus_base :: "u32 \<Rightarrow> u32" where "pcibios_bus_base bus = 0"

definition pcibios_read_config_byte :: "'h io \<Rightarrow> u32 \<Rightarrow> u32 \<Rightarrow> u32 \<Rightarrow> 'h \<Rightarrow> byte \<times> 'h" where
  "pcibios_read_config_byte io bus device_fn reg h =
     (let h = outl io (CONFIG_CMD bus device_fn reg) 0xCF8 h in inb io (0xCFC + ucast (reg AND 3)) h)"

definition pcibios_read_config_word :: "'h io \<Rightarrow> u32 \<Rightarrow> u32 \<Rightarrow> u32 \<Rightarrow> 'h \<Rightarrow> u16 \<times> 'h" where
  "pcibios_read_config_word io bus device_fn reg h =
     (let h = outl io (CONFIG_CMD bus device_fn reg) 0xCF8 h in inw io (0xCFC + ucast (reg AND 2)) h)"

definition pcibios_read_config_dword :: "'h io \<Rightarrow> u32 \<Rightarrow> u32 \<Rightarrow> u32 \<Rightarrow> 'h \<Rightarrow> u32 \<times> 'h" where
  "pcibios_read_config_dword io bus device_fn reg h =
     (let h = outl io (CONFIG_CMD bus device_fn reg) 0xCF8 h in inl io 0xCFC h)"

definition pcibios_write_config_byte :: "'h io \<Rightarrow> u32 \<Rightarrow> u32 \<Rightarrow> u32 \<Rightarrow> byte \<Rightarrow> 'h \<Rightarrow> 'h" where
  "pcibios_write_config_byte io bus device_fn reg value h =
     (let h = outl io (CONFIG_CMD bus device_fn reg) 0xCF8 h in outb io value (0xCFC + ucast (reg AND 3)) h)"

definition pcibios_write_config_word :: "'h io \<Rightarrow> u32 \<Rightarrow> u32 \<Rightarrow> u32 \<Rightarrow> u16 \<Rightarrow> 'h \<Rightarrow> 'h" where
  "pcibios_write_config_word io bus device_fn reg value h =
     (let h = outl io (CONFIG_CMD bus device_fn reg) 0xCF8 h in outw io value (0xCFC + ucast (reg AND 2)) h)"

definition pcibios_write_config_dword :: "'h io \<Rightarrow> u32 \<Rightarrow> u32 \<Rightarrow> u32 \<Rightarrow> u32 \<Rightarrow> 'h \<Rightarrow> 'h" where
  "pcibios_write_config_dword io bus device_fn reg value h =
     (let h = outl io (CONFIG_CMD bus device_fn reg) 0xCF8 h in outl io value 0xCFC h)"

definition pci_read_config_byte :: "'h io \<Rightarrow> pci_device \<Rightarrow> u32 \<Rightarrow> 'h \<Rightarrow> byte \<times> 'h" where
  "pci_read_config_byte io dev reg h = pcibios_read_config_byte io (ucast (p_bus dev)) (ucast (p_devfn dev)) reg h"
definition pci_read_config_word :: "'h io \<Rightarrow> pci_device \<Rightarrow> u32 \<Rightarrow> 'h \<Rightarrow> u16 \<times> 'h" where
  "pci_read_config_word io dev reg h = pcibios_read_config_word io (ucast (p_bus dev)) (ucast (p_devfn dev)) reg h"
definition pci_read_config_dword :: "'h io \<Rightarrow> pci_device \<Rightarrow> u32 \<Rightarrow> 'h \<Rightarrow> u32 \<times> 'h" where
  "pci_read_config_dword io dev reg h = pcibios_read_config_dword io (ucast (p_bus dev)) (ucast (p_devfn dev)) reg h"
definition pci_write_config_dword :: "'h io \<Rightarrow> pci_device \<Rightarrow> u32 \<Rightarrow> u32 \<Rightarrow> 'h \<Rightarrow> 'h" where
  "pci_write_config_dword io dev reg value h =
     pcibios_write_config_dword io (ucast (p_bus dev)) (ucast (p_devfn dev)) reg value h"

text \<open>The accessors of \<^verbatim>\<open>src/main/pci.c\<close> add \<open>off & 3\<close> to the data port for every width.\<close>

definition conf1_read_8 :: "'h io \<Rightarrow> u32 \<Rightarrow> u32 \<Rightarrow> u32 \<Rightarrow> 'h \<Rightarrow> byte \<times> 'h" where
  "conf1_read_8 io bus devfn off h =
     (let addr = 0xcfc + ucast (off AND 3); h = outl io (CONFIG_CMD bus devfn off) 0x0cf8 h in inb io addr h)"
definition conf1_read_16 :: "'h io \<Rightarrow> u32 \<Rightarrow> u32 \<Rightarrow> u32 \<Rightarrow> 'h \<Rightarrow> u16 \<times> 'h" where
  "conf1_read_16 io bus devfn off h =
     (let addr = 0xcfc + ucast (off AND 3); h = outl io (CONFIG_CMD bus devfn off) 0x0cf8 h in inw io addr h)"
definition conf1_read_32 :: "'h io \<Rightarrow> u32 \<Rightarrow> u32 \<Rightarrow> u32 \<Rightarrow> 'h \<Rightarrow> u32 \<times> 'h" where
  "conf1_read_32 io bus devfn off h =
     (let addr = 0xcfc + ucast (off AND 3); h = outl io (CONFIG_CMD bus devfn off) 0x0cf8 h in inl io addr h)"
definition conf1_write_8 :: "'h io \<Rightarrow> u32 \<Rightarrow> u32 \<Rightarrow> u32 \<Rightarrow> byte \<Rightarrow> 'h \<Rightarrow> 'h" where
  "conf1_write_8 io bus devfn off val h =
     (let addr = 0xcfc + ucast (off AND 3); h = outl io (CONFIG_CMD bus devfn off) 0x0cf8 h in outb io val addr h)"

section \<open>Drivers\<close>

record pci_driver =
  t_driver :: driver
  t_type :: int
  t_ids :: "(u16 \<times> u16) list"
  t_id_count :: nat
  t_class :: u16

definition rtl8139_nics :: "(u16 \<times> u16) list" where
  "rtl8139_nics = [(0x10ec, 0x8129), (0x10ec, 0x8139), (0x10ec, 0x8138), (0x1186, 0x1300), (0x1113, 0x1211),
     (0x1112, 0x1211), (0x1500, 0x1360), (0x4033, 0x1360), (0x1186, 0x1340), (0x13d1, 0xab06), (0x1259, 0xa117),
     (0x14ea, 0xab06), (0x14ea, 0xab07), (0xffff, 0x8139)]"

definition ide_controllers :: "(u16 \<times> u16) list" where
  "ide_controllers = [(0x8086, 0x248b)]"

text \<open>The \<open>id_count\<close> of the IDE driver is the size of its table divided by itself.\<close>

definition pci_drivers_p :: "pci_driver list" where
  "pci_drivers_p =
     [\<lparr>t_driver = rtl8139_driver, t_type = NIC_DRIVER, t_ids = rtl8139_nics, t_id_count = length rtl8139_nics, t_class = 0\<rparr>,
      \<lparr>t_driver = ide_driver, t_type = DISK_DRIVER, t_ids = ide_controllers, t_id_count = 1, t_class = 0x0101\<rparr>]"

text \<open>
  The two loops of \<open>scan_drivers\<close>.  The second argument is \<open>skip_driver\<close>, which the second loop
  takes over from the first.
\<close>

fun id_scan :: "int \<Rightarrow> driver option \<Rightarrow> u16 \<Rightarrow> u16 \<Rightarrow> pci_driver list \<Rightarrow> driver option \<times> driver option" where
  "id_scan type skip vendor device [] = (None, skip)"
| "id_scan type skip vendor device (d # ds) =
     (if t_type d \<noteq> type then id_scan type skip vendor device ds
      else if skip \<noteq> None then id_scan type (if skip = Some (t_driver d) then None else skip) vendor device ds
      else if (vendor, device) \<in> set (take (t_id_count d) (t_ids d)) then (Some (t_driver d), skip)
      else id_scan type skip vendor device ds)"

fun class_scan :: "int \<Rightarrow> driver option \<Rightarrow> driver option \<Rightarrow> u32 \<Rightarrow> pci_driver list \<Rightarrow> driver option" where
  "class_scan type last_driver skip cls [] = None"
| "class_scan type last_driver skip cls (d # ds) =
     (if t_type d \<noteq> type then class_scan type last_driver skip cls ds
      else if skip \<noteq> None
      then class_scan type last_driver (if skip = Some (t_driver d) then None else skip) cls ds
      else if last_driver = Some (t_driver d) then class_scan type last_driver skip cls ds
      else if drop_bit 8 cls = ucast (t_class d) then Some (t_driver d)
      else class_scan type last_driver skip cls ds)"

definition scan_drivers :: "int \<Rightarrow> u32 \<Rightarrow> u16 \<Rightarrow> u16 \<Rightarrow> driver option \<Rightarrow> pci_device \<Rightarrow> pci_device" where
  "scan_drivers type cls vendor device last_driver dev =
     (case id_scan type last_driver vendor device pci_drivers_p of
        (Some d, _) \<Rightarrow> dev\<lparr>p_driver := Some d\<rparr>
      | (None, skip) \<Rightarrow>
          if cls = 0 then dev
          else (case class_scan type last_driver skip cls pci_drivers_p of
                  Some d \<Rightarrow> dev\<lparr>p_driver := Some d\<rparr>
                | None \<Rightarrow> dev))"

section \<open>The bus scan\<close>

definition PCI_FUNC :: "u32 \<Rightarrow> u32" where "PCI_FUNC devfn = devfn AND 7"

text \<open>The loop over the base address registers: every one that is an I/O address replaces \<open>ioaddr\<close>.\<close>

fun scan_bars :: "'h io \<Rightarrow> u32 \<Rightarrow> u32 \<Rightarrow> u32 list \<Rightarrow> pci_device \<Rightarrow> 'h \<Rightarrow> pci_device \<times> 'h" where
  "scan_bars io bus devfn [] dev h = (dev, h)"
| "scan_bars io bus devfn (reg # regs) dev h =
     (let (ioaddr, h) = pcibios_read_config_dword io bus devfn reg h in
      if ioaddr AND NOT 3 = 0 \<or> ioaddr AND 1 = 0 then scan_bars io bus devfn regs dev h
      else scan_bars io bus devfn regs (dev\<lparr>p_ioaddr := ioaddr AND NOT 3\<rparr>) h)"

definition record_device ::
  "'h io \<Rightarrow> u32 \<Rightarrow> u32 \<Rightarrow> u32 \<Rightarrow> u16 \<Rightarrow> u16 \<Rightarrow> pci_device \<Rightarrow> 'h \<Rightarrow> pci_device \<times> 'h" where
  "record_device io bus devfn cls vendor device dev h =
     (let dev = dev\<lparr>p_devfn := ucast devfn, p_bus := ucast bus, p_class := cls, p_vendor := vendor, p_dev_id := device\<rparr>;
          (romaddr, h) = pcibios_read_config_dword io bus devfn 0x30 h;
          dev = dev\<lparr>p_romaddr := drop_bit 10 romaddr\<rparr>;
          (membase, h) = pcibios_read_config_dword io bus devfn 0x14 h;
          dev = dev\<lparr>p_membase := membase\<rparr>;
          (dev, h) = scan_bars io bus devfn [0x10, 0x14, 0x18, 0x1c, 0x20, 0x24] dev h;
          (irq, h) = pci_read_config_byte io dev 0x3d h;
          (irq, h) = (if irq \<noteq> 0 then pci_read_config_byte io dev 0x3c h else (irq, h))
      in (dev\<lparr>p_irq := irq\<rparr>, h))"

text \<open>
  The inner loop, over the remaining function numbers; the flag tells whether the scan returned.
  \<open>hdr_type\<close> keeps the header type of function 0, and \<open>first_driver\<close> only counts for the first
  function.
\<close>

fun scan_devfns ::
  "'h io \<Rightarrow> int \<Rightarrow> u32 \<Rightarrow> u32 list \<Rightarrow> driver option \<Rightarrow> byte \<Rightarrow> pci_device \<Rightarrow> 'h
    \<Rightarrow> bool \<times> driver option \<times> byte \<times> pci_device \<times> 'h" where
  "scan_devfns io type bus [] first_driver hdr_type dev h = (False, first_driver, hdr_type, dev, h)"
| "scan_devfns io type bus (devfn # devfns) first_driver hdr_type dev h =
     (let (hdr_type, h) = (if PCI_FUNC devfn = 0 then pcibios_read_config_byte io bus devfn 0x0e h else (hdr_type, h)) in
      if PCI_FUNC devfn \<noteq> 0 \<and> hdr_type AND 0x80 = 0 then scan_devfns io type bus devfns None hdr_type dev h
      else
        let (l, h) = pcibios_read_config_dword io bus devfn 0x00 h in
        if l = 0xffffffff \<or> l = 0 then scan_devfns io type bus devfns None hdr_type dev h
        else
          let vendor = ucast (l AND 0xffff);
              device = ucast (drop_bit 16 l AND 0xffff);
              (l, h) = pcibios_read_config_dword io bus devfn 0x08 h;
              cls = drop_bit 8 l AND 0xffffff;
              dev = scan_drivers type cls vendor device first_driver dev
          in if p_driver dev = None then scan_devfns io type bus devfns None hdr_type dev h
             else let (dev, h) = record_device io bus devfn cls vendor device dev h
                  in (True, first_driver, hdr_type, dev, h))"

fun scan_buses ::
  "'h io \<Rightarrow> int \<Rightarrow> u32 list \<Rightarrow> nat \<Rightarrow> driver option \<Rightarrow> byte \<Rightarrow> pci_device \<Rightarrow> 'h \<Rightarrow> pci_device \<times> 'h" where
  "scan_buses io type [] first_devfn first_driver hdr_type dev h = (dev, h)"
| "scan_buses io type (bus # buses) first_devfn first_driver hdr_type dev h =
     (case scan_devfns io type bus (map of_nat [first_devfn..<0xff]) first_driver hdr_type dev h of
        (True, _, _, dev, h) \<Rightarrow> (dev, h)
      | (False, first_driver, hdr_type, dev, h) \<Rightarrow> scan_buses io type buses 0 first_driver hdr_type dev h)"

definition scan_pci_bus :: "'h io \<Rightarrow> int \<Rightarrow> pci_device \<Rightarrow> 'h \<Rightarrow> pci_device \<times> 'h" where
  "scan_pci_bus io type dev h =
     (if p_driver dev \<noteq> None \<or> p_use_specified dev \<noteq> 0 then
        let first_driver = p_driver dev; first_bus = p_bus dev; first_devfn = p_devfn dev;
            (hdr_type, h) = pcibios_read_config_byte io (ucast first_bus) (ucast first_devfn AND NOT 7) 0x0e h;
            dev = dev\<lparr>p_driver := None, p_bus := 0, p_devfn := 0\<rparr>
        in scan_buses io type (map of_nat [unat first_bus..<256]) (unat first_devfn) first_driver hdr_type dev h
      else scan_buses io type (map of_nat [0..<256]) 0 None 0 dev h)"

section \<open>Device set-up and resources\<close>

definition adjust_pci_device :: "'h io \<Rightarrow> pci_device \<Rightarrow> 'h \<Rightarrow> 'h" where
  "adjust_pci_device io p h =
     (let bus = ucast (p_bus p); devfn = ucast (p_devfn p);
          (pci_command, h) = pcibios_read_config_word io bus devfn 0x04 h;
          new_command = pci_command OR 0x4 OR 0x1;
          h = (if pci_command \<noteq> new_command then pcibios_write_config_word io bus devfn 0x04 new_command h else h);
          (pci_latency, h) = pcibios_read_config_byte io bus devfn 0x0d h
      in if pci_latency < 32 then pcibios_write_config_byte io bus devfn 0x0d 32 h else h)"

definition pci_bar_start :: "'h io \<Rightarrow> pci_device \<Rightarrow> u32 \<Rightarrow> 'h \<Rightarrow> u32 \<times> 'h" where
  "pci_bar_start io dev index h =
     (let (lo, h) = pci_read_config_dword io dev index h in
      if lo AND 1 \<noteq> 0 then ((lo AND NOT 3) + pcibios_bus_base (ucast (p_bus dev)), h)
      else if lo AND 6 = 4 then
        let (hi, h) = pci_read_config_dword io dev (index + 4) h in
        if hi \<noteq> 0 then (- 1, h)
        else ((0 OR (lo AND NOT 15)) + pcibios_bus_base (ucast (p_bus dev)), h)
      else ((0 OR (lo AND NOT 15)) + pcibios_bus_base (ucast (p_bus dev)), h))"

definition pci_bar_size :: "'h io \<Rightarrow> pci_device \<Rightarrow> u32 \<Rightarrow> 'h \<Rightarrow> u32 \<times> 'h" where
  "pci_bar_size io dev bar h =
     (let (start, h) = pci_read_config_dword io dev bar h;
          h = pci_write_config_dword io dev bar (NOT 0) h;
          (sz, h) = pci_read_config_dword io dev bar h;
          h = pci_write_config_dword io dev bar start h;
          sz = (if start AND 1 \<noteq> 0 then sz AND NOT 3 else sz AND NOT 15)
      in (sz AND NOT (sz - 1), h))"

text \<open>The walk along the capability list; the first argument is \<open>ttl\<close>.\<close>

fun capability_walk :: "nat \<Rightarrow> 'h io \<Rightarrow> pci_device \<Rightarrow> int \<Rightarrow> byte \<Rightarrow> 'h \<Rightarrow> int \<times> 'h" where
  "capability_walk 0 io dev cap pos h = (0, h)"
| "capability_walk (Suc ttl) io dev cap pos h =
     (if pos < 0x40 then (0, h)
      else
        let pos = pos AND NOT 3;
            (id, h) = pci_read_config_byte io dev (ucast pos + 0) h
        in if id = 0xff then (0, h)
           else if uint id = cap then (uint pos, h)
           else let (pos, h) = pci_read_config_byte io dev (ucast pos + 1) h
                in capability_walk ttl io dev cap pos h)"

definition pci_find_capability :: "'h io \<Rightarrow> pci_device \<Rightarrow> int \<Rightarrow> 'h \<Rightarrow> int \<times> 'h" where
  "pci_find_capability io dev cap h =
     (let (status, h) = pci_read_config_word io dev 0x06 h in
      if status AND 0x10 = 0 then (0, h)
      else
        let (hdr_type, h) = pci_read_config_byte io dev 0x0e h;
            (pos, h) = (if hdr_type AND 0x7F = 2 then pci_read_config_byte io dev 0x14 h
                        else pci_read_config_byte io dev 0x34 h)
        in capability_walk 48 io dev cap pos h)"

section \<open>The diagnostic scan\<close>

text \<open>\<open>pci_scan\<close> of \<^verbatim>\<open>src/main/main.c\<close> prints what it finds; the result is the printed list.\<close>

fun scan_functions :: "'h io \<Rightarrow> (u32 \<times> u32 \<times> u32) list \<Rightarrow> 'h \<Rightarrow> (u32 \<times> u32 \<times> u32 \<times> u32) list \<times> 'h" where
  "scan_functions io [] h = ([], h)"
| "scan_functions io ((bus, slot, fn) # rest) h =
     (let devfn = push_bit 3 slot OR fn;
          (id, h) = conf1_read_32 io bus devfn 0x00 h
      in if id = 0xffffffff \<or> id = 0 then scan_functions io rest h
         else let (found, h) = scan_functions io rest h in ((bus, slot, fn, id) # found, h))"

definition pci_scan :: "'h io \<Rightarrow> 'h \<Rightarrow> (u32 \<times> u32 \<times> u32 \<times> u32) list \<times> 'h" where
  "pci_scan io h =
     scan_functions io (concat (map (\<lambda>bus. concat (map (\<lambda>slot. map (\<lambda>fn. (of_nat bus, of_nat slot, of_nat fn)) [0..<8])
       [0..<0x20])) [0..<8])) h"

section \<open>What the scan finds\<close>

text \<open>
  Configuration mechanism 1 as the PCI specification has it: after the address is written to port
  0xCF8, reads of the data ports give the addressed register or its parts, and reading changes no
  register.  \<open>cfg\<close> gives the register for each address word, \<open>ok\<close> holds of the hardware states in
  question.
\<close>

definition config_reads :: "'h io \<Rightarrow> ('h \<Rightarrow> bool) \<Rightarrow> (u32 \<Rightarrow> u32) \<Rightarrow> bool" where
  "config_reads io ok cfg \<longleftrightarrow> (\<forall>h b d r. ok h \<longrightarrow>
     (let c = CONFIG_CMD b d r; h1 = outl io c 0xCF8 h in
      fst (inl io 0xCFC h1) = cfg c \<and> ok (snd (inl io 0xCFC h1))
      \<and> fst (inb io (0xCFC + ucast (r AND 3)) h1) = ucast (drop_bit (8 * unat (r AND 3)) (cfg c))
      \<and> ok (snd (inb io (0xCFC + ucast (r AND 3)) h1))
      \<and> fst (inw io (0xCFC + ucast (r AND 2)) h1) = ucast (drop_bit (8 * unat (r AND 2)) (cfg c))
      \<and> ok (snd (inw io (0xCFC + ucast (r AND 2)) h1))))"

definition config_byte :: "(u32 \<Rightarrow> u32) \<Rightarrow> u32 \<Rightarrow> u32 \<Rightarrow> u32 \<Rightarrow> byte" where
  "config_byte cfg b d r = ucast (drop_bit (8 * unat (r AND 3)) (cfg (CONFIG_CMD b d r)))"

text \<open>Function \<open>k\<close> of bus \<open>b\<close> can be there: it is function 0 of its slot or the slot has several functions.\<close>

definition addressed :: "(u32 \<Rightarrow> u32) \<Rightarrow> u32 \<Rightarrow> nat \<Rightarrow> bool" where
  "addressed cfg b k \<longleftrightarrow> k mod 8 = 0 \<or> config_byte cfg b (of_nat (k - k mod 8)) 0x0e AND 0x80 \<noteq> 0"

definition vendor_of :: "(u32 \<Rightarrow> u32) \<Rightarrow> u32 \<Rightarrow> nat \<Rightarrow> u16" where
  "vendor_of cfg b k = ucast (cfg (CONFIG_CMD b (of_nat k) 0) AND 0xffff)"
definition device_of :: "(u32 \<Rightarrow> u32) \<Rightarrow> u32 \<Rightarrow> nat \<Rightarrow> u16" where
  "device_of cfg b k = ucast (drop_bit 16 (cfg (CONFIG_CMD b (of_nat k) 0)) AND 0xffff)"
definition class_of :: "(u32 \<Rightarrow> u32) \<Rightarrow> u32 \<Rightarrow> nat \<Rightarrow> u32" where
  "class_of cfg b k = drop_bit 8 (cfg (CONFIG_CMD b (of_nat k) 8)) AND 0xffffff"

text \<open>An IDE controller, by its identity or by its class code.\<close>

definition ide_function :: "(u32 \<Rightarrow> u32) \<Rightarrow> u32 \<Rightarrow> nat \<Rightarrow> bool" where
  "ide_function cfg b k \<longleftrightarrow> addressed cfg b k \<and> cfg (CONFIG_CMD b (of_nat k) 0) \<notin> {0, 0xffffffff}
     \<and> (vendor_of cfg b k = 0x8086 \<and> device_of cfg b k = 0x248b \<or> drop_bit 8 (class_of cfg b k) = 0x0101)"

lemma config_dword:
  assumes "config_reads io ok cfg" "ok h"
  shows "\<exists>h'. pcibios_read_config_dword io b d r h = (cfg (CONFIG_CMD b d r), h') \<and> ok h'"
  using assms unfolding config_reads_def Let_def pcibios_read_config_dword_def by (metis prod.collapse)

lemma config_byte_read:
  assumes "config_reads io ok cfg" "ok h"
  shows "\<exists>h'. pcibios_read_config_byte io b d r h = (config_byte cfg b d r, h') \<and> ok h'"
  using assms unfolding config_reads_def Let_def pcibios_read_config_byte_def config_byte_def by (metis prod.collapse)

lemma scan_drivers_disk:
  "p_driver (scan_drivers DISK_DRIVER cls vendor device None dev) =
     (if vendor = 0x8086 \<and> device = 0x248b \<or> drop_bit 8 cls = 0x0101 then Some ide_driver else p_driver dev)"
  "p_driver dev = None \<Longrightarrow> p_driver (scan_drivers DISK_DRIVER cls vendor device None dev) = None \<Longrightarrow>
     scan_drivers DISK_DRIVER cls vendor device None dev = dev"
  by (auto simp: scan_drivers_def pci_drivers_p_def probe_codes ide_controllers_def)

lemma PCI_FUNC_of_nat: "PCI_FUNC (of_nat k) = 0 \<longleftrightarrow> k mod 8 = 0" if "k < 256"
proof -
  have "unat (of_nat k AND (mask 3 :: u32)) = unat (of_nat k :: u32) mod 2 ^ 3" by (rule unat_and_mask)
  then have "unat (PCI_FUNC (of_nat k)) = k mod 8"
    using that by (simp add: PCI_FUNC_def mask_eq_exp_minus_1 unat_of_nat)
  then show ?thesis by (metis unat_0 unat_eq_zero)
qed

lemma scan_bars_keeps:
  assumes "config_reads io ok cfg" "ok h"
  shows "\<exists>a h'. scan_bars io b d regs dev h = (dev\<lparr>p_ioaddr := a\<rparr>, h') \<and> ok h'"
  using assms(2)
proof (induction regs arbitrary: dev h)
  case Nil
  then show ?case by (auto intro: exI [of _ "p_ioaddr dev"])
next
  case (Cons r regs)
  obtain h1 where "pcibios_read_config_dword io b d r h = (cfg (CONFIG_CMD b d r), h1)" "ok h1"
    using config_dword [OF assms(1) Cons.prems] by blast
  then show ?case using Cons.IH [of h1 dev] Cons.IH [of h1 "dev\<lparr>p_ioaddr := _\<rparr>"] by (simp add: Let_def)
qed

lemma record_device_keeps:
  assumes "config_reads io ok cfg" "ok h"
  shows "\<exists>dev' h'. record_device io b d cls vendor device dev h = (dev', h') \<and> ok h' \<and> p_driver dev' = p_driver dev
    \<and> p_bus dev' = ucast b \<and> p_devfn dev' = ucast d \<and> p_class dev' = cls \<and> p_vendor dev' = vendor \<and> p_dev_id dev' = device"
proof -
  let ?d1 = "dev\<lparr>p_devfn := ucast d, p_bus := ucast b, p_class := cls, p_vendor := vendor, p_dev_id := device\<rparr>"
  obtain h1 where 1: "pcibios_read_config_dword io b d 0x30 h = (cfg (CONFIG_CMD b d 0x30), h1)" "ok h1"
    using config_dword [OF assms] by blast
  obtain h2 where 2: "pcibios_read_config_dword io b d 0x14 h1 = (cfg (CONFIG_CMD b d 0x14), h2)" "ok h2"
    using config_dword [OF assms(1) 1(2)] by blast
  let ?d2 = "?d1\<lparr>p_romaddr := drop_bit 10 (cfg (CONFIG_CMD b d 0x30)), p_membase := cfg (CONFIG_CMD b d 0x14)\<rparr>"
  obtain a h3 where 3: "scan_bars io b d [0x10, 0x14, 0x18, 0x1c, 0x20, 0x24] ?d2 h2 = (?d2\<lparr>p_ioaddr := a\<rparr>, h3)" "ok h3"
    using scan_bars_keeps [OF assms(1) 2(2)] by blast
  let ?d3 = "?d2\<lparr>p_ioaddr := a\<rparr>"
  obtain i h4 where 4: "pci_read_config_byte io ?d3 0x3d h3 = (i, h4)" "ok h4"
    using config_byte_read [OF assms(1) 3(2)] unfolding pci_read_config_byte_def by blast
  obtain j h5 where 5: "pci_read_config_byte io ?d3 0x3c h4 = (j, h5)" "ok h5"
    using config_byte_read [OF assms(1) 4(2)] unfolding pci_read_config_byte_def by blast
  show ?thesis
  proof (cases "i = 0")
    case True
    then show ?thesis using 1 2 3 4 by (simp add: record_device_def Let_def)
  next
    case False
    then show ?thesis using 1 2 3 4 5 by (simp add: record_device_def Let_def)
  qed
qed

definition found_ide :: "(u32 \<Rightarrow> u32) \<Rightarrow> u32 \<Rightarrow> nat \<Rightarrow> pci_device \<Rightarrow> bool" where
  "found_ide cfg b k dev \<longleftrightarrow> p_driver dev = Some ide_driver \<and> p_bus dev = ucast b \<and> p_devfn dev = of_nat k
     \<and> p_vendor dev = vendor_of cfg b k \<and> p_dev_id dev = device_of cfg b k \<and> p_class dev = class_of cfg b k"

text \<open>One function number: the scan returns there, or goes on with the device record unchanged.\<close>

lemma scan_devfns_step:
  assumes "config_reads io ok cfg" "ok h" "p_driver dev = None" "k < 256"
    "k mod 8 \<noteq> 0 \<longrightarrow> hdr = config_byte cfg b (of_nat (k - k mod 8)) 0x0e"
  shows "if ide_function cfg b k
    then \<exists>hdr' dev' h'. scan_devfns io DISK_DRIVER b (of_nat k # ks) None hdr dev h = (True, None, hdr', dev', h')
      \<and> ok h' \<and> found_ide cfg b k dev'
    else \<exists>h'. scan_devfns io DISK_DRIVER b (of_nat k # ks) None hdr dev h =
      scan_devfns io DISK_DRIVER b ks None (config_byte cfg b (of_nat (k - k mod 8)) 0x0e) dev h' \<and> ok h'"
proof -
  define hd where "hd = config_byte cfg b (of_nat (k - k mod 8)) 0x0e"
  obtain h1 where 1: "(if PCI_FUNC (of_nat k) = 0 then pcibios_read_config_byte io b (of_nat k) 0x0e h else (hdr, h)) = (hd, h1)"
      "ok h1"
    using config_byte_read [OF assms(1), of h b "of_nat k" "0x0e"] assms(2,5) PCI_FUNC_of_nat [OF assms(4)]
    by (auto simp: hd_def)
  define l where "l = cfg (CONFIG_CMD b (of_nat k) 0)"
  obtain h2 where 2: "pcibios_read_config_dword io b (of_nat k) 0x00 h1 = (l, h2)" "ok h2"
    using config_dword [OF assms(1), of h1 b "of_nat k" 0] 1(2) by (auto simp: l_def)
  obtain h3 where 3: "pcibios_read_config_dword io b (of_nat k) 0x08 h2 = (cfg (CONFIG_CMD b (of_nat k) 8), h3)" "ok h3"
    using config_dword [OF assms(1), of h2 b "of_nat k" 8] 2(2) by auto
  define dv where "dv = scan_drivers DISK_DRIVER (class_of cfg b k) (vendor_of cfg b k) (device_of cfg b k) None dev"
  have dv: "p_driver dv = (if vendor_of cfg b k = 0x8086 \<and> device_of cfg b k = 0x248b \<or> drop_bit 8 (class_of cfg b k) = 0x0101
      then Some ide_driver else None)" "p_driver dv = None \<Longrightarrow> dv = dev"
    using assms(3) scan_drivers_disk by (simp_all add: dv_def)
  have ad: "addressed cfg b k \<longleftrightarrow> PCI_FUNC (of_nat k) = 0 \<or> hd AND 0x80 \<noteq> 0"
    by (simp add: addressed_def hd_def PCI_FUNC_of_nat [OF assms(4)])
  obtain dev' h4 where 4: "record_device io b (of_nat k) (class_of cfg b k) (vendor_of cfg b k) (device_of cfg b k) dv h3 = (dev', h4)"
      "ok h4" "p_driver dev' = p_driver dv" "p_bus dev' = ucast b" "p_devfn dev' = ucast (of_nat k :: u32)"
      "p_class dev' = class_of cfg b k" "p_vendor dev' = vendor_of cfg b k" "p_dev_id dev' = device_of cfg b k"
    using record_device_keeps [OF assms(1) 3(2)] by blast
  have u: "p_devfn dev' = of_nat k" using 4(5) assms(4) by (simp add: word_unat_eq_iff unat_ucast_byte unat_of_nat)
  have two: "p_driver dv = None \<or> p_driver dv = Some ide_driver" unfolding dv(1) by simp
  note unf = scan_devfns.simps(2) Let_def 1(1) split_conv
  consider "\<not> addressed cfg b k" | "addressed cfg b k" "l = 0xffffffff \<or> l = 0"
    | "addressed cfg b k" "\<not> (l = 0xffffffff \<or> l = 0)" "p_driver dv = None"
    | "addressed cfg b k" "\<not> (l = 0xffffffff \<or> l = 0)" "p_driver dv = Some ide_driver"
    using two by (cases "addressed cfg b k"; cases "l = 0xffffffff \<or> l = 0"; auto)
  then show ?thesis
  proof cases
    case 1
    then show ?thesis unfolding unf using ad \<open>ok h1\<close> by (auto simp: ide_function_def hd_def)
  next
    case c: 2
    then show ?thesis unfolding unf 2(1) using ad 2(2) by (auto simp: ide_function_def hd_def l_def)
  next
    case c: 3
    then show ?thesis unfolding unf 2(1) using ad 3 dv
      by (auto simp: ide_function_def hd_def l_def simp flip: vendor_of_def device_of_def class_of_def dv_def split: if_splits)
  next
    case c: 4
    have "ucast (l AND 0xffff) = vendor_of cfg b k" "ucast (drop_bit 16 l AND 0xffff) = device_of cfg b k"
      "drop_bit 8 (cfg (CONFIG_CMD b (of_nat k) 8)) AND 0xffffff = class_of cfg b k"
      by (simp_all add: vendor_of_def device_of_def class_of_def l_def)
    then have "scan_devfns io DISK_DRIVER b (of_nat k # ks) None hdr dev h = (True, None, hd, dev', h4)"
      unfolding unf 2(1) using ad c 3(1) 4(1) by (auto simp flip: dv_def)
    moreover have "ide_function cfg b k" using c dv(1) by (auto simp: ide_function_def l_def split: if_splits)
    ultimately show ?thesis using 4 u c by (simp add: found_ide_def)
  qed
qed

lemma scan_devfns_find:
  assumes "config_reads io ok cfg" "ok h" "p_driver dev = None" "n \<le> 256"
    "k mod 8 \<noteq> 0 \<longrightarrow> hdr = config_byte cfg b (of_nat (k - k mod 8)) 0x0e"
  shows "case find (ide_function cfg b) [k..<n] of
      Some j \<Rightarrow> \<exists>hdr' dev' h'. scan_devfns io DISK_DRIVER b (map of_nat [k..<n]) None hdr dev h = (True, None, hdr', dev', h')
        \<and> ok h' \<and> found_ide cfg b j dev'
    | None \<Rightarrow> \<exists>hdr' h'. scan_devfns io DISK_DRIVER b (map of_nat [k..<n]) None hdr dev h = (False, None, hdr', dev, h') \<and> ok h'"
  using assms(2-)
proof (induction "n - k" arbitrary: k hdr h)
  case 0
  then show ?case by simp
next
  case (Suc m)
  then have k: "[k..<n] = k # [Suc k..<n]" "k < 256" by (auto simp: upt_conv_Cons)
  show ?case
  proof (cases "ide_function cfg b k")
    case True
    then show ?thesis using scan_devfns_step [OF assms(1) Suc.prems(1,2) k(2) Suc.prems(4), of "map of_nat [Suc k..<n]"] k(1)
      by simp
  next
    case False
    have "Suc k mod 8 \<noteq> 0 \<longrightarrow> Suc k - Suc k mod 8 = k - k mod 8" by (simp add: mod_Suc)
    then show ?thesis
      using scan_devfns_step [OF assms(1) Suc.prems(1,2) k(2) Suc.prems(4), of "map of_nat [Suc k..<n]"] k(1) False
        Suc.hyps(1) [of "Suc k" _ "config_byte cfg b (of_nat (k - k mod 8)) 0x0e"] Suc.hyps(2) Suc.prems(2,3)
      by (auto split: option.splits)
  qed
qed

text \<open>Where the scan looks, in order.\<close>

definition scan_order :: "(nat \<times> nat) list" where
  "scan_order = List.product [0..<256] [0..<255]"

lemma scan_buses_find:
  assumes "config_reads io ok cfg" "ok h" "p_driver dev = None"
  shows "case find (\<lambda>(b, k). ide_function cfg (of_nat b) k) (List.product bs [0..<255]) of
      Some (b, k) \<Rightarrow> \<exists>dev' h'. scan_buses io DISK_DRIVER (map of_nat bs) 0 None hdr dev h = (dev', h')
        \<and> ok h' \<and> found_ide cfg (of_nat b) k dev'
    | None \<Rightarrow> \<exists>h'. scan_buses io DISK_DRIVER (map of_nat bs) 0 None hdr dev h = (dev, h') \<and> ok h'"
  using assms(2)
proof (induction bs arbitrary: hdr h)
  case Nil
  then show ?case by simp
next
  case (Cons b bs)
  have f: "find (\<lambda>(b, k). ide_function cfg (of_nat b) k) (map (Pair b) ks @ xs) =
      (case find (ide_function cfg (of_nat b)) ks of Some k \<Rightarrow> Some (b, k)
       | None \<Rightarrow> find (\<lambda>(b, k). ide_function cfg (of_nat b) k) xs)" for ks xs
    by (induction ks) auto
  show ?case
    using scan_devfns_find [OF assms(1) Cons.prems assms(3), of 255 0 hdr "of_nat b"] Cons.IH
    by (auto simp: f split: option.splits)
qed

section \<open>Properties\<close>

text \<open>
  C20: The bus scan for disks, from a fresh device record, finds the first IDE controller in the order
  of bus and function number: it returns with its identity, class and location, or with the record
  unchanged when there is none.  It never looks at function 255.\<close>

theorem scan_pci_bus_first_ide:
  assumes "config_reads io ok cfg" "ok h" "p_driver dev = None" "p_use_specified dev = 0"
  shows "case find (\<lambda>(b, k). ide_function cfg (of_nat b) k) scan_order of
      Some (b, k) \<Rightarrow> \<exists>dev' h'. scan_pci_bus io DISK_DRIVER dev h = (dev', h') \<and> ok h' \<and> found_ide cfg (of_nat b) k dev'
    | None \<Rightarrow> \<exists>h'. scan_pci_bus io DISK_DRIVER dev h = (dev, h') \<and> ok h'"
  using scan_buses_find [OF assms(1-3), of "[0..<256]" 0] assms(3,4)
  unfolding scan_order_def scan_pci_bus_def by simp

text \<open>Hardware with one IDE controller, function 1 of slot 0 of bus 0, that keeps the address word.\<close>

definition sample_config :: "u32 \<Rightarrow> u32" where
  "sample_config c = (if c = 0x8000000C then 0x00800000 else if c = 0x80000000 then 0
     else if c = 0x80000100 then 0x24CB8086 else if c = 0x80000108 then 0x01018A02 else 0xffffffff)"

definition config_io :: "(u32 \<Rightarrow> u32) \<Rightarrow> u32 io" where
  "config_io cfg = \<lparr>inb = \<lambda>p h. (ucast (drop_bit (8 * unat (p AND 3)) (cfg h)), h),
     inw = \<lambda>p h. (ucast (drop_bit (8 * unat (p AND 3)) (cfg h)), h), inl = \<lambda>p h. (cfg h, h),
     outb = \<lambda>v p h. h, outw = \<lambda>v p h. h, outl = \<lambda>v p h. v, currticks = \<lambda>h. (0, h), mdelay = \<lambda>n h. h,
     udelay = \<lambda>n h. h, poll_interruptions = \<lambda>h. h\<rparr>"

lemma data_port: "unat ((0xCFC + ucast (y :: u32) :: u16) AND 3) = unat y" if "unat y < 4"
proof -
  have "unat ((0xCFC + ucast y :: u16) AND mask 2) = unat (0xCFC + ucast y :: u16) mod 2 ^ 2" by (rule unat_and_mask)
  moreover have "unat (0xCFC + ucast y :: u16) = 3324 + unat y"
    using that by (simp add: unat_word_ariths unsigned_ucast_eq take_bit_nat_eq_self)
  ultimately have "unat ((0xCFC + ucast y :: u16) AND 3) = (3324 + unat y) mod 4" by (simp add: mask_eq_exp_minus_1)
  then show ?thesis using that by presburger
qed

lemma unat_and_low: "unat (r AND 3 :: u32) < 4" "unat (r AND 2 :: u32) < 4"
proof -
  have "unat (r AND mask 2) = unat r mod 2 ^ 2" by (rule unat_and_mask)
  then show "unat (r AND 3) < 4" by (simp add: mask_eq_exp_minus_1)
  have "r AND 2 \<le> 2" by (rule word_and_le1)
  then show "unat (r AND 2) < 4" by (simp add: word_le_nat_alt)
qed

lemma config_io_reads: "config_reads (config_io cfg) (\<lambda>h. True) cfg"
  by (simp add: config_reads_def config_io_def data_port unat_and_low)

theorem scan_pci_bus_first_ide_witness:
  "\<exists>dev' h'. scan_pci_bus (config_io sample_config) DISK_DRIVER memset_pci_device 0 = (dev', h')
     \<and> p_driver dev' = Some ide_driver \<and> p_bus dev' = 0 \<and> p_devfn dev' = 1 \<and> p_class dev' = 0x01018A"
proof -
  have 1: "[0..<256] = 0 # [Suc 0..<256]" "[0..<255] = 0 # [Suc 0..<255]" "[Suc 0..<255] = Suc 0 # [Suc (Suc 0)..<255]"
    by (rule upt_conv_Cons, simp)+
  have o: "\<exists>rest. scan_order = (0, 0) # (0, Suc 0) # rest"
    unfolding scan_order_def 1 by (simp only: product.simps list.map append.simps) blast
  have n: "\<not> ide_function sample_config 0 0"
    by (simp add: ide_function_def CONFIG_CMD_def sample_config_def)
  have i: "ide_function sample_config 0 1"
    by (simp add: ide_function_def addressed_def config_byte_def class_of_def CONFIG_CMD_def sample_config_def)
  have "find (\<lambda>(b, k). ide_function sample_config (of_nat b) k) scan_order = Some (0, 1)"
  proof -
    obtain rest where rest: "scan_order = (0, 0) # (0, Suc 0) # rest" using o by blast
    show ?thesis unfolding rest using n i by simp
  qed
  then show ?thesis
    using scan_pci_bus_first_ide [OF config_io_reads [of sample_config], of memset_pci_device 0]
    by (auto simp: memset_pci_device_def found_ide_def class_of_def CONFIG_CMD_def sample_config_def)
qed

lemma lowest_set_bit:
  assumes "\<not> bit x 0" "\<not> bit x 1"
  shows "(x :: u32) AND NOT (x - 1) = 0 \<or> (\<exists>n. 2 \<le> n \<and> n < 32 \<and> x AND NOT (x - 1) = 2 ^ n)"
proof (cases "x = 0")
  case False
  define n where "n = (LEAST n. bit x n)"
  have b: "bit x n" unfolding n_def using False by (metis LeastI bit_eqI bit_0_eq bot_apply bot_bool_def)
  have l: "\<not> bit x k" if "k < n" for k using that not_less_Least unfolding n_def by blast
  have n32: "n < 32" using b bit_imp_le_length by fastforce
  define y where "y = x AND NOT (mask (Suc n))"
  have "x = y OR 2 ^ n"
    using b l n32 by (intro bit_word_eqI) (auto simp: y_def bit_simps less_Suc_eq)
  also have "\<dots> = y + 2 ^ n" by (rule disjunctive_add_eq_or [symmetric], rule bit_word_eqI) (auto simp: y_def bit_simps)
  finally have "x - 1 = y + mask n" by (simp add: mask_eq_exp_minus_1)
  also have "\<dots> = y OR mask n" by (rule disjunctive_add_eq_or, rule bit_word_eqI) (auto simp: y_def bit_simps)
  finally have "x AND NOT (x - 1) = 2 ^ n"
    using b l n32 by (simp only:, intro bit_word_eqI) (auto simp: y_def bit_simps less_Suc_eq)
  moreover have "2 \<le> n" using b assms by (metis One_nat_def less_2_cases not_le)
  ultimately show ?thesis using n32 by blast
qed simp

text \<open>
  Whatever the hardware answers, the size \<open>pci_bar_size\<close> reports for a base address register is 0
  or a power of two of at least 4.\<close>

theorem pci_bar_size_power_of_two:
  "\<exists>sz h'. pci_bar_size io dev bar h = (sz, h') \<and> (sz = 0 \<or> (\<exists>n. 2 \<le> n \<and> n < 32 \<and> sz = 2 ^ n))"
proof -
  obtain x h' where x: "pci_bar_size io dev bar h = (x AND NOT (x - 1), h')" "\<not> bit x 0" "\<not> bit x 1"
    by (auto simp: pci_bar_size_def Let_def case_prod_beta bit_simps)
  then show ?thesis using lowest_set_bit [of x] by auto
qed

text \<open>
  The capability list as configuration space has it: the \<open>k\<close>th position from a start, and the entry
  that a search of at most \<open>n\<close> entries is after, which is the first with the identifier, with no end
  of the list (a position in the standard header or the identifier \<open>0xFF\<close>) before it.\<close>

primrec cap_pos :: "(u32 \<Rightarrow> u32) \<Rightarrow> u32 \<Rightarrow> u32 \<Rightarrow> byte \<Rightarrow> nat \<Rightarrow> byte" where
  "cap_pos cfg b d start 0 = start AND NOT 3"
| "cap_pos cfg b d start (Suc k) = config_byte cfg b d (ucast (cap_pos cfg b d start k) + 1) AND NOT 3"

abbreviation cap_id :: "(u32 \<Rightarrow> u32) \<Rightarrow> u32 \<Rightarrow> u32 \<Rightarrow> byte \<Rightarrow> nat \<Rightarrow> byte" where
  "cap_id cfg b d start k \<equiv> config_byte cfg b d (ucast (cap_pos cfg b d start k))"

definition cap_listed :: "nat \<Rightarrow> (u32 \<Rightarrow> u32) \<Rightarrow> u32 \<Rightarrow> u32 \<Rightarrow> int \<Rightarrow> byte \<Rightarrow> nat \<Rightarrow> bool" where
  "cap_listed n cfg b d cap start k \<longleftrightarrow> k < n \<and> uint (cap_id cfg b d start k) = cap
     \<and> (\<forall>j\<le>k. 0x40 \<le> cap_pos cfg b d start j \<and> cap_id cfg b d start j \<noteq> 0xff)
     \<and> (\<forall>j<k. uint (cap_id cfg b d start j) \<noteq> cap)"

lemma cap_listed_unique: "cap_listed n cfg b d cap start k \<Longrightarrow> cap_listed n cfg b d cap start k' \<Longrightarrow> k = k'"
  by (metis cap_listed_def linorder_neqE_nat)

lemma cap_pos_next: "cap_pos cfg b d start (Suc k) = cap_pos cfg b d (config_byte cfg b d (ucast (start AND NOT 3) + 1)) k"
  by (induction k) simp_all

lemma all_le_Suc: "(\<forall>j\<le>Suc k. P j) \<longleftrightarrow> P 0 \<and> (\<forall>j\<le>k. P (Suc j))" "(\<forall>j<Suc k. P j) \<longleftrightarrow> P 0 \<and> (\<forall>j<k. P (Suc j))"
  by (metis Suc_le_mono le0 not0_implies_Suc) (metis Suc_less_eq zero_less_Suc not0_implies_Suc)

lemma cap_listed_step:
  "cap_listed (Suc n) cfg b d cap start k \<longleftrightarrow> 0x40 \<le> start AND NOT 3 \<and> cap_id cfg b d start 0 \<noteq> 0xff \<and>
     (if uint (cap_id cfg b d start 0) = cap then k = 0
      else \<exists>k'. k = Suc k' \<and> cap_listed n cfg b d cap (config_byte cfg b d (ucast (start AND NOT 3) + 1)) k')"
proof (cases k)
  case (Suc k')
  show ?thesis unfolding Suc cap_listed_def all_le_Suc cap_pos_next by auto
qed (auto simp: cap_listed_def)

lemma aligned_above: "0x40 \<le> (start AND NOT 3 :: byte) \<longleftrightarrow> \<not> start < 0x40"
proof -
  have "start AND NOT (mask 2) = push_bit 2 (drop_bit 2 start)"
    by (rule bit_word_eqI) (auto simp: bit_simps simp flip: Suc_diff_le)
  moreover have "unat (push_bit 2 (drop_bit 2 start)) = unat start div 4 * 4"
    using unat_u8_less [of start] by (simp add: push_bit_eq_mult unat_word_ariths unat_drop_bit)
  ultimately have "unat (start AND NOT 3) = unat start div 4 * 4" by (simp add: mask_eq_exp_minus_1)
  then show ?thesis by (simp add: word_le_nat_alt word_less_nat_alt) presburger
qed

lemma capability_walk_finds:
  assumes "config_reads io ok cfg" "ok h" "b = ucast (p_bus dev)" "d = ucast (p_devfn dev)"
  shows "\<exists>r h'. capability_walk n io dev cap start h = (r, h') \<and> ok h' \<and>
    (r = 0 \<and> (\<nexists>k. cap_listed n cfg b d cap start k) \<or>
     (\<exists>k. cap_listed n cfg b d cap start k \<and> r = uint (cap_pos cfg b d start k)))"
  using assms(2)
proof (induction n arbitrary: start h)
  case 0
  then show ?case by (simp add: cap_listed_def)
next
  case (Suc n)
  define p where "p = start AND NOT 3"
  have pa: "start AND - 4 = p" by (simp add: p_def)
  obtain id h1 where 1: "pci_read_config_byte io dev (ucast p) h = (id, h1)" "ok h1" "id = config_byte cfg b d (ucast p)"
    using config_byte_read [OF assms(1), of h] Suc.prems unfolding pci_read_config_byte_def assms(3,4) by blast
  obtain nx h2 where 2: "pci_read_config_byte io dev (ucast p + 1) h1 = (nx, h2)" "ok h2" "nx = config_byte cfg b d (ucast p + 1)"
    using config_byte_read [OF assms(1), of h1] 1(2) unfolding pci_read_config_byte_def assms(3,4) by blast
  have listed: "cap_listed (Suc n) cfg b d cap start k \<longleftrightarrow> \<not> start < 0x40 \<and> id \<noteq> 0xff \<and>
      (if uint id = cap then k = 0 else \<exists>k'. k = Suc k' \<and> cap_listed n cfg b d cap nx k')" for k
    unfolding cap_listed_step aligned_above 1(3) 2(3) p_def cap_pos.simps(1) ..
  have walk: "capability_walk (Suc n) io dev cap start h =
      (if start < 0x40 then (0, h) else if id = 0xff then (0, h1) else if uint id = cap then (uint p, h1)
       else capability_walk n io dev cap nx h2)"
    using 1(1) 2(1) pa by (simp add: Let_def)
  have pos: "cap_pos cfg b d start 0 = p" "cap_pos cfg b d start (Suc k) = cap_pos cfg b d nx k" for k
    unfolding cap_pos_next 2(3) by (simp_all add: p_def)
  show ?case
  proof (cases "start < 0x40 \<or> id = 0xff \<or> uint id = cap")
    case True
    then show ?thesis unfolding walk listed using Suc.prems 1(2) pos(1) by auto
  next
    case False
    then have w: "capability_walk (Suc n) io dev cap start h = capability_walk n io dev cap nx h2"
      "cap_listed (Suc n) cfg b d cap start k \<longleftrightarrow> (\<exists>k'. k = Suc k' \<and> cap_listed n cfg b d cap nx k')" for k
      unfolding walk listed by auto
    show ?thesis unfolding w using Suc.IH [OF 2(2), of nx] pos(2) by metis
  qed
qed

text \<open>
  C34: On every device the search for a capability ends, also when the list is cyclic.  It finds nothing
  when the status register announces no list; otherwise it follows the list from the pointer that the
  header type selects, answers with the position of the first of 48 entries that has the identifier,
  and with 0 exactly when there is none before the list ends.\<close>

theorem pci_find_capability_correct:
  assumes "config_reads io ok cfg" "ok h"
    and "b = ucast (p_bus dev)" "d = ucast (p_devfn dev)"
    and "start = config_byte cfg b d (if config_byte cfg b d 0x0e AND 0x7F = 2 then 0x14 else 0x34)"
    and "listed = (\<lambda>k. config_byte cfg b d 0x06 AND 0x10 \<noteq> 0 \<and> cap_listed 48 cfg b d cap start k)"
  shows "\<exists>r h'. pci_find_capability io dev cap h = (r, h') \<and> ok h' \<and>
    (r = 0 \<and> (\<nexists>k. listed k) \<or> (\<exists>k. listed k \<and> r = uint (cap_pos cfg b d start k)))"
proof -
  define c where "c = CONFIG_CMD b d 0x06"
  obtain h1 where 1: "pci_read_config_word io dev 0x06 h = (ucast (drop_bit 16 (cfg c)), h1)" "ok h1"
    using assms(1) [unfolded config_reads_def, rule_format, OF assms(2), of b d "0x06"] that
    by (cases "pci_read_config_word io dev 0x06 h")
      (simp add: pci_read_config_word_def pcibios_read_config_word_def Let_def c_def assms(3,4))
  have st: "(ucast (drop_bit 16 (cfg c)) AND 0x10 = (0 :: u16)) \<longleftrightarrow> config_byte cfg b d 0x06 AND 0x10 = 0"
    using and_exp_eq_0_iff_not_bit [of "ucast (drop_bit 16 (cfg c)) :: u16" 4]
      and_exp_eq_0_iff_not_bit [of "ucast (drop_bit 16 (cfg c)) :: byte" 4]
    by (simp add: config_byte_def c_def bit_simps)
  obtain h2 where 2: "pci_read_config_byte io dev 0x0e h1 = (config_byte cfg b d 0x0e, h2)" "ok h2"
    using config_byte_read [OF assms(1), of h1] 1(2) unfolding pci_read_config_byte_def assms(3,4) by blast
  obtain h3 where 3: "pci_read_config_byte io dev (if config_byte cfg b d 0x0e AND 0x7F = 2 then 0x14 else 0x34) h2 = (start, h3)" "ok h3"
    using config_byte_read [OF assms(1), of h2] 2(2) unfolding pci_read_config_byte_def assms(3,4,5) by blast
  have "pci_find_capability io dev cap h =
      (if config_byte cfg b d 0x06 AND 0x10 = 0 then (0, h1) else capability_walk 48 io dev cap start h3)"
    using 1(1) 2(1) 3(1) st by (simp add: pci_find_capability_def del: capability_walk.simps split: if_splits)
  then show ?thesis
    using capability_walk_finds [OF assms(1) 3(2) assms(3,4), of 48 cap start] 1(2) unfolding assms(6) by auto
qed

text \<open>A device with the capabilities 5, at \<open>0x40\<close>, and \<open>0x10\<close>, at \<open>0x48\<close>, after which the list starts again.\<close>

definition sample_capabilities :: "u32 \<Rightarrow> u32" where
  "sample_capabilities c = (if c AND 0xFF = 0x04 then 0x00100000 else if c AND 0xFF = 0x34 then 0x40
     else if c AND 0xFF = 0x40 then 0x4805 else if c AND 0xFF = 0x48 then 0x4010 else 0)"

theorem pci_find_capability_correct_witness:
  "\<exists>h'. pci_find_capability (config_io sample_capabilities) memset_pci_device 0x10 0 = (0x48, h')"
proof -
  have p: "cap_pos sample_capabilities 0 0 0x40 0 = 0x40" "cap_pos sample_capabilities 0 0 0x40 (Suc 0) = 0x48"
    by (simp_all add: config_byte_def sample_capabilities_def CONFIG_CMD_def)
  have l: "cap_listed 48 sample_capabilities 0 0 0x10 0x40 (Suc 0)"
    unfolding cap_listed_def all_le_Suc by (simp add: p del: cap_pos.simps) (simp add: config_byte_def sample_capabilities_def CONFIG_CMD_def)
  have s: "config_byte sample_capabilities 0 0 0x06 AND 0x10 \<noteq> 0" "0x40 = config_byte sample_capabilities 0 0 0x34"
    "config_byte sample_capabilities 0 0 0x0e = 0"
    by (simp_all add: config_byte_def sample_capabilities_def CONFIG_CMD_def)
  let ?L = "\<lambda>k. config_byte sample_capabilities 0 0 0x06 AND 0x10 \<noteq> 0 \<and> cap_listed 48 sample_capabilities 0 0 0x10 0x40 k"
  have "\<exists>r h'. pci_find_capability (config_io sample_capabilities) memset_pci_device 0x10 0 = (r, h') \<and> True
      \<and> (r = 0 \<and> (\<nexists>k. ?L k) \<or> (\<exists>k. ?L k \<and> r = uint (cap_pos sample_capabilities 0 0 0x40 k)))"
    by (rule pci_find_capability_correct [OF config_io_reads TrueI _ _ _ refl])
      (unfold s(3), simp_all add: memset_pci_device_def flip: s(2))
  then obtain r h' k where r: "pci_find_capability (config_io sample_capabilities) memset_pci_device 0x10 0 = (r, h')"
    "?L k" "r = uint (cap_pos sample_capabilities 0 0 0x40 k)" using s(1) l by blast
  have "k = Suc 0" using cap_listed_unique [OF conjunct2 [OF r(2)] l] .
  then show ?thesis using r(1,3) p(2) by auto
qed

end
