(* ===== verification/Probe.thy ===== *)
theory Probe
  imports Disk Pci Misc
begin

text \<open>
  Finding and identifying the drive: the probing part of \<^verbatim>\<open>src/main/eb/ide_disk.c\<close>, the generic
  device probing (\<^verbatim>\<open>src/main/eb/pci_probe.c\<close>, \<^verbatim>\<open>src/main/eb-probe.c\<close>, \<^verbatim>\<open>src/main/eb-disk.c\<close>) and opening
  and closing the disk (\<^verbatim>\<open>src/main/disk.c\<close>).  Two functions the code calls are arguments:
  \<open>find_pci\<close>, whose definition is not part of the tree, and the probe routine of the network driver.
\<close>

section \<open>One drive\<close>

text \<open>The register test: four values written to four registers have to be read back.\<close>

definition write_pattern :: "'h io \<Rightarrow> controller \<Rightarrow> byte \<Rightarrow> 'h \<Rightarrow> 'h" where
  "write_pattern io ctrl v h =
     fold (\<lambda>i h. outb io (v + of_nat i) (cmd_base ctrl + 2 + of_nat i) h) [0, 1, 2, 3] h"

fun read_pattern :: "'h io \<Rightarrow> controller \<Rightarrow> byte \<Rightarrow> nat list \<Rightarrow> 'h \<Rightarrow> bool \<times> 'h" where
  "read_pattern io ctrl v [] h = (True, h)"
| "read_pattern io ctrl v (i # is) h =
     (let (x, h) = inb io (cmd_base ctrl + 2 + of_nat i) h in
      if x \<noteq> v + of_nat i then (False, h) else read_pattern io ctrl v is h)"

definition registers_exist :: "'h io \<Rightarrow> controller \<Rightarrow> 'h \<Rightarrow> bool \<times> 'h" where
  "registers_exist io ctrl h =
     (let h = write_pattern io ctrl 0xaa h;
          (ok, h) = read_pattern io ctrl 0xaa [0, 1, 2, 3] h
      in if \<not> ok then (False, h)
         else let h = write_pattern io ctrl 0x55 h in read_pattern io ctrl 0x55 [0, 1, 2, 3] h)"

text \<open>Word \<open>i\<close> of the IDENTIFY data; it is only read after a transfer of 256 words into the buffer.\<close>

definition drive_info :: "byte list \<Rightarrow> nat \<Rightarrow> u16" where
  "drive_info buffer i = field16 (2 * i) buffer"

definition model_number :: "byte list \<Rightarrow> byte list" where
  "model_number buffer =
     concat (map (\<lambda>i. [ucast (drop_bit 8 (drive_info buffer i) AND 0xff), ucast (drive_info buffer i AND 0xff)]) [27..<47])
     @ [0]"

text \<open>
  Addressing mode and capacity.  The 28-bit capacity and the product of the geometry are computed
  as \<open>int\<close> and converted to the 64-bit \<open>sector_t\<close>, which extends the sign.
\<close>

definition identify_capacity :: "byte list \<Rightarrow> harddisk_info \<Rightarrow> harddisk_info" where
  "identify_capacity buffer info =
     (let w = drive_info buffer in
      if w 49 AND 0x200 \<noteq> 0 then
        let info = info\<lparr>i_address_mode := ADDRESS_MODE_LBA,
              i_sectors := scast (push_bit 16 (ucast (w 61)) OR ucast (w 60) :: u32)\<rparr>
        in if w 83 AND 0x400 \<noteq> 0 then
             info\<lparr>i_address_mode := ADDRESS_MODE_LBA48,
               i_sectors := push_bit 48 (ucast (w 103)) OR push_bit 32 (ucast (w 102)) OR push_bit 16 (ucast (w 101))
                 OR push_bit 0 (ucast (w 100))\<rparr>
           else info
      else
        info\<lparr>i_address_mode := ADDRESS_MODE_CHS, i_heads := w 3, i_cylinders := w 1, i_sectors_per_track := w 6,
          i_sectors := scast (ucast (w 6) * ucast (w 3) * ucast (w 1) :: u32)\<rparr>)"

definition identify_slave :: "byte list \<Rightarrow> harddisk_info \<Rightarrow> harddisk_info" where
  "identify_slave buffer info =
     (if i_slave info = 0 \<and> drop_bit 14 (drive_info buffer 93) AND 3 = 1
      then info\<lparr>i_slave_absent := (if drive_info buffer 93 AND 0x20 = 0 then 1 else 0)\<rparr>
      else info)"

text \<open>The commands of the probe; the last two carry the feature code and no command code.\<close>

definition identify_command :: "byte \<Rightarrow> ide_pio_command" where
  "identify_command sl = memset_cmd\<lparr>device := 0xA0 OR 0 OR 0 OR sl, command := 0xEC\<rparr>"

definition spinup_command :: "byte \<Rightarrow> ide_pio_command" where
  "spinup_command sl = memset_cmd\<lparr>device := 0xA0 OR 0 OR 0 OR sl, feature := 0x07\<rparr>"

definition power_command :: "byte \<Rightarrow> ide_pio_command" where
  "power_command sl = memset_cmd\<lparr>device := 0xA0 OR 0 OR 0 OR sl, feature := 0x0A\<rparr>"

text \<open>The identification: the result is the return code or, when the data is complete, \<open>None\<close>.\<close>

definition identify_drive ::
  "'h io \<Rightarrow> controller \<Rightarrow> byte \<Rightarrow> byte list \<Rightarrow> 'h \<Rightarrow> (int option \<times> byte list \<times> 'h) option" where
  "identify_drive io ctrl sl buffer h =
     do {
       (r, buffer, h) \<leftarrow> pio_data_in io ctrl (identify_command sl) buffer IDE_SECTOR_SIZE h;
       if r < 0 then Some (Some 1, buffer, h)
       else do {
         (r, h) \<leftarrow> (if drive_info buffer 2 = 0x37C8 then pio_non_data io ctrl (spinup_command sl) h else Some (0, h));
         if r < 0 then Some (Some 1, buffer, h)
         else do {
           (r, buffer, h) \<leftarrow>
             (if drive_info buffer 2 = 0x37C8 \<or> drive_info buffer 2 = 0x8C73
              then pio_data_in io ctrl (identify_command sl) buffer IDE_SECTOR_SIZE h
              else Some (0, buffer, h));
           if r < 0 then Some (Some 1, buffer, h)
           else if drive_info buffer 2 \<notin> {0x37C8, 0x738C, 0x8C73, 0xC837, 0} then Some (Some 1, buffer, h)
           else Some (None, buffer, h)
         }
       }
     }"

definition init_drive ::
  "'h io \<Rightarrow> controller \<Rightarrow> bool \<Rightarrow> int \<Rightarrow> harddisk_info \<Rightarrow> byte list \<Rightarrow> 'h
    \<Rightarrow> (int \<times> harddisk_info \<times> byte list \<times> 'h) option" where
  "init_drive io ctrl slave basedrive info buffer h =
     (let info = info\<lparr>i_ctrl := True, i_heads := 0, i_cylinders := 0, i_sectors_per_track := 0, i_address_mode := 0,
            i_sectors := 0, i_drive_exists := 0, i_slave_absent := 0, i_slave := (if slave then 0x10 else 0),
            i_basedrive := basedrive\<rparr>;
          h = outb io (0xA0 OR 0 OR 0 OR i_slave info) (IDE_REG_DEVICE ctrl) h;
          h = mdelay io 50 h;
          (ok, h) = registers_exist io ctrl h
      in if \<not> ok then Some (1, info, buffer, h)
         else do {
           (r, buffer, h) \<leftarrow> identify_drive io ctrl (i_slave info) buffer h;
           (case r of
              Some r \<Rightarrow> Some (r, info, buffer, h)
            | None \<Rightarrow>
                let info = info\<lparr>i_model_number := model_number buffer, i_drive_exists := 1\<rparr>;
                    info = identify_slave buffer (identify_capacity buffer info)
                in if drive_info buffer 160 AND 0xB000 = 0xB000 then do {
                     (r, h) \<leftarrow> pio_non_data io ctrl (power_command (i_slave info)) h;
                     if r < 0 then Some (1, info, buffer, h) else Some (0, info, buffer, h)
                   }
                   else Some (0, info, buffer, h))
         })"

section \<open>One controller\<close>

definition init_controller :: "'h io \<Rightarrow> int \<Rightarrow> 'h machine \<Rightarrow> (int \<times> 'h machine) option" where
  "init_controller io basedrive s =
     do {
       let ctrl = the_controller s;
       let s = s\<lparr>drives := [memset_info, memset_info]\<rparr>;
       (r, h) \<leftarrow> ide_software_reset io ctrl (hw s);
       let s = s\<lparr>hw := h\<rparr>;
       if r < 0 then Some (- 1, s)
       else do {
         (_, info, buffer, h) \<leftarrow> init_drive io ctrl False basedrive (drives s ! 0) (d_buffer (the_disk s)) (hw s);
         let s = s\<lparr>drives := (drives s)[0 := info], the_disk := (the_disk s)\<lparr>d_buffer := buffer\<rparr>, hw := h\<rparr>;
         if i_drive_exists info \<noteq> 0 \<and> i_slave_absent info = 0 then do {
           (_, info, buffer, h) \<leftarrow> init_drive io ctrl True (basedrive + 1) (drives s ! 1) (d_buffer (the_disk s)) (hw s);
           Some (0, s\<lparr>drives := (drives s)[1 := info], the_disk := (the_disk s)\<lparr>d_buffer := buffer\<rparr>, hw := h\<rparr>)
         }
         else Some (0, s)
       }
     }"

definition ide_disable :: "'h io \<Rightarrow> 'h machine \<Rightarrow> 'h machine option" where
  "ide_disable io s =
     do {
       k \<leftarrow> d_priv (the_disk s);
       info \<leftarrow> rd1 (drives s) k;
       require (i_ctrl info);
       (_, h) \<leftarrow> ide_software_reset io (the_controller s) (hw s);
       Some (s\<lparr>hw := h\<rparr>)
     }"

text \<open>The ports of the controller of an index, in legacy or in native mode.\<close>

definition controller_ports :: "'h io \<Rightarrow> pci_device \<Rightarrow> int \<Rightarrow> 'h \<Rightarrow> controller \<times> 'h" where
  "controller_ports io pci index h =
     (let m = (if index < 2 then 1 else 4) in
      if p_class pci AND m = 0 then
        let base = (if index < 2 then 0x1F0 else 0x170) in (\<lparr>cmd_base = base, ctrl_base = base + 0x204\<rparr>, h)
      else
        let (cmd_reg, ctrl_reg) = (if index < 2 then (0x10, 0x14) else (0x18, 0x1c));
            (c, h) = pcibios_read_config_dword io (ucast (p_bus pci)) (ucast (p_devfn pci)) cmd_reg h;
            (d, h) = pcibios_read_config_dword io (ucast (p_bus pci)) (ucast (p_devfn pci)) ctrl_reg h
        in (\<lparr>cmd_base = ucast (c AND NOT 3), ctrl_base = ucast (d AND NOT 3)\<rparr>, h))"

definition upd_dev :: "(dev \<Rightarrow> dev) \<Rightarrow> 'h machine \<Rightarrow> 'h machine" where
  "upd_dev f s = s\<lparr>the_disk := (the_disk s)\<lparr>d_dev := f (d_dev (the_disk s))\<rparr>\<rparr>"

abbreviation the_dev :: "'h machine \<Rightarrow> dev" where
  "the_dev s \<equiv> d_dev (the_disk s)"

definition attach_drive :: "int \<Rightarrow> harddisk_info \<Rightarrow> 'h machine \<Rightarrow> 'h machine" where
  "attach_drive index info s =
     s\<lparr>the_disk := (the_disk s)\<lparr>d_hw_sector_size := of_nat IDE_SECTOR_SIZE, d_sectors_per_read := 1,
         d_sectors := i_sectors info, d_dev := (the_dev s)\<lparr>v_index := index, v_disable := disable_ide\<rparr>,
         d_read := read_ide, d_priv := Some (nat (index mod 2))\<rparr>\<rparr>"

function ide_probe_loop :: "'h io \<Rightarrow> int \<Rightarrow> 'h machine \<Rightarrow> (int \<times> 'h machine) option" where
  "ide_probe_loop io index s =
     (if index \<ge> 4 then Some (0, upd_dev (\<lambda>d. d\<lparr>v_index := 0\<rparr>) s)
      else do {
        let (c, h) = controller_ports io (v_pci (the_dev s)) index (hw s);
        let s = s\<lparr>the_controller := c, hw := h\<rparr>;
        (r, s) \<leftarrow>
          (if index mod 2 = 0 \<or> v_how_probe (the_dev s) = PROBE_AWAKE
           then init_controller io (uint (d_drive (the_disk s))) s
           else Some (0, s));
        if r < 0 then ide_probe_loop io (index + 1) s
        else do {
          info \<leftarrow> rd1 (drives s) (nat (index mod 2));
          if i_drive_exists info = 0 then ide_probe_loop io (index + 1) s
          else Some (1, attach_drive index info s)
        }
      })"
  by pat_completeness auto
termination by (relation "measure (\<lambda>(io, index, s). nat (4 - index))") auto

declare ide_probe_loop.simps [simp del]

definition ide_pci_probe :: "'h io \<Rightarrow> 'h machine \<Rightarrow> (int \<times> 'h machine) option" where
  "ide_pci_probe io s =
     (let s = s\<lparr>hw := adjust_pci_device io (v_pci (the_dev s)) (hw s)\<rparr>;
          index = v_index (the_dev s) + 1;
          index = (if v_how_probe (the_dev s) = PROBE_NEXT then index + 1 else index)
      in ide_probe_loop io index s)"

section \<open>Probing for a device\<close>

type_synonym 'h pci_finder = "int \<Rightarrow> pci_device \<Rightarrow> 'h \<Rightarrow> pci_device \<times> 'h"
type_synonym 'h prober = "'h machine \<Rightarrow> (int \<times> 'h machine) option"

partial_function (option) pci_probe_loop ::
  "'h io \<Rightarrow> 'h pci_finder \<Rightarrow> 'h prober \<Rightarrow> 'h machine \<Rightarrow> (int \<times> 'h machine) option" where
  "pci_probe_loop io find_pci nic_probe s =
     do {
       let s = (if v_how_probe (the_dev s) \<noteq> PROBE_AWAKE \<and> v_advance (the_dev s) \<noteq> 0 then
           let (p, h) = find_pci (v_type (the_dev s)) (v_pci (the_dev s)) (hw s)
           in upd_dev (\<lambda>d. d\<lparr>v_pci := p, v_index := - 1\<rparr>) (s\<lparr>hw := h\<rparr>)
         else s);
       let s = upd_dev (\<lambda>d. d\<lparr>v_advance := 1\<rparr>) s;
       (case p_driver (v_pci (the_dev s)) of
          None \<Rightarrow> Some (PROBE_FAILED, s)
        | Some drv \<Rightarrow> do {
            let s = upd_dev (\<lambda>d. (if v_how_probe d \<noteq> PROBE_AWAKE then d\<lparr>v_type_index := v_type_index d + 1\<rparr> else d)
              \<lparr>v_bus_type := 1, v_vendor_id := bswap_16 (p_vendor (v_pci d)), v_device_id := bswap_16 (p_dev_id (v_pci d))\<rparr>) s;
            (r, s) \<leftarrow> (case drv of ide_driver \<Rightarrow> ide_pci_probe io s | rtl8139_driver \<Rightarrow> nic_probe s);
            if r \<noteq> 0 then
              Some (PROBE_WORKED, upd_dev (\<lambda>d. d\<lparr>v_advance := (if v_index d = - 1 then 1 else 0)\<rparr>) s)
            else pci_probe_loop io find_pci nic_probe s
          })
     }"

definition pci_probe ::
  "'h io \<Rightarrow> 'h pci_finder \<Rightarrow> 'h prober \<Rightarrow> 'h machine \<Rightarrow> (int \<times> 'h machine) option" where
  "pci_probe io find_pci nic_probe s =
     pci_probe_loop io find_pci nic_probe
       (if v_how_probe (the_dev s) = PROBE_FIRST then
          upd_dev (\<lambda>d. d\<lparr>v_advance := 1, v_pci := (v_pci d)\<lparr>p_driver := None, p_bus := 0, p_devfn := 0\<rparr>, v_index := - 1\<rparr>) s
        else s)"

definition probe ::
  "'h io \<Rightarrow> 'h pci_finder \<Rightarrow> 'h prober \<Rightarrow> 'h machine \<Rightarrow> (int \<times> 'h machine) option" where
  "probe io find_pci nic_probe s =
     do {
       let s = (if v_how_probe (the_dev s) = PROBE_FIRST then
           upd_dev (\<lambda>d. d\<lparr>v_to_probe := PROBE_PCI, v_pci := memset_pci_device, v_advance := 0\<rparr>) s
         else s);
       s \<leftarrow>
         (if v_to_probe (the_dev s) = PROBE_PCI then do {
            (how, s) \<leftarrow> pci_probe io find_pci nic_probe s;
            let s = upd_dev (\<lambda>d. d\<lparr>v_how_probe := how\<rparr>) s;
            Some (if how = PROBE_FAILED then upd_dev (\<lambda>d. d\<lparr>v_to_probe := PROBE_ISA\<rparr>) s else s)
          }
          else Some s);
       Some (v_how_probe (the_dev s), s)
     }"

text \<open>\<open>disable\<close> calls the routine the driver left in the device, once.\<close>

definition disable :: "'h io \<Rightarrow> ('h machine \<Rightarrow> 'h machine option) \<Rightarrow> 'h machine \<Rightarrow> 'h machine option" where
  "disable io nic_disable s =
     (case v_disable (the_dev s) of
        disable_null \<Rightarrow> Some s
      | disable_ide \<Rightarrow> do { s \<leftarrow> ide_disable io s; Some (upd_dev (\<lambda>d. d\<lparr>v_disable := disable_null\<rparr>) s) }
      | disable_nic \<Rightarrow> do { s \<leftarrow> nic_disable s; Some (upd_dev (\<lambda>d. d\<lparr>v_disable := disable_null\<rparr>) s) })"

section \<open>The disk\<close>

definition disk_probe ::
  "'h io \<Rightarrow> 'h pci_finder \<Rightarrow> 'h prober \<Rightarrow> 'h machine \<Rightarrow> (int \<times> 'h machine) option" where
  "disk_probe io find_pci nic_probe s =
     probe io find_pci nic_probe
       (if v_how_probe (the_dev s) = PROBE_NEXT
        then s\<lparr>the_disk := (the_disk s)\<lparr>d_drive := d_drive (the_disk s) + 1\<rparr>\<rparr> else s)"

text \<open>No driver of a disk leaves anything but \<open>ide_disable\<close> in the device of the disk.\<close>

definition disk_disable :: "'h io \<Rightarrow> 'h machine \<Rightarrow> 'h machine option" where
  "disk_disable io s = disable io (\<lambda>s. None) s"

definition memset_disk :: "disk \<Rightarrow> disk" where
  "memset_disk d = \<lparr>d_dev = memset_dev, d_read = read_null, d_drive = 0, d_hw_sector_size = 0, d_sectors_per_read = 0,
     d_bytes = 0, d_sectors = 0, d_sector = 0, d_buffer = d_buffer d, d_priv = None, d_disk_offset = 0, d_direction = 0\<rparr>"

partial_function (option) disk_open_loop ::
  "'h io \<Rightarrow> 'h pci_finder \<Rightarrow> 'h prober \<Rightarrow> int \<Rightarrow> 'h machine \<Rightarrow> (int \<times> 'h machine) option" where
  "disk_open_loop io find_pci nic_probe drive s =
     do {
       s \<leftarrow> disk_disable io s;
       (how, s) \<leftarrow> disk_probe io find_pci nic_probe s;
       let s = upd_dev (\<lambda>d. d\<lparr>v_how_probe := how\<rparr>) s;
       if how = PROBE_FAILED then Some (- 1, s)
       else if d_drive (the_disk s) < of_int drive then disk_open_loop io find_pci nic_probe drive s
       else Some (0, s)
     }"

definition disk_open ::
  "'h io \<Rightarrow> 'h pci_finder \<Rightarrow> 'h prober \<Rightarrow> int \<Rightarrow> 'h machine \<Rightarrow> (int \<times> 'h machine) option" where
  "disk_open io find_pci nic_probe drive s =
     disk_open_loop io find_pci nic_probe drive
       (upd_dev (\<lambda>d. d\<lparr>v_how_probe := PROBE_FIRST, v_type := DISK_DRIVER\<rparr>) (s\<lparr>the_disk := memset_disk (the_disk s)\<rparr>))"

definition disk_close :: "'h io \<Rightarrow> 'h machine \<Rightarrow> 'h machine option" where
  "disk_close io s = disk_disable io s"

section \<open>Capacity\<close>

lemma mod_if_once: "n \<le> k \<Longrightarrow> k < 2 * n \<Longrightarrow> k mod n = k - n" "- n \<le> k \<Longrightarrow> k < 0 \<Longrightarrow> k mod n = k + n" for k n :: int
  by (metis add_diff_cancel_right' mod_add_self2 mod_pos_pos_trivial diff_add_cancel diff_ge_0_iff_ge diff_less_eq mult_2,
      metis add.commute add_nonneg_pos mod_add_self2 mod_pos_pos_trivial add_less_same_cancel1 neg_le_iff_le minus_add_cancel le_minus_iff add_increasing2 diff_ge_0_iff_ge diff_minus_eq_add)

lemma unat_scast_negative:
  assumes "2147483648 \<le> unat (w :: u32)"
  shows "unat (scast w :: u64) = 2 ^ 64 - 2 ^ 32 + unat w"
proof -
  have b: "2147483648 \<le> uint w" "uint w < 4294967296"
    using assms unat_u32_less [of w] unfolding uint_nat by linarith+
  then have "sint w = uint w - 4294967296"
    by (simp add: sint_uint signed_take_bit_eq_take_bit_shift take_bit_eq_mod mod_if_once)
  moreover have "uint (scast w :: u64) = sint w mod 2 ^ 64" by (simp only: scast_eq uint_word_of_int) simp
  ultimately have "uint (scast w :: u64) = (uint w - 4294967296) mod 2 ^ 64" by (simp only:)
  also have "\<dots> = 18446744069414584320 + uint w" using b by (simp add: mod_if_once)
  finally have "unat (scast w :: u64) = 18446744069414584320 + unat w" unfolding uint_nat by linarith
  then show ?thesis by simp
qed

text \<open>The number of sectors the IDENTIFY data announces.\<close>

definition supports_lba48 :: "byte list \<Rightarrow> bool" where
  "supports_lba48 buf \<longleftrightarrow> drive_info buf 49 AND 0x200 \<noteq> 0 \<and> drive_info buf 83 AND 0x400 \<noteq> 0"

definition capacity :: "byte list \<Rightarrow> nat" where
  "capacity buf =
     (let w = \<lambda>i. unat (drive_info buf i) in
      if supports_lba48 buf then w 103 * 2 ^ 48 + w 102 * 2 ^ 32 + w 101 * 2 ^ 16 + w 100
      else if drive_info buf 49 AND 0x200 \<noteq> 0 then w 61 * 2 ^ 16 + w 60
      else w 6 * w 3 * w 1)"

lemma unat_ucast_u16_u64: "unat (ucast (x :: u16) :: u64) = unat x"
  using unat_u16_less [of x] by (simp add: unsigned_ucast_eq take_bit_nat_eq_self)

lemma unat_lba48_words:
  fixes a b c d :: u16
  shows "unat (push_bit 48 (ucast a) OR push_bit 32 (ucast b) OR push_bit 16 (ucast c) OR push_bit 0 (ucast d) :: u64) =
    unat a * 2 ^ 48 + unat b * 2 ^ 32 + unat c * 2 ^ 16 + unat d"
proof -
  note u = unat_ucast_u16_u64
  have 1: "unat (push_bit 16 (ucast c) OR ucast d :: u64) = unat c * 2 ^ 16 + unat d"
    using unat_push_or [of "ucast d :: u64" 16 "ucast c"] unat_u16_less [of c] unat_u16_less [of d] by (simp add: u)
  have 2: "unat (push_bit 32 (ucast b) OR (push_bit 16 (ucast c) OR ucast d) :: u64) =
      unat b * 2 ^ 32 + (unat c * 2 ^ 16 + unat d)"
    using unat_push_or [of "push_bit 16 (ucast c) OR ucast d :: u64" 32 "ucast b"] unat_u16_less [of b] unat_u16_less [of c]
      unat_u16_less [of d] 1 by (simp add: u)
  show ?thesis
    using unat_push_or [of "push_bit 32 (ucast b) OR (push_bit 16 (ucast c) OR ucast d) :: u64" 48 "ucast a"]
      unat_u16_less [of a] unat_u16_less [of b] unat_u16_less [of c] unat_u16_less [of d] 2
    by (simp add: u or.assoc)
qed

lemma unat_lba28_words: "unat (push_bit 16 (ucast (a :: u16)) OR ucast (b :: u16) :: u32) = unat a * 2 ^ 16 + unat b"
  using unat_push_or [of "ucast b :: u32" 16 "ucast a"] unat_u16_less [of a] unat_u16_less [of b]
  by (simp add: unat_ucast_u16_u32)

lemma identify_capacity_sectors:
  assumes "supports_lba48 buf \<or> capacity buf < 2 ^ 31"
  shows "unat (i_sectors (identify_capacity buf info)) = capacity buf"
proof -
  let ?w = "drive_info buf"
  consider "supports_lba48 buf" | "\<not> supports_lba48 buf" "?w 49 AND 0x200 \<noteq> 0" | "\<not> supports_lba48 buf" "?w 49 AND 0x200 = 0"
    by blast
  then show ?thesis
  proof cases
    case 1
    then show ?thesis using unat_lba48_words [of "?w 103" "?w 102" "?w 101" "?w 100"]
      by (simp add: identify_capacity_def capacity_def supports_lba48_def Let_def)
  next
    case 2
    then have "unat (push_bit 16 (ucast (?w 61)) OR ucast (?w 60) :: u32) = capacity buf" "capacity buf < 2147483648"
      using assms by (simp_all add: unat_lba28_words capacity_def)
    then show ?thesis using 2 by (simp add: identify_capacity_def supports_lba48_def unat_scast_small Let_def)
  next
    case 3
    then have c: "capacity buf = unat (?w 6) * unat (?w 3) * unat (?w 1)" "capacity buf < 2147483648"
      using assms by (simp_all add: capacity_def)
    have "unat (?w 6) * unat (?w 3) < 65536 * 65536"
      by (rule mult_strict_mono) (simp_all add: unat_u16_less)
    then have "unat (ucast (?w 6) * ucast (?w 3) :: u32) = unat (?w 6) * unat (?w 3)"
      by (simp add: unat_word_ariths unat_ucast_u16_u32)
    then have "unat (ucast (?w 6) * ucast (?w 3) * ucast (?w 1) :: u32) = capacity buf"
      using c by (simp add: unat_word_ariths unat_ucast_u16_u32)
    then show ?thesis using 3 c by (simp add: identify_capacity_def unat_scast_small Let_def)
  qed
qed

lemma identify_keeps:
  "i_drive_exists (identify_slave buf (identify_capacity buf i)) = i_drive_exists i"
  "i_slave (identify_slave buf (identify_capacity buf i)) = i_slave i"
  "i_ctrl (identify_slave buf (identify_capacity buf i)) = i_ctrl i"
  "i_basedrive (identify_slave buf (identify_capacity buf i)) = i_basedrive i"
  "i_model_number (identify_slave buf (identify_capacity buf i)) = i_model_number i"
  by (simp_all add: identify_slave_def identify_capacity_def Let_def)

text \<open>
  C21: A drive that passes the register test and answers IDENTIFY with a complete configuration is
  recorded as present, with its model number, its place on the channel and the capacity that the
  48-bit words, the 28-bit words or the geometry announce (the last two below \<open>2 ^ 31\<close> sectors).\<close>

theorem init_drive_identifies:
  assumes "registers_exist io ctrl (mdelay io 50 (outb io (0xA0 OR (if slave then 0x10 else 0)) (IDE_REG_DEVICE ctrl) h)) = (True, h1)"
    "pio_data_in io ctrl (identify_command (if slave then 0x10 else 0)) buffer 512 h1 = Some (0, buf, h2)"
    "drive_info buf 2 \<in> {0x738C, 0xC837, 0}" "drive_info buf 160 AND 0xB000 \<noteq> 0xB000"
    "supports_lba48 buf \<or> capacity buf < 2 ^ 31"
  shows "\<exists>info'. init_drive io ctrl slave basedrive info buffer h = Some (0, info', buf, h2) \<and> i_drive_exists info' = 1
    \<and> i_slave info' = (if slave then 0x10 else 0) \<and> i_model_number info' = model_number buf \<and> i_ctrl info'
    \<and> unat (i_sectors info') = capacity buf \<and> i_basedrive info' = basedrive"
proof -
  let ?sl = "if slave then 0x10 else 0 :: byte"
  have "identify_drive io ctrl ?sl buffer h1 = Some (None, buf, h2)"
    using assms(2,3) by (auto simp: identify_drive_def IDE_SECTOR_SIZE_def)
  moreover have "unat (i_sectors (identify_slave buf (identify_capacity buf i))) = capacity buf"
    for i
    using identify_capacity_sectors [OF assms(5), of i] by (simp add: identify_slave_def)
  ultimately show ?thesis using assms(1,4) by (simp add: init_drive_def Let_def identify_keeps)
qed

text \<open>
  A channel with one drive: registers can be read back, and every word of the IDENTIFY data is
  0x738C.  The state is the registers and the number of words left to transfer.
\<close>

type_synonym echo_drive = "(u16 \<Rightarrow> byte) \<times> nat"

definition echo_io :: "echo_drive io" where
  "echo_io = \<lparr>inb = \<lambda>p h. (if p = 0x1F7 then if snd h = 0 then 0x40 else 0x48 else fst h p, h),
     inw = \<lambda>p h. (0x738C, (fst h, snd h - 1)), inl = \<lambda>p h. (0, h),
     outb = \<lambda>v p h. if p = 0x1F7 \<and> v = 0xEC then (fst h, 256) else ((fst h)(p := v), snd h),
     outw = \<lambda>v p h. h, outl = \<lambda>v p h. h, currticks = \<lambda>h. (0, h), mdelay = \<lambda>n h. h, udelay = \<lambda>n h. h,
     poll_interruptions = \<lambda>h. h\<rparr>"

definition echo_ctrl :: controller where
  "echo_ctrl = \<lparr>cmd_base = 0x1F0, ctrl_base = 0x3F4\<rparr>"

definition echo_data :: "byte list" where
  "echo_data = concat (replicate 256 [0x8C, 0x73])"

lemma echo_string: "in_string_16 echo_io p n (r, n) = (concat (replicate n [0x8C, 0x73]), (r, 0))"
  by (induction n) (simp_all add: echo_io_def Let_def)

lemma echo_ready: "await_not_bsy echo_io echo_ctrl h = Some (0, h)"
proof -
  have "currticks echo_io h = (0, h)" "not_bsy echo_io echo_ctrl h = (True, h)"
    by (simp_all add: not_bsy_def echo_io_def echo_ctrl_def)
  then show ?thesis by (simp add: await_not_bsy_def await_ide.simps [of _ _ _ h])
qed

lemma echo_registers: "\<exists>r'. registers_exist echo_io echo_ctrl (r, n) = (True, (r', n))"
  by (simp add: registers_exist_def write_pattern_def echo_io_def echo_ctrl_def Let_def)

lemma echo_identify:
  "\<exists>r'. pio_data_in echo_io echo_ctrl (identify_command sl) (replicate 9216 0) 512 (r, 0) =
     Some (0, echo_data @ replicate 8704 0, (r', 0))"
proof -
  have "\<exists>r'. pio_set_registers echo_io echo_ctrl (identify_command sl) (r, 0) = (r', 256)"
    by (simp add: pio_set_registers_def identify_command_def memset_cmd_def echo_io_def echo_ctrl_def Let_def)
  then obtain r' where "pio_set_registers echo_io echo_ctrl (identify_command sl) (r, 0) = (r', 256)" by blast
  moreover have "inb echo_io (IDE_REG_STATUS echo_ctrl) (r', n) = (if n = 0 then 0x40 else 0x48, (r', n))" for n
    by (simp add: echo_io_def echo_ctrl_def)
  moreover have "length echo_data = 512" by (simp add: echo_data_def length_concat sum_list_replicate)
  ultimately show ?thesis
    by (simp add: pio_data_in_def echo_ready echo_string wr_def flip: echo_data_def)
qed

lemma drive_info_words:
  assumes "i < length ws" "\<forall>w \<in> set ws. length (f w) = 2"
  shows "drive_info (concat (map f ws) @ r) i = le_word (f (ws ! i))"
proof -
  have "bytes_at (2 * i) 2 (concat (map f ws) @ r) = f (ws ! i)" using assms
  proof (induction ws arbitrary: i)
    case (Cons w ws)
    then show ?case by (cases i) (simp_all add: bytes_at_def)
  qed simp
  then show ?thesis by (simp add: drive_info_def field16_def)
qed

lemma echo_info: "i < 256 \<Longrightarrow> drive_info (echo_data @ replicate 8704 0) i = 0x738C"
  using drive_info_words [of i "replicate 256 ()" "\<lambda>_. [0x8C, 0x73]"] by (simp add: echo_data_def map_replicate_const)

theorem init_drive_identifies_witness:
  "\<exists>info' buf h'. init_drive echo_io echo_ctrl False 0 memset_info (replicate 9216 0) (\<lambda>_. 0, 0) = Some (0, info', buf, h')
     \<and> unat (i_sectors info') = 0x738C738C"
proof -
  let ?buf = "echo_data @ replicate 8704 0"
  obtain r1 where 1: "registers_exist echo_io echo_ctrl (mdelay echo_io 50
      (outb echo_io (0xA0 OR (if False then 0x10 else 0)) (IDE_REG_DEVICE echo_ctrl) (\<lambda>_. 0, 0))) = (True, (r1, 0))"
    using echo_registers [of "(\<lambda>_. 0)(0x1F6 := 0xA0)" 0] by (auto simp: echo_io_def echo_ctrl_def)
  obtain r2 where 2: "pio_data_in echo_io echo_ctrl (identify_command (if False then 0x10 else 0)) (replicate 9216 0) 512 (r1, 0) =
      Some (0, ?buf, (r2, 0))"
    using echo_identify by auto
  have c: "capacity ?buf = 0x738C738C" "\<not> supports_lba48 ?buf"
    by (simp_all add: capacity_def supports_lba48_def echo_info)
  show ?thesis
    using init_drive_identifies [OF 1 2, of 0 memset_info] c by (auto simp: echo_info)
qed

text \<open>
  The 28-bit capacity is computed as \<open>int\<close>: a drive without 48-bit addressing that sets the top bit
  of word 61 gets a capacity with the sign extended to 64 bits.\<close>

theorem identify_capacity_sign_extends:
  assumes "drive_info buf 49 AND 0x200 \<noteq> 0" "drive_info buf 83 AND 0x400 = 0" "unat (drive_info buf 61) \<ge> 0x8000"
  shows "unat (i_sectors (identify_capacity buf info)) = 2 ^ 64 - 2 ^ 32 + capacity buf"
proof -
  let ?w = "push_bit 16 (ucast (drive_info buf 61)) OR ucast (drive_info buf 60) :: u32"
  have c: "unat ?w = capacity buf" "0x80000000 \<le> unat ?w"
    using assms unat_lba28_words [of "drive_info buf 61" "drive_info buf 60"] by (simp_all add: capacity_def supports_lba48_def)
  then have "unat (scast ?w :: u64) = 2 ^ 64 - 2 ^ 32 + capacity buf" by (simp add: unat_scast_negative)
  then show ?thesis using assms by (simp add: identify_capacity_def Let_def)
qed

definition wide_data :: "byte list" where
  "wide_data = concat (replicate 256 [0, 0x82])"

lemma wide_info: "i < 256 \<Longrightarrow> drive_info wide_data i = 0x8200"
  using drive_info_words [of i "replicate 256 ()" "\<lambda>_. [0, 0x82]" "[]"] by (simp add: wide_data_def map_replicate_const)

theorem identify_capacity_sign_extends_witness:
  "unat (i_sectors (identify_capacity wide_data memset_info)) = 0xFFFFFFFF82008200"
proof -
  have "capacity wide_data = 0x82008200" by (simp add: capacity_def supports_lba48_def wide_info)
  then show ?thesis using identify_capacity_sign_extends [of wide_data memset_info] by (simp add: wide_info)
qed

text \<open>
  The probe gives up on a compact flash card that cannot be powered up, but the record says that
  the drive exists, which is what the callers look at.\<close>

theorem init_drive_power_failure_keeps_drive:
  assumes "registers_exist io ctrl (mdelay io 50 (outb io (0xA0 OR (if slave then 0x10 else 0)) (IDE_REG_DEVICE ctrl) h)) = (True, h1)"
    "identify_drive io ctrl (if slave then 0x10 else 0) buffer h1 = Some (None, buf, h2)"
    "drive_info buf 160 AND 0xB000 = 0xB000"
    "pio_non_data io ctrl (power_command (if slave then 0x10 else 0)) h2 = Some (- 1, h3)"
  shows "\<exists>info'. init_drive io ctrl slave basedrive info buffer h = Some (1, info', buf, h3) \<and> i_drive_exists info' = 1"
  using assms by (simp add: init_drive_def Let_def identify_keeps)

text \<open>
  A drive whose IDENTIFY data is zero but for word 160, and which stays busy after any other
  command.  Above 1000 the counter is the time.
\<close>

definition flash_io :: "echo_drive io" where
  "flash_io = echo_io\<lparr>inb := \<lambda>p h. (if p = 0x1F7 then if snd h = 0 then 0x40 else if snd h < 1000 then 0x48 else 0x80 else fst h p, h),
     inw := \<lambda>p h. (if snd h = 96 then 0xB000 else 0, (fst h, snd h - 1)),
     outb := \<lambda>v p h. if p = 0x1F7 then (fst h, if v = 0xEC then 256 else 1000) else ((fst h)(p := v), snd h),
     currticks := \<lambda>h. if snd h < 1000 then (0, h) else (of_nat (40000 * (snd h - 1000)), (fst h, snd h + 1))\<rparr>"

definition flash_word :: "nat \<Rightarrow> byte list" where
  "flash_word n = le_bytes 2 (if n = 96 then 0xB000 else 0 :: u16)"

lemma length_flash_word: "length (flash_word n) = 2"
  by (simp add: flash_word_def)

lemma flash_string: "in_string_16 flash_io p n (r, n) = (concat (map flash_word (rev [1..<Suc n])), (r, 0))"
  by (induction n) (simp_all add: flash_io_def Let_def flash_word_def)

lemma flash_ready: "n < 1000 \<Longrightarrow> await_not_bsy flash_io echo_ctrl (r, n) = Some (0, (r, n))"
proof -
  assume "n < 1000"
  then have "currticks flash_io (r, n) = (0, (r, n))" "not_bsy flash_io echo_ctrl (r, n) = (True, (r, n))"
    by (simp_all add: not_bsy_def flash_io_def echo_io_def echo_ctrl_def)
  then show ?thesis by (simp add: await_not_bsy_def await_ide.simps [of _ _ _ "(r, n)"])
qed

lemma flash_busy: "\<exists>h'. await_not_bsy flash_io echo_ctrl (r, 1000) = Some (- 1, h')"
proof -
  have "currticks flash_io (r, 1000) = (0, (r, 1001))" "currticks flash_io (r, 1001) = (40000, (r, 1002))"
    "not_bsy flash_io echo_ctrl (r, 1001) = (False, (r, 1001))" "poll_interruptions flash_io (r, 1001) = (r, 1001)"
    by (simp_all add: not_bsy_def flash_io_def echo_io_def echo_ctrl_def)
  then show ?thesis by (simp add: await_not_bsy_def await_ide.simps [of _ _ _ "(r, 1001)"] IDE_TIMEOUT_def)
qed

theorem init_drive_power_failure_keeps_drive_witness:
  "\<exists>info' buf h'. init_drive flash_io echo_ctrl False 0 memset_info (replicate 512 0) (\<lambda>_. 0, 0) = Some (1, info', buf, h')
     \<and> i_drive_exists info' = 1"
proof -
  let ?buf = "concat (map flash_word (rev [1..<Suc 256])) @ []"
  have "\<exists>r1. registers_exist flash_io echo_ctrl (mdelay flash_io 50
      (outb flash_io (0xA0 OR (if False then 0x10 else 0)) (IDE_REG_DEVICE echo_ctrl) (\<lambda>_. 0, 0))) = (True, (r1, 0))"
    by (simp add: registers_exist_def write_pattern_def flash_io_def echo_io_def echo_ctrl_def Let_def)
  then obtain r1 where 1: "registers_exist flash_io echo_ctrl (mdelay flash_io 50
      (outb flash_io (0xA0 OR (if False then 0x10 else 0)) (IDE_REG_DEVICE echo_ctrl) (\<lambda>_. 0, 0))) = (True, (r1, 0))"
    by blast
  have w: "drive_info ?buf i = le_word (flash_word (256 - i))" if "i < 256" for i
  proof -
    have "rev [1..<Suc 256] ! i = 256 - i" using that by (simp add: rev_nth del: upt_Suc)
    then show ?thesis
      using that drive_info_words [of i "rev [1..<Suc 256]" flash_word "[]"] by (simp add: length_flash_word del: upt_Suc)
  qed
  have "\<exists>r2. pio_set_registers flash_io echo_ctrl (identify_command 0) (r1, 0) = (r2, 256)"
    by (simp add: pio_set_registers_def identify_command_def memset_cmd_def flash_io_def echo_io_def echo_ctrl_def Let_def)
  then obtain r2 where "pio_set_registers flash_io echo_ctrl (identify_command 0) (r1, 0) = (r2, 256)" by blast
  moreover have "inb flash_io (IDE_REG_STATUS echo_ctrl) (r2, n) = (if n = 0 then 0x40 else if n < 1000 then 0x48 else 0x80, (r2, n))" for n
    by (simp add: flash_io_def echo_io_def echo_ctrl_def)
  moreover have "length ?buf = 512"
    by (simp add: length_concat flash_word_def comp_def sum_list_triv del: upt_Suc)
  ultimately have "pio_data_in flash_io echo_ctrl (identify_command 0) (replicate 512 0) 512 (r1, 0) = Some (0, ?buf, (r2, 0))"
    by (simp add: pio_data_in_def flash_ready flash_string wr_def del: upt_Suc)
  then have 2: "identify_drive flash_io echo_ctrl (if False then 0x10 else 0) (replicate 512 0) (r1, 0) = Some (None, ?buf, (r2, 0))"
    using w [of 2] by (simp add: identify_drive_def IDE_SECTOR_SIZE_def flash_word_def del: upt_Suc)
  have 3: "drive_info ?buf 160 AND 0xB000 = 0xB000" using w [of 160] by (simp add: flash_word_def del: upt_Suc)
  have "\<exists>r3. pio_set_registers flash_io echo_ctrl (power_command 0) (r2, 0) = (r3, 1000)"
    by (simp add: pio_set_registers_def power_command_def memset_cmd_def flash_io_def echo_io_def echo_ctrl_def Let_def)
  then obtain r3 h3 where "pio_set_registers flash_io echo_ctrl (power_command 0) (r2, 0) = (r3, 1000)"
      "await_not_bsy flash_io echo_ctrl (r3, 1000) = Some (- 1, h3)"
    using flash_busy by blast
  then have 4: "pio_non_data flash_io echo_ctrl (power_command (if False then 0x10 else 0)) (r2, 0) = Some (- 1, h3)"
    by (simp add: pio_non_data_def flash_ready)
  show ?thesis using init_drive_power_failure_keeps_drive [OF 1 2 3 4, of 0 memset_info] by blast
qed

text \<open>Closing the disk twice is closing it once: the driver's routine runs at most once.\<close>

theorem disk_close_idempotent:
  assumes "disk_close io s = Some s'"
  shows "disk_close io s' = Some s'"
  using assms by (auto simp: disk_close_def disk_disable_def disable_def upd_dev_def bind_eq_Some_conv split: disable_fn.splits)

text \<open>A machine whose disk is the drive above.\<close>

definition echo_machine :: "echo_drive machine" where
  "echo_machine = \<lparr>hw = (\<lambda>_. 0, 0), the_disk = sample_disk\<lparr>d_dev := memset_dev\<lparr>v_disable := disable_ide\<rparr>\<rparr>,
     the_controller = echo_ctrl, drives = [sample_info, memset_info]\<rparr>"

theorem disk_close_idempotent_witness:
  "\<exists>s'. disk_close echo_io echo_machine = Some s' \<and> disk_close echo_io s' = Some s' \<and> v_disable (the_dev s') = disable_null"
proof -
  have "\<exists>h'. ide_software_reset echo_io echo_ctrl h = Some (0, h')" for h
    by (simp add: ide_software_reset_def echo_ready Let_def)
  then obtain h' where "ide_software_reset echo_io echo_ctrl (\<lambda>_. 0, 0) = Some (0, h')" by blast
  then have c: "disk_close echo_io echo_machine =
      Some (upd_dev (\<lambda>d. d\<lparr>v_disable := disable_null\<rparr>) (echo_machine\<lparr>hw := h'\<rparr>))"
    by (simp add: disk_close_def disk_disable_def disable_def ide_disable_def echo_machine_def sample_disk_def sample_info_def rd1_def)
  then show ?thesis using disk_close_idempotent [OF c] by (simp add: upd_dev_def)
qed

end
