(* ===== verification/Loader.thy ===== *)
theory Loader
  imports Vsprintf
begin

text \<open>
  Starting the Linux kernel: the memory routines and \<open>boot_kernel\<close> of \<^verbatim>\<open>src/loader_init.c\<close>, the boot
  parameters of \<^verbatim>\<open>src/system.c\<close> and the hand-over \<open>start_kernel\<close> of \<^verbatim>\<open>src/sysdeps.h\<close>.

  Everything at an absolute address (the loaded files, the final places of the kernel, the ramdisk
  and the boot sector) is in one flat memory of bytes, so overlapping areas are modelled as they
  are.  The boot sector \<open>szBootSect\<close> is an array on the stack, a byte list.  The string
  instructions of the inline assembly move a unit at a time, with the direction flag clear.

  Theorems: \<open>memcpy\<close> by double words copies the bytes; the fields of the boot parameters; what
  memory and registers hold when the kernel is entered, or that nothing has changed when the image
  is refused.
\<close>

section \<open>Flat memory\<close>

type_synonym memory = "u32 \<Rightarrow> byte"

definition load :: "memory \<Rightarrow> u32 \<Rightarrow> nat \<Rightarrow> byte list" where
  "load m a n = map (\<lambda>i. m (a + of_nat i)) [0..<n]"

primrec store :: "u32 \<Rightarrow> byte list \<Rightarrow> memory \<Rightarrow> memory" where
  "store a [] m = m"
| "store a (b # bs) m = store (a + 1) bs (m(a := b))"

section \<open>Copying and filling\<close>

text \<open>One string move of \<open>w\<close> bytes from \<open>%esi\<close> to \<open>%edi\<close>, and a repeated one.\<close>

definition movs :: "nat \<Rightarrow> u32 \<times> u32 \<times> memory \<Rightarrow> u32 \<times> u32 \<times> memory" where
  "movs w s = (case s of (di, si, m) \<Rightarrow> (di + of_nat w, si + of_nat w, store di (load m si w) m))"

primrec rep_movs :: "nat \<Rightarrow> nat \<Rightarrow> u32 \<times> u32 \<times> memory \<Rightarrow> u32 \<times> u32 \<times> memory" where
  "rep_movs w 0 s = s"
| "rep_movs w (Suc n) s = rep_movs w n (movs w s)"

definition memcpy :: "u32 \<Rightarrow> u32 \<Rightarrow> u32 \<Rightarrow> memory \<Rightarrow> memory" where
  "memcpy to from n m =
     (let s = rep_movs 4 (unat (n div 4)) (to, from, m);
          s = (if n AND 2 \<noteq> 0 then movs 2 s else s);
          s = (if n AND 1 \<noteq> 0 then movs 1 s else s)
      in snd (snd s))"

primrec rep_stosb :: "byte \<Rightarrow> nat \<Rightarrow> u32 \<Rightarrow> memory \<Rightarrow> memory" where
  "rep_stosb al 0 di m = m"
| "rep_stosb al (Suc n) di m = rep_stosb al n (di + 1) (m(di := al))"

definition memset :: "u32 \<Rightarrow> u32 \<Rightarrow> u32 \<Rightarrow> memory \<Rightarrow> memory" where
  "memset s c count m = rep_stosb (ucast c) (unat count) s m"

text \<open>The macros \<open>MEMCPY\<close> and \<open>MEMSET\<close>: byte loops that do nothing for a null pointer or no bytes.\<close>

primrec MEMCPY_loop :: "nat \<Rightarrow> u32 \<Rightarrow> u32 \<Rightarrow> memory \<Rightarrow> memory" where
  "MEMCPY_loop 0 t f m = m"
| "MEMCPY_loop (Suc n) t f m = MEMCPY_loop n (t + 1) (f + 1) (m(t := m f))"

definition MEMCPY :: "u32 \<Rightarrow> u32 \<Rightarrow> u32 \<Rightarrow> memory \<Rightarrow> memory" where
  "MEMCPY to from cnt m = (if to \<noteq> 0 \<and> from \<noteq> 0 \<and> cnt \<noteq> 0 then MEMCPY_loop (unat cnt) to from m else m)"

primrec MEMSET_loop :: "nat \<Rightarrow> u32 \<Rightarrow> byte \<Rightarrow> memory \<Rightarrow> memory" where
  "MEMSET_loop 0 p v m = m"
| "MEMSET_loop (Suc n) p v m = MEMSET_loop n (p + 1) v (m(p := v))"

definition MEMSET :: "u32 \<Rightarrow> u32 \<Rightarrow> byte \<Rightarrow> memory \<Rightarrow> memory" where
  "MEMSET ptr cnt val m = (if ptr \<noteq> 0 \<and> cnt \<noteq> 0 then MEMSET_loop (unat cnt) ptr val m else m)"

section \<open>Boot parameters\<close>

record viedo_parms =
  video_addr :: u32
  rowb :: u32
  width :: u32
  height :: u32

text \<open>The fields of the parameters from the first loader that are used.\<close>

record boot_parms =
  efi_mem_map :: u32
  efi_mem_map_size :: u32
  efi_mem_desc_size :: u32
  efi_mem_desc_ver :: u32
  video :: viedo_parms
  efi_sys_tbl :: u32

definition kernel_start :: u32 where "kernel_start = 0x100000"
definition high_base_mem :: u32 where "high_base_mem = 0x90000"
definition high_ext_mem :: u32 where "high_ext_mem = 32 * 1024 * 1024"
definition KERNEL_BUFFER :: u32 where "KERNEL_BUFFER = 0x400000"
definition BOOT_PARAM_MEMSIZE :: nat where "BOOT_PARAM_MEMSIZE = 16384"
definition LDRTYPE_ELILO :: byte where "LDRTYPE_ELILO = 0x50"
definition CMDLINE_MAGIK :: u16 where "CMDLINE_MAGIK = 0xA33F"
definition EFI_LOADER_SIG :: "byte list" where "EFI_LOADER_SIG = lit ''EFIL''"

definition gdt_limit :: u16 where "gdt_limit = 0x800"
definition gdt_base :: u32 where "gdt_base = 0x94000"

definition init_gdt :: "u16 list" where
  "init_gdt = [0, 0, 0, 0,  0, 0, 0, 0,  0xFFFF, 0x0000, 0x9A00, 0x00CF,  0xFFFF, 0x0000, 0x9200, 0x00CF]"

text \<open>An assignment to a field of \<open>boot_params_t\<close>: the offset of the field and the bytes.\<close>

definition field_8 :: "nat \<Rightarrow> byte \<Rightarrow> nat \<times> byte list" where "field_8 off v = (off, [v])"
definition field_16 :: "nat \<Rightarrow> u16 \<Rightarrow> nat \<times> byte list" where "field_16 off v = (off, le_bytes 2 v)"
definition field_32 :: "nat \<Rightarrow> u32 \<Rightarrow> nat \<times> byte list" where "field_32 off v = (off, le_bytes 4 v)"
definition field_zero :: "nat \<Rightarrow> nat \<Rightarrow> nat \<times> byte list" where "field_zero off n = (off, replicate n 0)"

definition alt_mem_k :: u32 where "alt_mem_k = high_ext_mem div 1024"

text \<open>The assignments of \<open>sysdeps_create_boot_params\<close> in their order.\<close>

definition boot_param_fields :: "boot_parms \<Rightarrow> u32 \<Rightarrow> u32 \<Rightarrow> u16 \<Rightarrow> (nat \<times> byte list) list" where
  "boot_param_fields bootparms ramdisk ramdisk_size cmdline_offset =
     [field_16 0x08 0, field_16 0x0C 0, field_zero 0x54 0x2C, field_zero 0xB2 0x10E, field_zero 0x1E4 0x0D,
      field_8 0x1FE 0, field_16 0x226 0,
      field_8 0x210 LDRTYPE_ELILO,
      field_16 0x20 CMDLINE_MAGIK, field_16 0x22 cmdline_offset, field_32 0x228 0,
      field_zero 0x80 0x10, field_zero 0x90 0x10,
      field_32 0x1E0 alt_mem_k,
      field_16 0x02 (if alt_mem_k \<le> 65535 then ucast alt_mem_k else 65535),
      field_16 0x1F8 0]
     @ (if ramdisk \<noteq> 0 \<and> ramdisk_size \<noteq> 0
        then [field_32 0x218 ramdisk, field_32 0x21C ramdisk_size, field_16 0x1FC 0x0100]
        else [field_32 0x218 0, field_32 0x21C 0])
     @ [field_16 0x40 0, field_16 0x42 0, field_32 0x44 0, field_16 0x48 0, field_16 0x4A 0, field_16 0x4C 0,
      field_32 0x4E 0, field_16 0x52 0,
      field_16 0xA0 0, field_zero 0xA2 0x10,
      field_8 0x1FF 0,
      (0x1C0, take 4 EFI_LOADER_SIG),
      field_32 0x214 kernel_start,
      field_8 0x00 0, field_8 0x01 24, field_16 0x04 0, field_8 0x06 3, field_8 0x07 80, field_8 0x0E 25,
      field_16 0x0A 0, field_8 0x0F 0, field_16 0x10 16,
      field_16 0x12 0, field_16 0x14 0, field_16 0x16 0, field_32 0x18 0, field_32 0x1C 0, field_16 0x24 0,
      field_8 0x26 0, field_8 0x27 0, field_8 0x28 0, field_8 0x29 0, field_8 0x2A 0, field_8 0x2B 0,
      field_8 0x2C 0, field_8 0x2D 0, field_16 0x32 0, field_16 0x2E 0, field_16 0x30 0,
      field_32 0x1D0 (efi_mem_map bootparms), field_32 0x1D4 (efi_mem_map_size bootparms),
      field_32 0x1C8 (efi_mem_desc_size bootparms), field_32 0x1CC (efi_mem_desc_ver bootparms),
      field_32 0x1C4 (efi_sys_tbl bootparms)]"

definition assign_fields :: "(nat \<times> byte list) list \<Rightarrow> byte list \<Rightarrow> byte list" where
  "assign_fields fs bp = fold (\<lambda>(off, bs) bp. put_bytes off bs bp) fs bp"

text \<open>The result is always 0; \<open>cmdline\<close> is the offset of the command line in \<open>bp\<close>.\<close>

definition sysdeps_create_boot_params :: "boot_parms \<Rightarrow> byte list \<Rightarrow> u32 \<Rightarrow> u32 \<Rightarrow> nat \<Rightarrow> int \<times> byte list" where
  "sysdeps_create_boot_params bootparms bp ramdisk ramdisk_size cmdline =
     (0, assign_fields (boot_param_fields bootparms ramdisk ramdisk_size (of_nat cmdline)) bp)"

section \<open>Entering the kernel\<close>

text \<open>The machine at the jump to the kernel.\<close>

record handoff =
  h_mem :: memory
  h_eip :: u32
  h_esi :: u32
  h_ebx :: u32
  h_gdtr :: "u16 \<times> u32"
  h_idtr :: "u16 \<times> u32"

definition start_kernel :: "u32 \<Rightarrow> byte list \<Rightarrow> memory \<Rightarrow> handoff" where
  "start_kernel kentry bp m =
     (let (m, bp) =
        (if field32 0x218 bp \<noteq> 0
         then (MEMCPY (15 * 1024 * 1024) (field32 0x218 bp) (field32 0x21C bp) m,
               put_bytes 0x218 (le_bytes 4 (15 * 1024 * 1024 :: u32)) bp)
         else (m, bp));
          m = store high_base_mem (bytes_at 0 0x4000 bp) m;
          m = MEMSET gdt_base (ucast gdt_limit) 0 m;
          m = store gdt_base (concat (map (le_bytes 2) init_gdt)) m
      in \<lparr>h_mem = m, h_eip = kentry, h_esi = high_base_mem, h_ebx = 0, h_gdtr = (gdt_limit, gdt_base), h_idtr = (0, 0)\<rparr>)"

datatype boot_result = Returned memory | Started handoff

definition boot_kernel ::
  "boot_parms \<Rightarrow> memory \<Rightarrow> u32 \<Rightarrow> u32 \<Rightarrow> u32 \<Rightarrow> u32 \<Rightarrow> byte list \<Rightarrow> boot_result option" where
  "boot_kernel bootparms m k k_len r r_len opts =
     (if m (k + 0x1FE) \<noteq> 0x55 \<or> m (k + 0x1FF) \<noteq> 0xAA then Some (Returned m)
      else do {
        let m = MEMSET kernel_start KERNEL_BUFFER 0 m;
        let offset = (ucast (m (k + 0x1F1)) + 1) * 512;
        let m = memcpy kernel_start (k + offset) (k_len - offset) m;
        let szBootSect = replicate BOOT_PARAM_MEMSIZE 0;
        szBootSect \<leftarrow> wr szBootSect 0 (load m k 0x2000);
        (_, szBootSect, _) \<leftarrow> sprintf szBootSect (BOOT_PARAM_MEMSIZE - 2048)
          (lit ''%s video=imacfb:appletv,width:%d,height:%d,linelength:%d,base:%d'')
          [Mem_arg (Some opts), Word_arg (width (video bootparms)), Word_arg (height (video bootparms)),
           Word_arg (rowb (video bootparms)), Word_arg (video_addr (video bootparms))];
        let (ret, szBootSect) = sysdeps_create_boot_params bootparms szBootSect r r_len (BOOT_PARAM_MEMSIZE - 2048);
        if ret = - 1 then None
        else Some (Started (start_kernel kernel_start szBootSect m))
      })"

section \<open>Loads and stores\<close>

lemma length_load [simp]: "length (load m a n) = n"
  by (simp add: load_def)

lemma nth_load [simp]: "i < n \<Longrightarrow> load m a n ! i = m (a + of_nat i)"
  by (simp add: load_def)

lemma load_append: "load m a (n + k) = load m a n @ load m (a + of_nat n) k"
proof (rule nth_equalityI)
  fix i assume "i < length (load m a (n + k))"
  moreover have "m (a + of_nat n + of_nat (i - n)) = m (a + of_nat i)" if "\<not> i < n"
  proof -
    have "i = n + (i - n)" using that by simp
    then show ?thesis by (metis add.assoc of_nat_add)
  qed
  ultimately show "load m a (n + k) ! i = (load m a n @ load m (a + of_nat n) k) ! i"
    by (cases "i < n") (simp_all add: nth_append del: of_nat_diff add_left_cancel add_right_cancel)
qed simp

lemma store_append: "store a (xs @ ys) m = store (a + of_nat (length xs)) ys (store a xs m)"
  by (induction xs arbitrary: a m) (simp_all add: algebra_simps)

lemma store_apply:
  "length bs \<le> 4294967296 \<Longrightarrow> store a bs m x = (if unat (x - a) < length bs then bs ! unat (x - a) else m x)"
proof (induction bs arbitrary: a m rule: rev_induct)
  case (snoc b bs)
  have l: "length bs < 2 ^ LENGTH(32)" using snoc.prems by simp
  have "x = a + of_nat (length bs) \<longleftrightarrow> unat (x - a) = length bs"
  proof
    assume "x = a + of_nat (length bs)"
    then show "unat (x - a) = length bs" using l by (simp add: unat_of_nat)
  next
    assume "unat (x - a) = length bs"
    then have "x - a = of_nat (length bs)" by (simp flip: \<open>unat (x - a) = length bs\<close>)
    then show "x = a + of_nat (length bs)" by (simp add: algebra_simps)
  qed
  with snoc show ?case by (auto simp: store_append nth_append)
qed simp

lemma load_store_same: "length bs \<le> 4294967296 \<Longrightarrow> load (store a bs m) a (length bs) = bs"
  by (rule nth_equalityI) (auto simp: store_apply unat_of_nat)

text \<open>Areas that do not wrap around and do not overlap.\<close>

definition apart :: "u32 \<Rightarrow> nat \<Rightarrow> u32 \<Rightarrow> nat \<Rightarrow> bool" where
  "apart a n b k \<longleftrightarrow> unat a + n \<le> 4294967296 \<and> unat b + k \<le> 4294967296
     \<and> (unat a + n \<le> unat b \<or> unat b + k \<le> unat a)"

lemma unat_offset: "unat a + n \<le> 4294967296 \<Longrightarrow> i < n \<Longrightarrow> unat (a + of_nat i :: u32) = unat a + i"
  by (simp add: unat_word_ariths unat_of_nat)

lemma store_outside:
  assumes "unat b + length bs \<le> 4294967296" "unat x < unat b \<or> unat b + length bs \<le> unat x"
  shows "store b bs m x = m x"
proof -
  have "\<not> unat (x - b) < length bs"
  proof
    assume l: "unat (x - b) < length bs"
    have "x = b + of_nat (unat (x - b))" by simp
    then have "unat x = unat b + unat (x - b)" using unat_offset [OF assms(1) l] by simp
    with l assms(2) show False by simp
  qed
  then show ?thesis using assms(1) by (simp add: store_apply)
qed

lemma load_store_apart: "apart a n b (length bs) \<Longrightarrow> load (store b bs m) a n = load m a n"
proof (rule nth_equalityI)
  fix i assume a: "apart a n b (length bs)" and "i < length (load (store b bs m) a n)"
  then have i: "i < n" by simp
  have "unat (a + of_nat i) = unat a + i" using a i by (intro unat_offset) (auto simp: apart_def)
  with a i show "load (store b bs m) a n ! i = load m a n ! i"
    by (auto simp: apart_def intro!: store_outside)
qed simp

lemma load_part: "off + n \<le> k \<Longrightarrow> load m (a + of_nat off) n = bytes_at off n (load m a k)"
  by (rule nth_equalityI) (auto simp: add.assoc simp flip: of_nat_add)


section \<open>Copying and filling by the byte\<close>

text \<open>A forward copy that has moved \<open>n\<close> bytes of an area that it does not overwrite.\<close>

definition copied :: "u32 \<Rightarrow> u32 \<Rightarrow> nat \<Rightarrow> memory \<Rightarrow> u32 \<times> u32 \<times> memory" where
  "copied to from n m = (to + of_nat n, from + of_nat n, store to (load m from n) m)"

lemma apart_parts: "apart a n b k \<Longrightarrow> n' \<le> n \<Longrightarrow> k' \<le> k \<Longrightarrow> apart a n' b k'"
  by (auto simp: apart_def)

lemma apart_offset: "apart a n b k \<Longrightarrow> i + j \<le> n \<Longrightarrow> 0 < j \<Longrightarrow> k' \<le> k \<Longrightarrow> apart (a + of_nat i) j b k'"
  using unat_offset [of a n i] by (auto simp: apart_def)

lemma load_copied:
  assumes "apart from (n + w) to n"
  shows "load (store to (load m from n) m) (from + of_nat n) w = load m (from + of_nat n) w"
proof (cases "w = 0")
  case False
  with assms have "apart (from + of_nat n) w to (length (load m from n))"
    by (auto intro: apart_offset)
  then show ?thesis by (rule load_store_apart)
qed (simp add: load_def)

lemma movs_copied:
  assumes "apart from (n + w) to n"
  shows "movs w (copied to from n m) = copied to from (n + w) m"
  using load_copied [OF assms]
  by (simp add: movs_def copied_def load_append store_append algebra_simps)

lemma rep_movs_copied:
  "apart from (n + w * k) to (n + w * k) \<Longrightarrow> rep_movs w k (copied to from n m) = copied to from (n + w * k) m"
proof (induction k arbitrary: n)
  case (Suc k)
  have "apart from (n + w) to n" using Suc.prems by (rule apart_parts) simp_all
  moreover have "n + w + w * k = n + w * Suc k" by simp
  ultimately show ?case using Suc.IH [of "n + w"] Suc.prems by (simp only: movs_copied rep_movs.simps)
qed simp

lemma memcpy_copies:
  assumes "apart from (unat n) to (unat n)"
  shows "memcpy to from n m = store to (load m from (unat n)) m"
proof -
  let ?k = "4 * unat (n div 4)"
  have q: "unat n = ?k + 2 * (unat n div 2 mod 2) + unat n mod 2"
    by (simp add: unat_div) presburger
  have "bit n 1 \<longleftrightarrow> bit (unat n) 1" "bit n 0 \<longleftrightarrow> bit (unat n) 0" by (simp_all add: bit_unsigned_iff)
  then have n2: "n AND 2 \<noteq> 0 \<longleftrightarrow> unat n div 2 mod 2 = 1" and n1: "n AND 1 \<noteq> 0 \<longleftrightarrow> unat n mod 2 = 1"
    using and_exp_eq_0_iff_not_bit [of n 1] and_exp_eq_0_iff_not_bit [of n 0]
    by (simp_all add: bit_iff_odd odd_iff_mod_2_eq_one)
  let ?s = "rep_movs 4 (unat (n div 4)) (copied to from 0 m)"
  have s1: "?s = copied to from ?k m"
    using rep_movs_copied [of "from" 0 4 "unat (n div 4)" to m] apart_parts [OF assms, of ?k ?k] q by simp
  let ?i = "?k + 2 * (unat n div 2 mod 2)"
  have s2: "(if n AND 2 \<noteq> 0 then movs 2 ?s else ?s) = copied to from ?i m"
    unfolding s1 n2 using movs_copied [of "from" ?k 2 to m] apart_parts [OF assms, of "?k + 2" ?k] q by auto
  have "(if n AND 1 \<noteq> 0 then movs 1 (copied to from ?i m) else copied to from ?i m) = copied to from (unat n) m"
    unfolding n1 using movs_copied [of "from" ?i 1 to m] apart_parts [OF assms, of "?i + 1" ?i] q by auto
  moreover have "(to, from, m) = copied to from 0 m" by (simp add: copied_def load_def)
  ultimately show ?thesis unfolding memcpy_def Let_def by (simp only: s2) (simp add: copied_def)
qed

lemma MEMCPY_loop_copies:
  "apart from (n + k) to (n + k) \<Longrightarrow>
   MEMCPY_loop k (to + of_nat n) (from + of_nat n) (store to (load m from n) m) = store to (load m from (n + k)) m"
proof (induction k arbitrary: n)
  case (Suc k)
  have "apart from (n + 1) to n" using Suc.prems by (rule apart_parts) simp_all
  from load_copied [OF this, of m] have "store to (load m from n) m (from + of_nat n) = m (from + of_nat n)"
    by (simp add: load_def)
  then have "(store to (load m from n) m)(to + of_nat n := store to (load m from n) m (from + of_nat n)) =
      store to (load m from (n + 1)) m"
    unfolding load_append store_append by (simp add: load_def [of _ _ "Suc 0"])
  with Suc.IH [of "n + 1"] Suc.prems show ?case by (simp add: algebra_simps)
qed simp

lemma MEMCPY_copies:
  assumes "apart from (unat n) to (unat n)" "to \<noteq> 0" "from \<noteq> 0"
  shows "MEMCPY to from n m = store to (load m from (unat n)) m"
  using MEMCPY_loop_copies [of "from" 0 "unat n" to m] assms by (auto simp: MEMCPY_def load_def)

lemma MEMSET_loop_fills: "MEMSET_loop n p v m = store p (replicate n v) m"
  by (induction n arbitrary: p m) simp_all

lemma MEMSET_fills: "p \<noteq> 0 \<Longrightarrow> MEMSET p n v m = store p (replicate (unat n) v) m"
  by (auto simp: MEMSET_def MEMSET_loop_fills)

lemma memset_fills: "memset s c n m = store s (replicate (unat n) (ucast c)) m"
proof -
  have "rep_stosb v k s m = store s (replicate k v) m" for v k
    by (induction k arbitrary: s m) simp_all
  then show ?thesis by (simp add: memset_def)
qed

text \<open>
  \<open>memcpy\<close>, which moves double words, then a word and a byte, is the byte loop of the macro
  \<open>MEMCPY\<close>: it copies exactly \<open>n\<close> bytes between areas that do not overlap and changes nothing else.\<close>

theorem memcpy_is_byte_copy:
  assumes "apart from (unat n) to (unat n)" "to \<noteq> 0" "from \<noteq> 0"
  shows "memcpy to from n m = MEMCPY to from n m \<and> load (memcpy to from n m) to (unat n) = load m from (unat n)
    \<and> (\<forall>a k. apart a k to (unat n) \<longrightarrow> load (memcpy to from n m) a k = load m a k)"
proof -
  have "unat n \<le> 4294967296" using unat_u32_less [of n] by simp
  then show ?thesis using load_store_same [of "load m from (unat n)" to m]
    by (simp add: memcpy_copies [OF assms(1)] MEMCPY_copies [OF assms] load_store_apart)
qed

theorem memcpy_is_byte_copy_witness:
  "memcpy 0x2000 0x1000 7 (\<lambda>a. ucast a) = MEMCPY 0x2000 0x1000 7 (\<lambda>a. ucast a)"
  using memcpy_is_byte_copy [of "0x1000" 7 "0x2000" "\<lambda>a. ucast a"] by (simp add: apart_def)

section \<open>The fields of the boot parameters\<close>

definition range_of :: "nat \<times> byte list \<Rightarrow> nat \<times> nat" where
  "range_of f = (fst f, length (snd f))"

fun separate :: "nat \<times> nat \<Rightarrow> nat \<times> nat \<Rightarrow> bool" where
  "separate (a, n) (b, k) \<longleftrightarrow> a + n \<le> b \<or> b + k \<le> a"

definition fields_fit :: "nat \<Rightarrow> (nat \<times> byte list) list \<Rightarrow> bool" where
  "fields_fit n fs \<longleftrightarrow> list_all (\<lambda>(a, k). a + k \<le> n) (map range_of fs)"

lemma assign_fields_Nil [simp]: "assign_fields [] bp = bp"
  by (simp add: assign_fields_def)

lemma assign_fields_Cons [simp]: "assign_fields ((off, bs) # fs) bp = assign_fields fs (put_bytes off bs bp)"
  by (simp add: assign_fields_def)

lemma length_assign_fields: "fields_fit (length bp) fs \<Longrightarrow> length (assign_fields fs bp) = length bp"
  by (induction fs arbitrary: bp) (auto simp: fields_fit_def range_of_def)

lemma bytes_at_put_separate:
  assumes "separate (a, n) (off, length ys)" "off + length ys \<le> length xs"
  shows "bytes_at a n (put_bytes off ys xs) = bytes_at a n xs"
proof (cases "a + n \<le> off")
  case True
  then show ?thesis using assms(2) by (rule bytes_at_put_before)
next
  case False
  then obtain d where "a = off + length ys + d" using assms(1) by (auto simp: le_iff_add)
  then show ?thesis using assms(2) by (simp add: bytes_at_def put_bytes_def add.commute)
qed

lemma assign_fields_kept:
  "fields_fit (length bp) fs \<Longrightarrow> list_all (separate (a, n)) (map range_of fs) \<Longrightarrow>
   bytes_at a n (assign_fields fs bp) = bytes_at a n bp"
  by (induction fs arbitrary: bp) (auto simp: fields_fit_def range_of_def bytes_at_put_separate simp del: separate.simps)

lemma assign_fields_read:
  "fields_fit (length bp) fs \<Longrightarrow> sorted_wrt separate (map range_of fs) \<Longrightarrow> (off, bs) \<in> set fs \<Longrightarrow>
   bytes_at off (length bs) (assign_fields fs bp) = bs"
proof (induction fs arbitrary: bp)
  case (Cons f fs)
  obtain o' b' where f: "f = (o', b')" by (cases f)
  have fit: "fields_fit (length (put_bytes o' b' bp)) fs" and l: "o' + length b' \<le> length bp"
    using Cons.prems(1) by (auto simp: fields_fit_def range_of_def f)
  show ?case
  proof (cases "(off, bs) \<in> set fs")
    case True
    with Cons fit f show ?thesis by simp
  next
    case False
    then have "off = o'" "bs = b'" using Cons.prems(3) f by auto
    moreover have "list_all (separate (o', length b')) (map range_of fs)"
      using Cons.prems(2) by (simp add: f range_of_def list_all_iff)
    ultimately show ?thesis using fit l by (simp add: f assign_fields_kept bytes_at_put_same)
  qed
qed simp

text \<open>The places of the fields depend only on whether there is a ramdisk.\<close>

definition boot_ranges :: "bool \<Rightarrow> (nat \<times> nat) list" where
  "boot_ranges b =
     [(0x08, 2), (0x0C, 2), (0x54, 0x2C), (0xB2, 0x10E), (0x1E4, 0x0D), (0x1FE, 1), (0x226, 2), (0x210, 1),
      (0x20, 2), (0x22, 2), (0x228, 4), (0x80, 0x10), (0x90, 0x10), (0x1E0, 4), (0x02, 2), (0x1F8, 2)]
     @ (if b then [(0x218, 4), (0x21C, 4), (0x1FC, 2)] else [(0x218, 4), (0x21C, 4)])
     @ [(0x40, 2), (0x42, 2), (0x44, 4), (0x48, 2), (0x4A, 2), (0x4C, 2), (0x4E, 4), (0x52, 2), (0xA0, 2),
      (0xA2, 0x10), (0x1FF, 1), (0x1C0, 4), (0x214, 4), (0x00, 1), (0x01, 1), (0x04, 2), (0x06, 1),
      (0x07, 1), (0x0E, 1), (0x0A, 2), (0x0F, 1), (0x10, 2), (0x12, 2), (0x14, 2), (0x16, 2), (0x18, 4),
      (0x1C, 4), (0x24, 2), (0x26, 1), (0x27, 1), (0x28, 1), (0x29, 1), (0x2A, 1), (0x2B, 1), (0x2C, 1),
      (0x2D, 1), (0x32, 2), (0x2E, 2), (0x30, 2), (0x1D0, 4), (0x1D4, 4), (0x1C8, 4), (0x1CC, 4), (0x1C4, 4)]"

lemmas field_bytes = field_8_def field_16_def field_32_def field_zero_def

lemma range_of_field:
  "range_of (field_8 off v8) = (off, 1)" "range_of (field_16 off v16) = (off, 2)"
  "range_of (field_32 off v32) = (off, 4)" "range_of (field_zero off n) = (off, n)"
  "range_of (off, bs) = (off, length bs)"
  by (simp_all add: range_of_def field_bytes del: le_bytes_numeral)

lemma boot_param_ranges: "map range_of (boot_param_fields bpar r sz c) = boot_ranges (r \<noteq> 0 \<and> sz \<noteq> 0)"
proof -
  have "length (take 4 EFI_LOADER_SIG) = 4" by (simp add: EFI_LOADER_SIG_def lit_def)
  then show ?thesis
    by (cases "r \<noteq> 0 \<and> sz \<noteq> 0")
      (simp_all only: boot_ranges_def boot_param_fields_def map_append list.map range_of_field if_True if_False simp_thms not_False_eq_True not_True_eq_False)
qed

definition header_ranges :: "(nat \<times> nat) list" where
  "header_ranges = [(0x1F1, 7), (0x1FA, 2), (0x200, 16), (0x211, 3), (0x220, 6)]"

lemma boot_ranges_checked:
  "sorted_wrt separate (boot_ranges b)" "list_all (\<lambda>(a, k). a + k \<le> 0x22C) (boot_ranges b)"
  "list_all (\<lambda>r. list_all (separate r) (boot_ranges b)) header_ranges"
  unfolding boot_ranges_def header_ranges_def by (cases b; simp)+

lemma boot_params_assigned:
  assumes "0x22C \<le> length bp"
  shows "(off, bs) \<in> set (boot_param_fields bpar r sz c) \<Longrightarrow>
      bytes_at off (length bs) (assign_fields (boot_param_fields bpar r sz c) bp) = bs"
    and "(a, n) \<in> set header_ranges \<Longrightarrow>
      bytes_at a n (assign_fields (boot_param_fields bpar r sz c) bp) = bytes_at a n bp"
    and "length (assign_fields (boot_param_fields bpar r sz c) bp) = length bp"
proof -
  have fit: "fields_fit (length bp) (boot_param_fields bpar r sz c)"
    using boot_ranges_checked(2) [of "r \<noteq> 0 \<and> sz \<noteq> 0"] assms
    unfolding fields_fit_def boot_param_ranges by (auto simp: list_all_iff)
  show "bytes_at off (length bs) (assign_fields (boot_param_fields bpar r sz c) bp) = bs"
    if "(off, bs) \<in> set (boot_param_fields bpar r sz c)"
    using fit _ that by (rule assign_fields_read) (simp only: boot_param_ranges boot_ranges_checked(1))
  show "bytes_at a n (assign_fields (boot_param_fields bpar r sz c) bp) = bytes_at a n bp" if "(a, n) \<in> set header_ranges"
    using fit by (rule assign_fields_kept)
      (use that boot_ranges_checked(3) [of "r \<noteq> 0 \<and> sz \<noteq> 0"] in \<open>simp only: boot_param_ranges list_all_iff, blast\<close>)
  show "length (assign_fields (boot_param_fields bpar r sz c) bp) = length bp"
    by (rule length_assign_fields [OF fit])
qed

lemma boot_params_fields:
  fixes bpar :: boot_parms and r sz :: u32 and c :: u16
  assumes "0x22C \<le> length bp"
  defines "bp' \<equiv> assign_fields (boot_param_fields bpar r sz c) bp"
  shows "field_32 off v32 \<in> set (boot_param_fields bpar r sz c) \<Longrightarrow> field32 off bp' = v32"
    and "field_16 off v16 \<in> set (boot_param_fields bpar r sz c) \<Longrightarrow> field16 off bp' = v16"
    and "field_8 off v8 \<in> set (boot_param_fields bpar r sz c) \<Longrightarrow> bytes_at off 1 bp' = [v8]"
proof -
  note rd = boot_params_assigned(1) [OF assms(1), of _ _ bpar r sz c, folded bp'_def]
  show "field32 off bp' = v32" if "field_32 off v32 \<in> set (boot_param_fields bpar r sz c)"
    using rd [of off "le_bytes 4 v32"] that
    by (simp add: field_32_def field32_def le_word_le_bytes del: le_bytes_numeral)
  show "field16 off bp' = v16" if "field_16 off v16 \<in> set (boot_param_fields bpar r sz c)"
    using rd [of off "le_bytes 2 v16"] that
    by (simp add: field_16_def field16_def le_word_le_bytes del: le_bytes_numeral)
  show "bytes_at off 1 bp' = [v8]" if "field_8 off v8 \<in> set (boot_param_fields bpar r sz c)"
    using rd [of off "[v8]"] that by (simp add: field_8_def)
qed

text \<open>
  C24: \<open>sysdeps_create_boot_params\<close> leaves its values in the fields (loader type, command line, kernel
  and ramdisk address, memory size, EFI tables), although it assigns more than sixty fields of a
  packed union one after the other, and keeps what the kernel image says of itself: its sectors,
  root flags, sizes and video mode, the header signature and version, the load flags and the heap.\<close>

theorem boot_params_set_and_kept:
  assumes "0x22C \<le> length bp" "cmdline < 65536"
  shows "\<exists>bp'. sysdeps_create_boot_params bpar bp r sz cmdline = (0, bp') \<and> length bp' = length bp
    \<and> bytes_at 0x210 1 bp' = [LDRTYPE_ELILO]
    \<and> field16 0x20 bp' = CMDLINE_MAGIK \<and> unat (field16 0x22 bp') = cmdline \<and> field32 0x228 bp' = 0
    \<and> field32 0x214 bp' = kernel_start \<and> field32 0x1E0 bp' = 32768 \<and> field16 0x02 bp' = 32768
    \<and> field32 0x218 bp' = (if r \<noteq> 0 \<and> sz \<noteq> 0 then r else 0) \<and> field32 0x21C bp' = (if r \<noteq> 0 \<and> sz \<noteq> 0 then sz else 0)
    \<and> field32 0x1D0 bp' = efi_mem_map bpar \<and> field32 0x1D4 bp' = efi_mem_map_size bpar
    \<and> field32 0x1C8 bp' = efi_mem_desc_size bpar \<and> field32 0x1CC bp' = efi_mem_desc_ver bpar
    \<and> field32 0x1C4 bp' = efi_sys_tbl bpar
    \<and> (\<forall>(a, n) \<in> set header_ranges. bytes_at a n bp' = bytes_at a n bp)"
proof -
  let ?fs = "boot_param_fields bpar r sz (of_nat cmdline)" let ?bp = "assign_fields ?fs bp"
  note f = boot_params_fields [OF assms(1), of _ _ bpar r sz "of_nat cmdline"]
  have alt: "alt_mem_k = 32768" by (simp add: alt_mem_k_def high_ext_mem_def)
  have mem: "field_8 0x210 LDRTYPE_ELILO \<in> set ?fs" "field_16 0x20 CMDLINE_MAGIK \<in> set ?fs"
    "field_16 0x22 (of_nat cmdline) \<in> set ?fs" "field_32 0x228 0 \<in> set ?fs" "field_32 0x214 kernel_start \<in> set ?fs"
    "field_32 0x1E0 32768 \<in> set ?fs" "field_16 0x02 32768 \<in> set ?fs"
    "field_32 0x218 (if r \<noteq> 0 \<and> sz \<noteq> 0 then r else 0) \<in> set ?fs"
    "field_32 0x21C (if r \<noteq> 0 \<and> sz \<noteq> 0 then sz else 0) \<in> set ?fs"
    "field_32 0x1D0 (efi_mem_map bpar) \<in> set ?fs" "field_32 0x1D4 (efi_mem_map_size bpar) \<in> set ?fs"
    "field_32 0x1C8 (efi_mem_desc_size bpar) \<in> set ?fs" "field_32 0x1CC (efi_mem_desc_ver bpar) \<in> set ?fs"
    "field_32 0x1C4 (efi_sys_tbl bpar) \<in> set ?fs"
    by (simp_all add: boot_param_fields_def alt)
  have "\<forall>(a, n) \<in> set header_ranges. bytes_at a n ?bp = bytes_at a n bp"
    using boot_params_assigned(2) [OF assms(1)] by blast
  moreover have "unat (of_nat cmdline :: u16) = cmdline" using assms(2) by (simp add: unat_of_nat)
  ultimately show ?thesis
    using f(1) [OF mem(4)] f(1) [OF mem(5)] f(1) [OF mem(6)] f(2) [OF mem(7)] f(1) [OF mem(8)] f(1) [OF mem(9)]
      f(1) [OF mem(10)] f(1) [OF mem(11)] f(1) [OF mem(12)] f(1) [OF mem(13)] f(1) [OF mem(14)]
      f(3) [OF mem(1)] f(2) [OF mem(2)] f(2) [OF mem(3)] boot_params_assigned(3) [OF assms(1)]
    by (intro exI [of _ ?bp]) (simp only: sysdeps_create_boot_params_def simp_thms)
qed

definition sample_parms :: boot_parms where
  "sample_parms = \<lparr>efi_mem_map = 0x1000, efi_mem_map_size = 96, efi_mem_desc_size = 48, efi_mem_desc_ver = 1,
     video = \<lparr>video_addr = 0x80000000, rowb = 5120, width = 1280, height = 720\<rparr>, efi_sys_tbl = 0x2000\<rparr>"

theorem boot_params_set_and_kept_witness:
  "\<exists>bp'. sysdeps_create_boot_params sample_parms (replicate 0x4000 0) 0x500000 4096 14336 = (0, bp') \<and> field32 0x218 bp' = 0x500000"
  using boot_params_set_and_kept [of "replicate 0x4000 0" 14336 sample_parms "0x500000" 4096] by auto

section \<open>What the kernel finds\<close>

text \<open>The command line, and the number of bytes of the image before the kernel proper.\<close>

definition cmdline_pieces :: "viedo_parms \<Rightarrow> byte list \<Rightarrow> piece list" where
  "cmdline_pieces v t =
     Text t [] # map Char (map of_char '' video=imacfb:appletv,width:'') @ Decimal (width v)
     # map Char (map of_char '',height:'') @ Decimal (height v)
     # map Char (map of_char '',linelength:'') @ Decimal (rowb v)
     # map Char (map of_char '',base:'') @ [Decimal (video_addr v)]"

definition cmdline_text :: "viedo_parms \<Rightarrow> byte list \<Rightarrow> byte list" where
  "cmdline_text v t = pieces_text (cmdline_pieces v t)"

definition setup_size :: "byte list \<Rightarrow> nat" where
  "setup_size img = (unat (img ! 0x1F1) + 1) * 512"

text \<open>
  The state in which a kernel is entered: the kernel proper at its entry point, \<open>%esi\<close> at a boot
  sector with the header of the image, the command line where the header says it is, and likewise
  the ramdisk, with flat code and data segments in the descriptor table.
\<close>

definition entered :: "byte list \<Rightarrow> byte list \<Rightarrow> byte list \<Rightarrow> handoff \<Rightarrow> bool" where
  "entered img rdisk cmdl h \<longleftrightarrow>
     (let m = h_mem h; bs = load m (h_esi h) 0x4000 in
        h_ebx h = 0
      \<and> load m (h_eip h) (length img - setup_size img) = drop (setup_size img) img
      \<and> (\<forall>(a, n) \<in> set header_ranges. bytes_at a n bs = bytes_at a n img)
      \<and> field16 0x20 bs = CMDLINE_MAGIK
      \<and> bytes_at (unat (field16 0x22 bs)) (length cmdl + 1) bs = cmdl @ [0]
      \<and> field32 0x214 bs = h_eip h
      \<and> (if rdisk = [] then field32 0x218 bs = 0 \<and> field32 0x21C bs = 0
         else load m (field32 0x218 bs) (unat (field32 0x21C bs)) = rdisk)
      \<and> load m (snd (h_gdtr h)) 32 = concat (map (le_bytes 2) init_gdt))"

text \<open>A bzImage whose kernel proper fits into the kernel buffer.\<close>

definition bzimage :: "byte list \<Rightarrow> bool" where
  "bzimage img \<longleftrightarrow> 0x2000 \<le> length img \<and> img ! 0x1FE = 0x55 \<and> img ! 0x1FF = 0xAA
     \<and> setup_size img < length img \<and> length img - setup_size img \<le> unat KERNEL_BUFFER"

lemma cmdline_pieces_ok: "0 \<notin> set t \<Longrightarrow> length t < 1024 \<Longrightarrow> list_all piece_ok (cmdline_pieces v t)"
  by (simp add: cmdline_pieces_def)

lemma cmdline_format:
  "pieces_format (cmdline_pieces v t) = lit ''%s video=imacfb:appletv,width:%d,height:%d,linelength:%d,base:%d''"
  by (simp add: cmdline_pieces_def pieces_format_def lit_def)

lemma cmdline_args:
  "pieces_args (cmdline_pieces v t) =
    [Mem_arg (Some (t @ [0])), Word_arg (width v), Word_arg (height v), Word_arg (rowb v), Word_arg (video_addr v)]"
  by (simp add: cmdline_pieces_def pieces_args_def)

lemma length_cmdline: "length t < 1024 \<Longrightarrow> length (cmdline_text v t) < 2048"
  using length_decimal [of "width v"] length_decimal [of "height v"] length_decimal [of "rowb v"] length_decimal [of "video_addr v"]
  by (simp add: cmdline_text_def cmdline_pieces_def pieces_text_def)

lemma cmdline_printed:
  assumes "0 \<notin> set t" "length t < 1024" "length bs = 16384"
  shows "sprintf bs 14336 (lit ''%s video=imacfb:appletv,width:%d,height:%d,linelength:%d,base:%d'')
      [Mem_arg (Some (t @ [0])), Word_arg (width v), Word_arg (height v), Word_arg (rowb v), Word_arg (video_addr v)] =
    Some (int (length (cmdline_text v t)), put_bytes 14336 (cmdline_text v t @ [0]) bs, [])"
proof -
  have "14336 + length (cmdline_text v t) < length bs" using length_cmdline [OF assms(2), of v] assms(3) by simp
  then show ?thesis
    using vs_run_pieces [OF cmdline_pieces_ok [OF assms(1,2)], of 14336 bs _ v] assms(3)
    unfolding cmdline_format cmdline_args by (simp add: sprintf_def vsprintf_def cmdline_text_def)
qed

lemma apart_sym: "apart a n b k \<longleftrightarrow> apart b k a n"
  by (auto simp: apart_def)

lemmas boot_places = kernel_start_def KERNEL_BUFFER_def high_base_mem_def gdt_base_def gdt_limit_def

text \<open>The kernel image through the clearing of its buffer and the copy of the kernel proper.\<close>

lemma image_kept:
  assumes "load m k (length img) = img" "apart k (length img) 0x100000 0x400000" "length bs \<le> 0x400000"
  shows "load (store 0x100000 bs m) k (length img) = img"
  using assms by (subst load_store_apart) (auto intro: apart_parts)

lemma image_byte: "load m k (length img) = img \<Longrightarrow> i < length img \<Longrightarrow> m (k + of_nat i) = img ! i"
  by (metis nth_load)

lemma boot_kernel_runs:
  fixes bpar :: boot_parms
  assumes "load m k (length img) = img" "apart k (length img) 0x100000 0x400000" "bzimage img"
    and "0 \<notin> set t" "length t < 1024"
  defines "bs \<equiv> put_bytes 14336 (cmdline_text (video bpar) t @ [0]) (take 0x2000 img @ replicate 0x2000 0)"
  shows "boot_kernel bpar m k (of_nat (length img)) r r_len (t @ [0]) =
    Some (Started (start_kernel kernel_start (assign_fields (boot_param_fields bpar r r_len 14336) bs)
      (store 0x100000 (drop (setup_size img) img) (store 0x100000 (replicate 0x400000 0) m))))"
proof -
  let ?n = "length img - setup_size img" and ?len = "of_nat (length img) :: u32" and ?skip = "of_nat (setup_size img) :: u32"
  let ?m1 = "store 0x100000 (replicate 0x400000 0) m"
  let ?m2 = "store 0x100000 (drop (setup_size img) img) ?m1"
  have i: "0x2000 \<le> length img" "setup_size img < length img" "?n \<le> 0x400000" "img ! 0x1FE = 0x55" "img ! 0x1FF = 0xAA"
    using assms(3) by (auto simp: bzimage_def KERNEL_BUFFER_def)
  have b: "unat k + length img \<le> 4294967296" using assms(2) by (simp add: apart_def)
  have m: "m (k + 0x1FE) = 0x55" "m (k + 0x1FF) = 0xAA"
    using image_byte [OF assms(1), of "0x1FE"] image_byte [OF assms(1), of "0x1FF"] i by simp_all
  have l1: "load ?m1 k (length img) = img" using assms(1,2) by (rule image_kept) simp
  have l2: "load ?m2 k (length img) = img" using l1 assms(2) by (rule image_kept) (use i in simp)
  have clear: "MEMSET kernel_start KERNEL_BUFFER 0 m = ?m1" by (simp add: MEMSET_fills boot_places)
  have hdr: "(ucast (?m1 (k + 0x1F1)) + 1) * 512 = ?skip"
    using image_byte [OF l1, of "0x1F1"] i by (simp add: setup_size_def)
  have "?len - ?skip = of_nat ?n" using i(2) by (simp add: of_nat_diff)
  then have n: "unat (?len - ?skip) = ?n" using i(3) by (simp add: unat_of_nat del: of_nat_diff)
  have "apart (k + of_nat (setup_size img)) ?n 0x100000 ?n"
    using assms(2) by (rule apart_offset) (use i in auto)
  then have "memcpy 0x100000 (k + ?skip) (?len - ?skip) ?m1 = store 0x100000 (load ?m1 (k + ?skip) ?n) ?m1"
    using memcpy_copies [of "k + ?skip" "?len - ?skip" "0x100000" ?m1] n by simp
  also have "load ?m1 (k + ?skip) ?n = drop (setup_size img) img"
    using load_part [of "setup_size img" ?n "length img" ?m1 k] l1 i by (simp add: bytes_at_def)
  finally have copy: "memcpy 0x100000 (k + ?skip) (?len - ?skip) ?m1 = ?m2" .
  have "load ?m2 k 0x2000 = take 0x2000 img"
    using load_part [of 0 "0x2000" "length img" ?m2 k] l2 i by (simp add: bytes_at_def)
  then have sect: "wr (replicate 16384 0) 0 (load ?m2 k 0x2000) = Some (take 0x2000 img @ replicate 0x2000 0)"
    using i by (simp add: wr_def)
  have cmd: "sprintf (take 0x2000 img @ replicate 0x2000 0) 14336 (lit ''%s video=imacfb:appletv,width:%d,height:%d,linelength:%d,base:%d'')
      [Mem_arg (Some (t @ [0])), Word_arg (width (video bpar)), Word_arg (height (video bpar)), Word_arg (rowb (video bpar)),
       Word_arg (video_addr (video bpar))] = Some (int (length (cmdline_text (video bpar) t)), bs, [])"
    unfolding bs_def using cmdline_printed [OF assms(4,5), of "take 0x2000 img @ replicate 0x2000 0" "video bpar"] i by simp
  show ?thesis
    unfolding boot_kernel_def clear Let_def hdr BOOT_PARAM_MEMSIZE_def sysdeps_create_boot_params_def
    by (simp add: m kernel_start_def copy sect cmd del: replicate_numeral)
qed

text \<open>The four areas that \<open>start_kernel\<close> and \<open>boot_kernel\<close> write do not overlap.\<close>

lemma final_places:
  fixes m :: memory
  assumes "length krn \<le> 0x400000" "unat (0xF00000 :: u32) + length rdk \<le> 4294967296" "length b = 0x4000" "length g = 32"
  defines "m' \<equiv> store 0x94000 g (store 0x94000 (replicate 0x800 0) (store 0x90000 b (store 0xF00000 rdk (store 0x100000 krn m))))"
  shows "load m' 0x100000 (length krn) = krn" "load m' 0xF00000 (length rdk) = rdk" "load m' 0x90000 0x4000 = b"
    "load m' 0x94000 32 = g"
proof -
  show "load m' 0x94000 32 = g" unfolding m'_def using load_store_same [of g] assms(4) by simp
  show "load m' 0x90000 0x4000 = b" unfolding m'_def using load_store_same [of b] assms(3,4)
    by (simp add: load_store_apart apart_def)
  show "load m' 0xF00000 (length rdk) = rdk" unfolding m'_def using load_store_same [of rdk] assms(2-4)
    by (simp add: load_store_apart apart_def)
  show "load m' 0x100000 (length krn) = krn" unfolding m'_def using load_store_same [of krn] assms
    by (simp add: load_store_apart apart_def)
qed

lemma boot_sector_tail:
  assumes "0x22C \<le> length bs" "0x22C \<le> a"
  shows "bytes_at a n (assign_fields (boot_param_fields bpar r sz c) bs) = bytes_at a n bs"
proof (rule assign_fields_kept)
  note lim = boot_ranges_checked(2) [of "r \<noteq> 0 \<and> sz \<noteq> 0"]
  show "fields_fit (length bs) (boot_param_fields bpar r sz c)"
    using lim assms(1) unfolding fields_fit_def boot_param_ranges by (auto simp: list_all_iff)
  show "list_all (separate (a, n)) (map range_of (boot_param_fields bpar r sz c))"
    using lim assms(2) unfolding boot_param_ranges by (fastforce simp: list_all_iff)
qed

text \<open>The boot sector at the hand-over: the address of the ramdisk is that of its final place.\<close>

definition final_sector :: "byte list \<Rightarrow> byte list \<Rightarrow> byte list" where
  "final_sector rdk b = (if rdk = [] then b else put_bytes 0x218 (le_bytes 4 (0xF00000 :: u32)) b)"

lemma final_sector_kept:
  assumes "separate (a, n) (0x218, 4)" "0x22C \<le> length b"
  shows "bytes_at a n (final_sector rdk b) = bytes_at a n b" "length (final_sector rdk b) = length b"
  using assms bytes_at_put_separate [of a n "0x218" "le_bytes 4 (0xF00000 :: u32)" b]
  by (simp_all add: final_sector_def del: le_bytes_numeral separate.simps)

lemma start_kernel_runs:
  assumes "load m r (length rdk) = rdk" "apart r (length rdk) 0xF00000 (length rdk)" "rdk \<noteq> [] \<longrightarrow> r \<noteq> 0"
    and "field32 0x218 b = (if rdk = [] then 0 else r)" "field32 0x21C b = of_nat (length rdk)" "length b = 0x4000"
  shows "start_kernel kernel_start b m =
    \<lparr>h_mem = store 0x94000 (concat (map (le_bytes 2) init_gdt)) (store 0x94000 (replicate 0x800 0)
       (store 0x90000 (final_sector rdk b) (store 0xF00000 rdk m))),
     h_eip = 0x100000, h_esi = 0x90000, h_ebx = 0, h_gdtr = (0x800, 0x94000), h_idtr = (0, 0)\<rparr>"
proof -
  have l: "length rdk < 2 ^ LENGTH(32)" using assms(2) by (simp add: apart_def)
  then have n: "unat (of_nat (length rdk) :: u32) = length rdk" by (simp add: unat_of_nat)
  have move: "MEMCPY 0xF00000 r (of_nat (length rdk)) m = store 0xF00000 rdk m" if "rdk \<noteq> []"
    using MEMCPY_copies [of r "of_nat (length rdk)" "0xF00000" m] assms(1-3) that n by simp
  have whole: "bytes_at 0 0x4000 (final_sector rdk b) = final_sector rdk b"
    using final_sector_kept(2) [of 0 0 b rdk] assms(6) by simp
  have fill: "MEMSET 0x94000 0x800 0 x = store 0x94000 (replicate 0x800 0) x" for x
    by (simp add: MEMSET_fills)
  show ?thesis
  proof (cases "rdk = []")
    case True
    then show ?thesis using assms(4) whole
      by (simp add: start_kernel_def boot_places fill final_sector_def del: replicate_numeral)
  next
    case False
    then show ?thesis using assms(3,4,5) whole move
      by (simp add: start_kernel_def boot_places fill final_sector_def del: replicate_numeral le_bytes_numeral)
  qed
qed

text \<open>The boot sector as the kernel finds it.\<close>

lemma boot_sector_ready:
  fixes bpar :: boot_parms and r n :: u32
  assumes "0x2000 \<le> length img" "length t < 1024" "n = 0 \<longleftrightarrow> rdk = []" "rdk \<noteq> [] \<longrightarrow> r \<noteq> 0"
  defines "bs \<equiv> put_bytes 14336 (cmdline_text (video bpar) t @ [0]) (take 0x2000 img @ replicate 0x2000 0)"
  defines "A \<equiv> assign_fields (boot_param_fields bpar r n 14336) bs"
  shows "length A = 0x4000" "length (final_sector rdk A) = 0x4000"
    and "field32 0x218 A = (if rdk = [] then 0 else r)" "field32 0x21C A = n"
    and "field32 0x218 (final_sector rdk A) = (if rdk = [] then 0 else 0xF00000)" "field32 0x21C (final_sector rdk A) = n"
    and "field16 0x20 (final_sector rdk A) = CMDLINE_MAGIK" "field16 0x22 (final_sector rdk A) = 14336"
    and "field32 0x214 (final_sector rdk A) = 0x100000"
    and "bytes_at 14336 (length (cmdline_text (video bpar) t) + 1) (final_sector rdk A) = cmdline_text (video bpar) t @ [0]"
    and "(a, m) \<in> set header_ranges \<Longrightarrow> bytes_at a m (final_sector rdk A) = bytes_at a m img"
proof -
  let ?cmd = "cmdline_text (video bpar) t" and ?fs = "boot_param_fields bpar r n 14336" and ?B = "final_sector rdk A"
  have cl: "14336 + length (?cmd @ [0]) \<le> length (take 0x2000 img @ replicate 0x2000 0)"
    using length_cmdline [OF assms(2), of "video bpar"] assms(1) by simp
  then have bl: "length bs = 0x4000" using assms(1) by (simp add: bs_def del: replicate_numeral)
  then show al: "length A = 0x4000" unfolding A_def using boot_params_assigned(3) [of bs bpar r n 14336] by simp
  then show "length ?B = 0x4000" using final_sector_kept(2) [of 0 0 A rdk] by simp
  note f = boot_params_fields [of bs _ _ bpar r n 14336, folded A_def]
  have fr: "field_32 0x218 (if rdk = [] then 0 else r) \<in> set ?fs" "field_32 0x21C n \<in> set ?fs"
    "field_16 0x20 CMDLINE_MAGIK \<in> set ?fs" "field_16 0x22 14336 \<in> set ?fs" "field_32 0x214 kernel_start \<in> set ?fs"
    using assms(3,4) by (auto simp: boot_param_fields_def)
  show A: "field32 0x218 A = (if rdk = [] then 0 else r)" "field32 0x21C A = n"
    using f(1) [OF _ fr(1)] f(1) [OF _ fr(2)] bl by simp_all
  have kept: "bytes_at a m ?B = bytes_at a m A" if "separate (a, m) (0x218, 4)" for a m
    using final_sector_kept(1) [OF that] al by simp
  show "field32 0x21C ?B = n" "field16 0x20 ?B = CMDLINE_MAGIK" "field16 0x22 ?B = 14336" "field32 0x214 ?B = 0x100000"
    using A(2) f(2) [OF _ fr(3)] f(2) [OF _ fr(4)] f(1) [OF _ fr(5)] kept bl
    by (simp_all add: field16_def field32_def kernel_start_def)
  show "field32 0x218 ?B = (if rdk = [] then 0 else 0xF00000)"
    using A(1) bytes_at_put_same [of "0x218" "le_bytes 4 (0xF00000 :: u32)" A] al
    by (simp add: final_sector_def field32_def le_word_le_bytes del: le_bytes_numeral)
  have "bytes_at 14336 (length ?cmd + 1) A = bytes_at 14336 (length ?cmd + 1) bs"
    unfolding A_def by (rule boot_sector_tail) (simp_all add: bl)
  then show "bytes_at 14336 (length ?cmd + 1) ?B = ?cmd @ [0]"
    using kept bytes_at_put_same [OF cl] by (simp add: bs_def)
  show "bytes_at a m ?B = bytes_at a m img" if h: "(a, m) \<in> set header_ranges"
  proof -
    have am: "a + m \<le> 0x2000" "separate (a, m) (0x218, 4)" using h by (auto simp: header_ranges_def)
    have "bytes_at a m A = bytes_at a m bs" using boot_params_assigned(2) [OF _ h, of bs] bl by (simp add: A_def)
    also have "\<dots> = bytes_at a m (take 0x2000 img @ replicate 0x2000 0)"
      unfolding bs_def using am(1) cl by (intro bytes_at_put_before) simp_all
    also have "\<dots> = bytes_at a m img"
      using am(1) assms(1) by (simp add: bytes_at_append_left) (simp add: bytes_at_def drop_take min_def)
    finally show ?thesis using kept [OF am(2)] by simp
  qed
qed

text \<open>A ramdisk or none; without one the other of its address and its size is of no account.\<close>

lemma boot_kernel_ready:
  fixes r n :: u32
  assumes "load m k (length img) = img" "apart k (length img) 0x100000 0x400000" "bzimage img"
    and "load m r (length rdk) = rdk" "apart r (length rdk) 0x100000 0x400000"
    and "apart r (length rdk) 0xF00000 (length rdk)" "rdk \<noteq> [] \<longrightarrow> r \<noteq> 0"
    and "0 \<notin> set t" "length t < 1024"
    and "if rdk = [] then r = 0 \<or> n = 0 else n = of_nat (length rdk)"
  shows "\<exists>h. boot_kernel bpar m k (of_nat (length img)) r n (t @ [0]) = Some (Started h)
    \<and> entered img rdk (cmdline_text (video bpar) t) h"
proof -
  let ?n = "of_nat (length rdk) :: u32" and ?krn = "drop (setup_size img) img"
  let ?m2 = "store 0x100000 ?krn (store 0x100000 (replicate 0x400000 0) m)"
  have i: "0x2000 \<le> length img" "length ?krn \<le> 0x400000" using assms(3) by (auto simp: bzimage_def KERNEL_BUFFER_def)
  have fl: "unat (0xF00000 :: u32) + length rdk \<le> 4294967296" using assms(6) by (simp add: apart_def)
  then have nl: "unat ?n = length rdk" by (simp add: unat_of_nat)
  then have n0: "?n = 0 \<longleftrightarrow> rdk = []" by (auto simp: word_unat_eq_iff)
  note b = boot_sector_ready [where bpar = bpar, OF i(1) assms(9) n0 assms(7)]
  have "load ?m2 r (length rdk) = rdk"
    using assms(4,5) i(2) by (subst load_store_apart, force intro: apart_parts)+ simp
  note start = start_kernel_runs [OF this assms(6,7) b(3,4) b(1)]
  have gl: "length (concat (map (le_bytes 2) init_gdt)) = 32" by (simp add: init_gdt_def)
  note places = final_places [OF i(2) fl b(2) gl, of "store 0x100000 (replicate 0x400000 0) m"]
  have fields: "boot_param_fields bpar r n 14336 = boot_param_fields bpar r ?n 14336"
    using assms(10) by (auto simp: boot_param_fields_def split: if_splits)
  show ?thesis
    using boot_kernel_runs [OF assms(1-3,8,9), of bpar r n] places b(5-11) nl n0
    unfolding fields start by (auto simp: entered_def Let_def)
qed

text \<open>
  C2: \<open>boot_kernel\<close> with a bzImage whose kernel proper fits the kernel buffer, a ramdisk or none, and
  options of at most 1023 characters enters the kernel, in the state that the kernel expects, when
  the loaded files overlap neither the kernel buffer nor the final place of the ramdisk.\<close>

theorem boot_kernel_enters:
  assumes "load m k (length img) = img" "apart k (length img) 0x100000 0x400000" "bzimage img"
    and "load m r (length rdk) = rdk" "apart r (length rdk) 0x100000 0x400000"
    and "apart r (length rdk) 0xF00000 (length rdk)" "rdk \<noteq> [] \<longrightarrow> r \<noteq> 0"
    and "0 \<notin> set t" "length t < 1024"
  shows "\<exists>h. boot_kernel bpar m k (of_nat (length img)) r (of_nat (length rdk)) (t @ [0]) = Some (Started h)
    \<and> entered img rdk (cmdline_text (video bpar) t) h"
  using assms by (intro boot_kernel_ready) auto

definition sample_image :: "byte list" where
  "sample_image = (replicate 0x2000 0)[0x1FE := 0x55, 0x1FF := 0xAA]"

definition sample_memory :: memory where
  "sample_memory = store 0x1800000 [1, 2, 3] (store 0x1000000 sample_image (\<lambda>a. 0))"

lemma sample_loaded:
  "load sample_memory 0x1000000 (length sample_image) = sample_image" "load sample_memory 0x1800000 (length [1 :: byte, 2, 3]) = [1, 2, 3]"
proof -
  have l: "length sample_image = 0x2000" by (simp add: sample_image_def)
  show "load sample_memory 0x1000000 (length sample_image) = sample_image"
    unfolding sample_memory_def using load_store_same [of sample_image] l
    by (subst load_store_apart) (simp_all add: apart_def)
  show "load sample_memory 0x1800000 (length [1 :: byte, 2, 3]) = [1, 2, 3]"
    unfolding sample_memory_def by (rule load_store_same) simp
qed

theorem boot_kernel_enters_witness:
  "\<exists>h. boot_kernel sample_parms sample_memory 0x1000000 0x2000 0x1800000 3 ([0x61] @ [0]) = Some (Started h)
    \<and> entered sample_image [1, 2, 3] (cmdline_text (video sample_parms) [0x61]) h"
proof -
  have l: "length sample_image = 0x2000" by (simp add: sample_image_def)
  have b: "bzimage sample_image" by (simp add: bzimage_def setup_size_def sample_image_def KERNEL_BUFFER_def)
  show ?thesis
    using boot_kernel_enters [OF sample_loaded(1) _ b sample_loaded(2), of "[0x61]" sample_parms] l
    by (simp add: apart_def)
qed

end
