(* ===== verification/Clock.thy ===== *)
theory Clock
  imports Misc "HOL-Library.Signed_Division"
begin

text \<open>
  Time (\<^verbatim>\<open>src/main/time.c\<close>, \<^verbatim>\<open>src/main/sleep.c\<close>).  The time stamp counter is an argument: \<open>rdtsc\<close>
  reads 64 bits from the hardware state.  A unit of \<open>mseconds\<close> is \<open>2 ^ 20\<close> ticks, a millisecond at
  1 GHz.

  Theorems: the elapsed units from the two halves of the counter; that \<open>msleep\<close> returns on every clock
  that runs, not before its time; and that it returns on a steady clock whatever the counter and the
  statics hold.
\<close>

section \<open>The routines\<close>

type_synonym 'h rdtsc = "'h \<Rightarrow> u64 \<times> 'h"

record clock =
  l0 :: u32
  h0 :: u32
  is_set :: int

definition mseconds :: "'h rdtsc \<Rightarrow> clock \<Rightarrow> 'h \<Rightarrow> u32 \<times> clock \<times> 'h" where
  "mseconds rdtsc c h =
     (let (c, h) =
        (if is_set c = 0
         then let (t, h) = rdtsc h in (\<lparr>l0 = ucast t, h0 = ucast (drop_bit 32 t), is_set = is_set c + 1\<rparr>, h)
         else (c, h));
          (t, h) = rdtsc h;
          lo = ucast t; hi = ucast (drop_bit 32 t);
          r = push_bit 12 (hi - h0 c);
          r = r + drop_bit 20 lo;
          r = r - drop_bit 20 (l0 c)
      in (r, c, h))"

definition seconds :: "'h rdtsc \<Rightarrow> clock \<Rightarrow> 'h \<Rightarrow> int \<times> clock \<times> 'h" where
  "seconds rdtsc c h = (let (r, c, h) = mseconds rdtsc c h in (sint r sdiv 1000, c, h))"

text \<open>\<open>while (mseconds () < s)\<close>: a comparison of signed numbers; \<open>None\<close> if it never fails.\<close>

partial_function (option) msleep_loop :: "'h rdtsc \<Rightarrow> u32 \<Rightarrow> clock \<Rightarrow> 'h \<Rightarrow> (clock \<times> 'h) option" where
  "msleep_loop rdtsc s c h =
     (let (r, c, h) = mseconds rdtsc c h in
      if sint r < sint s then msleep_loop rdtsc s c h else Some (c, h))"

definition msleep :: "'h rdtsc \<Rightarrow> u32 \<Rightarrow> clock \<Rightarrow> 'h \<Rightarrow> (clock \<times> 'h) option" where
  "msleep rdtsc s c h = (let (r, c, h) = mseconds rdtsc c h in msleep_loop rdtsc (s + r) c h)"

definition sleep :: "'h rdtsc \<Rightarrow> u32 \<Rightarrow> clock \<Rightarrow> 'h \<Rightarrow> (clock \<times> 'h) option" where
  "sleep rdtsc s c h = msleep rdtsc (s * 1000) c h"

section \<open>Elapsed time\<close>

text \<open>The counter that the statics hold.\<close>

definition start_tsc :: "clock \<Rightarrow> nat" where
  "start_tsc c = unat (h0 c) * 2 ^ 32 + unat (l0 c)"

lemma tsc_halves: "unat (ucast (drop_bit 32 t) :: u32) * 2 ^ 32 + unat (ucast t :: u32) = unat (t :: u64)"
proof -
  have "unat (ucast t :: u32) = unat t mod 2 ^ 32" by (simp add: unsigned_ucast_eq take_bit_eq_mod)
  moreover have "unat (ucast (drop_bit 32 t) :: u32) = unat t div 2 ^ 32"
    using unat_u64_less [of t] by (simp add: unsigned_ucast_eq unat_drop_bit take_bit_nat_eq_self)
  ultimately show ?thesis by simp
qed

lemma units_of_halves:
  fixes lo hi :: u32
  shows "push_bit 12 hi + drop_bit 20 lo = of_nat ((unat hi * 2 ^ 32 + unat lo) div 2 ^ 20)"
proof -
  have "(unat hi * 2 ^ 32 + unat lo) div 2 ^ 20 = unat hi * 2 ^ 12 + unat lo div 2 ^ 20" by simp
  moreover have "push_bit 12 hi = of_nat (unat hi * 2 ^ 12)" by (simp add: push_bit_eq_mult)
  moreover have "drop_bit 20 lo = of_nat (unat lo div 2 ^ 20)" 
    unfolding unat_drop_bit [symmetric] by simp
  ultimately show ?thesis by (simp only: of_nat_add)
qed

lemma mseconds_elapsed:
  assumes "is_set c \<noteq> 0" "rdtsc h = (t, h')"
  shows "mseconds rdtsc c h = (of_nat (unat t div 2 ^ 20) - of_nat (start_tsc c div 2 ^ 20), c, h')"
proof -
  let ?lo = "ucast t :: u32" and ?hi = "ucast (drop_bit 32 t) :: u32"
  have d: "push_bit 12 (?hi - h0 c) = push_bit 12 ?hi - push_bit 12 (h0 c)"
    by (simp add: push_bit_eq_mult left_diff_distrib)
  have "mseconds rdtsc c h = (push_bit 12 (?hi - h0 c) + drop_bit 20 ?lo - drop_bit 20 (l0 c), c, h')"
    using assms by (simp add: mseconds_def Let_def)
  also have "push_bit 12 (?hi - h0 c) + drop_bit 20 ?lo - drop_bit 20 (l0 c) =
      (push_bit 12 ?hi + drop_bit 20 ?lo) - (push_bit 12 (h0 c) + drop_bit 20 (l0 c))"
    unfolding d by (simp only: algebra_simps)
  finally show ?thesis unfolding units_of_halves tsc_halves start_tsc_def .
qed

lemma mseconds_first:
  assumes "is_set c = 0" "rdtsc h = (t, h')"
  shows "mseconds rdtsc c h = mseconds rdtsc \<lparr>l0 = ucast t, h0 = ucast (drop_bit 32 t), is_set = 1\<rparr> h'"
    and "start_tsc \<lparr>l0 = ucast t, h0 = ucast (drop_bit 32 t), is_set = 1\<rparr> = unat t"
  using assms tsc_halves [of t] by (simp_all add: mseconds_def start_tsc_def)

text \<open>
  A clock that runs: \<open>ticks\<close> is the value of the counter, and it moves on with every reading, by at
  most \<open>2 ^ 30\<close> ticks.
\<close>

definition clock_runs :: "'h rdtsc \<Rightarrow> ('h \<Rightarrow> nat) \<Rightarrow> ('h \<Rightarrow> bool) \<Rightarrow> bool" where
  "clock_runs rdtsc ticks ok \<longleftrightarrow>
     (\<forall>h. ok h \<longrightarrow> ticks h < 2 ^ 51 \<longrightarrow>
       (\<exists>h'. rdtsc h = (of_nat (ticks h), h') \<and> ticks h < ticks h' \<and> ticks h' \<le> ticks h + 2 ^ 30 \<and> ok h'))"

text \<open>The statics hold a value that the counter had before.\<close>

definition clock_started :: "clock \<Rightarrow> nat \<Rightarrow> bool" where
  "clock_started c now \<longleftrightarrow> is_set c \<noteq> 0 \<and> start_tsc c \<le> now"

lemma elapsed_small:
  assumes "clock_started c t" "rdtsc h = (of_nat t, h')" "t < 2 ^ 51"
  shows "mseconds rdtsc c h = (of_nat (t div 2 ^ 20 - start_tsc c div 2 ^ 20), c, h')"
    and "sint (of_nat (t div 2 ^ 20 - start_tsc c div 2 ^ 20) :: u32) = int (t div 2 ^ 20 - start_tsc c div 2 ^ 20)"
proof -
  have t: "unat (of_nat t :: u64) = t" using assms(3) by (simp add: unat_of_nat)
  have c: "is_set c \<noteq> 0" "start_tsc c \<le> t" using assms(1) by (auto simp: clock_started_def)
  then have le: "start_tsc c div 2 ^ 20 \<le> t div 2 ^ 20" by (intro div_le_mono)
  show "mseconds rdtsc c h = (of_nat (t div 2 ^ 20 - start_tsc c div 2 ^ 20), c, h')"
    using mseconds_elapsed [of c rdtsc h "of_nat t" h'] c(1) assms(2) le unfolding t by (simp add: of_nat_diff)
  have "t div 2 ^ 20 - start_tsc c div 2 ^ 20 < 2147483648" using assms(3) by auto
  then have "unat (of_nat (t div 2 ^ 20 - start_tsc c div 2 ^ 20) :: u32) < 2147483648"
    "unat (of_nat (t div 2 ^ 20 - start_tsc c div 2 ^ 20) :: u32) = t div 2 ^ 20 - start_tsc c div 2 ^ 20"
    by (simp_all add: unat_of_nat del: of_nat_diff)
  then show "sint (of_nat (t div 2 ^ 20 - start_tsc c div 2 ^ 20) :: u32) = int (t div 2 ^ 20 - start_tsc c div 2 ^ 20)"
    by (simp only: sint_small)
qed

lemma msleep_loop_ends:
  assumes "clock_runs rdtsc ticks ok" "n < 2 ^ 30"
    and "clock_started c (ticks h)" "ok h" "ticks h \<le> (n + 1) * 2 ^ 20 + 2 ^ 30" "start_tsc c div 2 ^ 20 \<le> n"
  shows "\<exists>h'. msleep_loop rdtsc (of_nat (n - start_tsc c div 2 ^ 20)) c h = Some (c, h') \<and> ok h' \<and> ticks h < ticks h'
    \<and> n * 2 ^ 20 < ticks h' \<and> ticks h' \<le> (n + 1) * 2 ^ 20 + 2 * 2 ^ 30"
  using assms(3-5)
proof (induction "(n + 1) * 2 ^ 20 + 2 ^ 30 - ticks h" arbitrary: h rule: less_induct)
  case less
  let ?z = "start_tsc c div 2 ^ 20"
  have "ticks h < 2 ^ 51" using less.prems(3) assms(2) by simp
  with assms(1) less.prems(2) obtain h' where
    h': "rdtsc h = (of_nat (ticks h), h')" "ticks h < ticks h'" "ticks h' \<le> ticks h + 2 ^ 30" "ok h'"
    unfolding clock_runs_def by blast
  note e = elapsed_small [of c "ticks h" rdtsc h h', OF less.prems(1) h'(1) \<open>ticks h < 2 ^ 51\<close>]
  have n: "sint (of_nat (n - ?z) :: u32) = int (n - ?z)"
    using assms(2) sint_small [of "of_nat (n - ?z)"] by (simp add: unat_of_nat del: of_nat_diff)
  show ?case
  proof (cases "ticks h div 2 ^ 20 < n")
    case True
    then have "ticks h div 2 ^ 20 - ?z < n - ?z" 
      using less.prems(1) by (intro diff_less_mono) (auto simp: clock_started_def intro: div_le_mono)
    then have step: "msleep_loop rdtsc (of_nat (n - ?z)) c h = msleep_loop rdtsc (of_nat (n - ?z)) c h'"
      by (subst msleep_loop.simps) (simp only: e(1) Let_def case_prod_conv e(2) n of_nat_less_iff if_True)
    have lim: "ticks h < n * 2 ^ 20" using True by (simp add: div_less_iff_less_mult)
    then have "ticks h' \<le> (n + 1) * 2 ^ 20 + 2 ^ 30" using h'(3) by simp
    moreover have "clock_started c (ticks h')" using less.prems(1) h'(2) by (simp add: clock_started_def)
    ultimately show ?thesis using less.hyps [of h'] h'(2,4) lim unfolding step by force
  next
    case False
    then have "\<not> ticks h div 2 ^ 20 - ?z < n - ?z" by simp
    then have "msleep_loop rdtsc (of_nat (n - ?z)) c h = Some (c, h')"
      by (subst msleep_loop.simps) (simp only: e(1) Let_def case_prod_conv e(2) n of_nat_less_iff if_False)
    moreover have "n * 2 ^ 20 \<le> ticks h" using False by (simp add: div_less_iff_less_mult not_less)
    ultimately show ?thesis using h' less.prems(3) by auto
  qed
qed

lemma mseconds_runs:
  assumes "clock_runs rdtsc ticks ok" "ok h" "ticks h < 2 ^ 50" "is_set c = 0 \<or> clock_started c (ticks h)"
  shows "\<exists>c' t h'. mseconds rdtsc c h = (of_nat (t div 2 ^ 20 - start_tsc c' div 2 ^ 20), c', h')
    \<and> clock_started c' t \<and> ticks h \<le> t \<and> t \<le> ticks h + 2 ^ 30 \<and> t < ticks h' \<and> ticks h' \<le> t + 2 ^ 30 \<and> ok h'"
proof (cases "is_set c = 0")
  case True
  obtain h1 where h1: "rdtsc h = (of_nat (ticks h), h1)" "ticks h < ticks h1" "ticks h1 \<le> ticks h + 2 ^ 30" "ok h1"
    using assms(1-3) unfolding clock_runs_def by fastforce
  then obtain h2 where h2: "rdtsc h1 = (of_nat (ticks h1), h2)" "ticks h1 < ticks h2" "ticks h2 \<le> ticks h1 + 2 ^ 30" "ok h2"
    using assms(1,3) unfolding clock_runs_def by fastforce
  let ?c = "\<lparr>l0 = ucast (of_nat (ticks h) :: u64), h0 = ucast (drop_bit 32 (of_nat (ticks h) :: u64)), is_set = 1\<rparr>"
  have st: "clock_started ?c (ticks h1)"
    using mseconds_first(2) [of c rdtsc h "of_nat (ticks h)" h1, OF True h1(1)] assms(3) h1(2) by (simp add: clock_started_def unat_of_nat)
  have "ticks h1 < 2 ^ 51" using h1(3) assms(3) by simp
  from elapsed_small(1) [of _ "ticks h1" rdtsc h1 h2, OF st h2(1) this] have
    "mseconds rdtsc c h = (of_nat (ticks h1 div 2 ^ 20 - start_tsc ?c div 2 ^ 20), ?c, h2)"
    unfolding mseconds_first(1) [of c rdtsc h "of_nat (ticks h)" h1, OF True h1(1)] .
  then show ?thesis using st h1 h2 by (intro exI [of _ ?c] exI [of _ "ticks h1"] exI [of _ h2]) auto
next
  case False
  then have st: "clock_started c (ticks h)" using assms(4) by simp
  obtain h1 where h1: "rdtsc h = (of_nat (ticks h), h1)" "ticks h < ticks h1" "ticks h1 \<le> ticks h + 2 ^ 30" "ok h1"
    using assms(1-3) unfolding clock_runs_def by fastforce
  have "ticks h < 2 ^ 51" using assms(3) by simp
  from elapsed_small(1) [of _ "ticks h" rdtsc h h1, OF st h1(1) this] show ?thesis using st h1
    by (intro exI [of _ c] exI [of _ "ticks h"] exI [of _ h1]) auto
qed

lemma msleep_ok:
  assumes "clock_runs rdtsc ticks ok" "ok h" "ticks h < 2 ^ 49" "is_set c = 0 \<or> clock_started c (ticks h)" "unat s < 2 ^ 28"
  shows "\<exists>c' h'. msleep rdtsc s c h = Some (c', h') \<and> ok h' \<and> clock_started c' (ticks h')
    \<and> ticks h + unat s * 2 ^ 20 < ticks h' + 2 ^ 20 \<and> ticks h' \<le> ticks h + (unat s + 1) * 2 ^ 20 + 3 * 2 ^ 30"
proof -
  obtain c' t h1 where 1: "mseconds rdtsc c h = (of_nat (t div 2 ^ 20 - start_tsc c' div 2 ^ 20), c', h1)"
    "clock_started c' t" "ticks h \<le> t" "t \<le> ticks h + 2 ^ 30" "t < ticks h1" "ticks h1 \<le> t + 2 ^ 30" "ok h1"
    using mseconds_runs [OF assms(1,2) _ assms(4)] assms(3) by auto
  let ?z = "start_tsc c' div 2 ^ 20" and ?n = "unat s + t div 2 ^ 20"
  have z: "?z \<le> t div 2 ^ 20" using 1(2) by (auto simp: clock_started_def intro: div_le_mono)
  have s: "s + of_nat (t div 2 ^ 20 - ?z) = of_nat (?n - ?z)"
    using z by (simp add: of_nat_diff)
  have "t div 2 ^ 20 \<le> (2 ^ 49 + 2 ^ 30) div 2 ^ 20" using assms(3) 1(4) by (intro div_le_mono) simp
  then have n: "?n < 2 ^ 30" using assms(5) by simp
  have t: "t div 2 ^ 20 * 2 ^ 20 \<le> t" "t < t div 2 ^ 20 * 2 ^ 20 + 2 ^ 20" by simp_all
  obtain h2 where 2: "msleep_loop rdtsc (of_nat (?n - ?z)) c' h1 = Some (c', h2)" "ok h2"
    "?n * 2 ^ 20 < ticks h2" "ticks h1 < ticks h2" "ticks h2 \<le> (?n + 1) * 2 ^ 20 + 2 * 2 ^ 30"
    using msleep_loop_ends [OF assms(1) n, of c' h1] 1 z t by (auto simp: clock_started_def)
  have "msleep rdtsc s c h = Some (c', h2)" using 1(1) 2(1) s by (simp add: msleep_def)
  moreover have "ticks h + unat s * 2 ^ 20 < ticks h2 + 2 ^ 20" using 2(3) t 1(3) by (simp add: add_mult_distrib)
  moreover have "ticks h2 \<le> ticks h + (unat s + 1) * 2 ^ 20 + 3 * 2 ^ 30" using 2(5) t 1(4) by (simp add: add_mult_distrib)
  moreover have "clock_started c' (ticks h2)"
    using 1(2,5) 2(4) by (auto simp: clock_started_def)
  ultimately show ?thesis using 2(2) by blast
qed

section \<open>Waiting ends\<close>

text \<open>
  A steady counter: from one reading to the next, with nothing in between, it moves on by at least a
  tick and at most a unit.  No value of the counter is excluded.
\<close>

definition clock_steady :: "'h rdtsc \<Rightarrow> bool" where
  "clock_steady rdtsc \<longleftrightarrow> (\<forall>h. \<exists>d. 0 < d \<and> d \<le> 2 ^ 20 \<and> fst (rdtsc (snd (rdtsc h))) = fst (rdtsc h) + of_nat d)"

lemma mod_range:
  assumes "0 < (b :: nat)"
  shows "a mod (b * c) div b = a div b mod c" "a mod (b * c) mod b = a mod b"
  using assms by (simp_all add: mod_mult2_eq)

text \<open>The unit count, as a 32-bit number, stays or moves on by one.\<close>

lemma unit_step:
  fixes t :: u64
  assumes "0 < d" "d \<le> 2 ^ 20"
  shows "(of_nat (unat (t + of_nat d) div 2 ^ 20) :: u32) = of_nat (unat t div 2 ^ 20) + 1
    \<or> (of_nat (unat (t + of_nat d) div 2 ^ 20) :: u32) = of_nat (unat t div 2 ^ 20) \<and> unat t mod 2 ^ 20 < unat (t + of_nat d) mod 2 ^ 20"
proof -
  let ?u = "unat t + d"
  have "d < 2 ^ 64" using assms(2) by simp
  then have u: "unat (t + of_nat d) = ?u mod (2 ^ 20 * 2 ^ 44)"
    by (simp add: unat_word_ariths unat_of_nat)
  have m: "?u mod (2 ^ 20 * 2 ^ 44) div 2 ^ 20 = ?u div 2 ^ 20 mod 2 ^ 44" "?u mod (2 ^ 20 * 2 ^ 44) mod 2 ^ 20 = ?u mod 2 ^ 20"
    using mod_range [of "2 ^ 20" ?u "2 ^ 44"] by simp_all
  have w: "(of_nat (?u div 2 ^ 20 mod 2 ^ 44) :: u32) = of_nat (?u div 2 ^ 20)"
  proof -
    have "(2 :: nat) ^ 32 dvd 2 ^ 44" by (rule le_imp_power_dvd) simp
    then have "?u div 2 ^ 20 mod 2 ^ 44 mod 2 ^ 32 = ?u div 2 ^ 20 mod 2 ^ 32" by (rule mod_mod_cancel)
    then show ?thesis by (simp add: word_unat_eq_iff unat_of_nat)
  qed
  have "?u div 2 ^ 20 = unat t div 2 ^ 20 + 1 \<or> ?u div 2 ^ 20 = unat t div 2 ^ 20 \<and> unat t mod 2 ^ 20 < ?u mod 2 ^ 20"
  proof -
    have "(k :: nat) mod n + d < 2 * n \<and> 0 < d \<Longrightarrow> (k + d) div n = k div n + 1 \<or> (k + d) div n = k div n \<and> k mod n < (k + d) mod n"
      if "0 < n" for k n
    proof -
      assume a: "k mod n + d < 2 * n \<and> 0 < d"
      have dv: "(k + d) div n = k div n + (k mod n + d) div n"
        using div_mult_self2 [of n "k mod n + d" "k div n"] that by simp
      show ?thesis
      proof (cases "k mod n + d < n")
        case True
        then show ?thesis using a dv mod_add_left_eq [of k n d] by simp
      next
        case False
        then have "(k mod n + d) div n = 1" using a by (intro div_nat_eqI) simp_all
        then show ?thesis using dv by simp
      qed
    qed
    from this [of "2 ^ 20" "unat t"] show ?thesis using assms by simp
  qed
  then show ?thesis unfolding u m w by auto
qed

lemma msleep_loop_steady:
  assumes "clock_steady rdtsc" "is_set c \<noteq> 0"
  shows "\<exists>h'. msleep_loop rdtsc s c h = Some (c, h')"
proof (induction "(unat (0x7FFFFFFF - (of_nat (unat (fst (rdtsc h)) div 2 ^ 20) - of_nat (start_tsc c div 2 ^ 20)) :: u32),
    2 ^ 20 - unat (fst (rdtsc h)) mod 2 ^ 20)" arbitrary: h rule: wf_induct_rule [OF wf_lex_prod [OF wf_less wf_less]])
  case (1 h)
  obtain t h1 where h: "rdtsc h = (t, h1)" by force
  let ?r = "of_nat (unat t div 2 ^ 20) - of_nat (start_tsc c div 2 ^ 20) :: u32"
  obtain d where d: "0 < d" "d \<le> 2 ^ 20" "fst (rdtsc h1) = t + of_nat d" using assms(1) [unfolded clock_steady_def, rule_format, of h] h by auto
  let ?t = "t + of_nat d"
  let ?r' = "of_nat (unat ?t div 2 ^ 20) - of_nat (start_tsc c div 2 ^ 20) :: u32"
  note e = mseconds_elapsed [OF assms(2), of rdtsc h t h1, OF h]
  show ?case
  proof (cases "sint ?r < sint s")
    case False
    then have "msleep_loop rdtsc s c h = Some (c, h1)"
      by (subst msleep_loop.simps) (simp only: e Let_def case_prod_conv if_False)
    then show ?thesis by blast
  next
    case True
    have ne: "?r \<noteq> 0x7FFFFFFF"
    proof
      assume "?r = 0x7FFFFFFF"
      then have "sint ?r = 2147483647" by (simp only:) simp
      moreover have "sint s \<le> 2147483647" using sint_lt [of s] by simp
      ultimately show False using True by linarith
    qed
    have "?r' = ?r + 1 \<or> ?r' = ?r \<and> unat t mod 2 ^ 20 < unat ?t mod 2 ^ 20"
      using unit_step [OF d(1,2), of t] by (auto simp: algebra_simps)
    then have "((unat (0x7FFFFFFF - ?r'), 2 ^ 20 - unat ?t mod 2 ^ 20), (unat (0x7FFFFFFF - ?r), 2 ^ 20 - unat t mod 2 ^ 20))
        \<in> {(x, y). x < y} <*lex*> {(x, y). x < y}"
    proof
      assume r: "?r' = ?r + 1"
      have "0x7FFFFFFF - ?r \<noteq> 0" using ne by (metis eq_iff_diff_eq_0)
      then have "unat (0x7FFFFFFF - ?r - 1) < unat (0x7FFFFFFF - ?r)"
        by (metis diff_less unat_gt_0 unat_minus_one zero_less_one)
      then show ?thesis unfolding r by (simp add: algebra_simps)
    next
      assume "?r' = ?r \<and> unat t mod 2 ^ 20 < unat ?t mod 2 ^ 20"
      moreover have "unat ?t mod 2 ^ 20 < 2 ^ 20" by simp
      ultimately show ?thesis by (simp only: in_lex_prod mem_Collect_eq case_prod_conv) linarith
    qed
    then have "\<exists>h'. msleep_loop rdtsc s c h1 = Some (c, h')"
      using h by (intro 1) (simp only: d(3) fst_conv)
    moreover have "msleep_loop rdtsc s c h = msleep_loop rdtsc s c h1"
      using True by (subst msleep_loop.simps) (simp only: e Let_def case_prod_conv if_True)
    ultimately show ?thesis by simp
  qed
qed

lemma mseconds_sets: "mseconds rdtsc c h = (r, c', h') \<Longrightarrow> is_set c' \<noteq> 0"
  by (auto simp: mseconds_def Let_def split: if_splits prod.splits)

lemma sleep_steady:
  assumes "clock_steady rdtsc"
  shows "\<exists>c' h'. sleep rdtsc s c h = Some (c', h')"
proof -
  obtain r c' h' where m: "mseconds rdtsc c h = (r, c', h')" by (metis prod_cases3)
  then show ?thesis
    using msleep_loop_steady [OF assms mseconds_sets [OF m], of "s * 1000 + r" h'] by (auto simp: sleep_def msleep_def)
qed

section \<open>Properties\<close>

text \<open>
  C37: \<open>msleep\<close> returns on every clock that runs (below the overflow of the signed count), not more
  than one unit before its time and not more than \<open>3 * 2 ^ 30\<close> ticks after it, whether or not the
  statics were set before.\<close>

theorem msleep_ends:
  assumes "clock_runs rdtsc ticks ok" "ok h" "ticks h < 2 ^ 49" "is_set c = 0 \<or> clock_started c (ticks h)" "unat s < 2 ^ 28"
  shows "\<exists>c' h'. msleep rdtsc s c h = Some (c', h') \<and> ok h'
    \<and> ticks h + unat s * 2 ^ 20 < ticks h' + 2 ^ 20 \<and> ticks h' \<le> ticks h + (unat s + 1) * 2 ^ 20 + 3 * 2 ^ 30"
  using msleep_ok [OF assms] by blast

text \<open>A counter that moves on by 1000 ticks with every reading.\<close>

definition sample_rdtsc :: "nat rdtsc" where
  "sample_rdtsc t = (of_nat t, t + 1000)"

lemma sample_clock_steady: "clock_steady sample_rdtsc"
  by (auto simp: clock_steady_def sample_rdtsc_def intro: exI [of _ 1000])

lemma sample_clock_runs: "clock_runs sample_rdtsc id (\<lambda>t. True)"
  by (simp add: clock_runs_def sample_rdtsc_def)

theorem msleep_ends_witness:
  "\<exists>c' t'. msleep sample_rdtsc 2000 \<lparr>l0 = 0, h0 = 0, is_set = 0\<rparr> 5000000 = Some (c', t') \<and> 2000000000 \<le> t'"
  using msleep_ends [OF sample_clock_runs, of 5000000 "\<lparr>l0 = 0, h0 = 0, is_set = 0\<rparr>" 2000] by auto

end
