(* ===== verification/Boot.thy ===== *)
theory Boot
  imports Config Efi Ext2_Path Probe Loader Clock
begin

text \<open>
  The boot sequence: \<^verbatim>\<open>src/main/diskboot.c\<close>, \<^verbatim>\<open>src/main/netboot.c\<close> and the top level of
  \<^verbatim>\<open>src/main/main.c\<close>, composed from the drivers, the file system, the parser and the loader.

  The state holds the globals of all parts.  What is not in the tree is in the environment: the
  allocator, the place of a buffer in memory, \<open>find_pci\<close>, the GUID comparison and the network code
  of \<^verbatim>\<open>eb.c\<close>.  \<open>network_init\<close> calls back into this code; the environment gives the calls that it
  makes, in their order, each with what the network code does to the machine before it.

  Theorems: \<open>do_main\<close> never returns; the network code is started at most once; a kernel from the
  disk is started with the disk closed and the file system unmounted; a network boot enters the
  kernel with the files of the server; a file is read whole; without a disk and a network the
  machine ends in \<open>spin\<close>.
\<close>

section \<open>Environment and state\<close>

datatype network_call = Dhcp_callback "byte list" | Network_boot_failed

text \<open>
  \<open>v_memory\<close> lays the buffers of the kernel and of the ramdisk out in memory and gives their
  addresses; \<open>v_stack\<close> is what the uninitialised locals \<open>ramdisk_buf\<close> and \<open>ramdisk_len\<close> hold.
\<close>

record 'h env =
  v_io :: "'h io"
  v_rdtsc :: "'h rdtsc"
  v_find_pci :: "'h pci_finder"
  v_nic_probe :: "'h prober"
  v_malloc :: "u32 \<Rightarrow> byte list option"
  v_guidcmp :: "byte list \<Rightarrow> byte list \<Rightarrow> int"
  v_null_guid :: "byte list"
  v_load_file :: "byte list \<Rightarrow> 'h machine \<Rightarrow> byte list option \<times> u32 \<times> 'h machine"
  v_shutdown :: "'h machine \<Rightarrow> 'h machine"
  v_network :: "(network_call \<times> ('h machine \<Rightarrow> 'h machine)) list"
  v_parms :: boot_parms
  v_memory :: "byte list \<Rightarrow> byte list option \<Rightarrow> memory \<times> u32 \<times> u32"
  v_stack :: "u32 \<times> u32"
  v_parts :: "partition list"

text \<open>The log keeps what is printed and the start and stop of the network code.\<close>

datatype boot_event = Printed string | Printed_part nat string | Network_started | Network_stopped

record 'h boot_state =
  b_machine :: "'h machine"
  b_clock :: clock
  b_part :: partition
  b_gpt :: gpt_statics
  b_e2fs :: e2fs
  b_tried :: int
  b_log :: "boot_event list"

text \<open>A call that comes back, one that ends in the kernel, and one that ends in a busy loop.\<close>

datatype 'h outcome = Back "'h boot_state" | Booted handoff "'h boot_state" | Spin "'h boot_state"

definition andthen ::
  "'h outcome option \<Rightarrow> ('h boot_state \<Rightarrow> 'h outcome option) \<Rightarrow> 'h outcome option" where
  "andthen r f = do { x \<leftarrow> r; (case x of Back s \<Rightarrow> f s | Booted h s \<Rightarrow> Some (Booted h s) | Spin s \<Rightarrow> Some (Spin s)) }"

definition add_log :: "boot_event \<Rightarrow> 'h boot_state \<Rightarrow> 'h boot_state" where
  "add_log ev s = s\<lparr>b_log := b_log s @ [ev]\<rparr>"

definition say :: "string \<Rightarrow> 'h boot_state \<Rightarrow> 'h boot_state" where
  "say msg = add_log (Printed msg)"

definition boot_sleep :: "'h env \<Rightarrow> u32 \<Rightarrow> 'h boot_state \<Rightarrow> 'h boot_state option" where
  "boot_sleep env n s =
     do {
       (c, h) \<leftarrow> sleep (v_rdtsc env) n (b_clock s) (hw (b_machine s));
       Some (s\<lparr>b_clock := c, b_machine := (b_machine s)\<lparr>hw := h\<rparr>\<rparr>)
     }"

definition boot_disk_close :: "'h env \<Rightarrow> 'h boot_state \<Rightarrow> 'h boot_state option" where
  "boot_disk_close env s =
     do {
       m \<leftarrow> disk_close (v_io env) (b_machine s);
       Some (s\<lparr>b_machine := m\<rparr>)
     }"

definition boot_fs_close :: "'h boot_state \<Rightarrow> 'h boot_state" where
  "boot_fs_close s = s\<lparr>b_e2fs := ext2fs_fs_close (b_e2fs s)\<rparr>"

definition boot_volume :: "'h env \<Rightarrow> 'h boot_state \<Rightarrow> 'h machine volume_ops" where
  "boot_volume env s = partition_ops (v_io env) (v_malloc env) (b_part s)"

text \<open>The string that an array holds.\<close>

definition c_string :: "byte list \<Rightarrow> byte list" where
  "c_string bs = takeWhile (\<lambda>c. c \<noteq> 0) bs @ [0]"

section \<open>Booting from the disk\<close>

text \<open>
  \<open>disk_read_file\<close> after the file is open.  The buffer that was allocated (\<open>None\<close> for a null pointer)
  and the size that \<open>ext2fs_read\<close> leaves; its return code is not looked at.
\<close>

definition disk_read_opened ::
  "'h env \<Rightarrow> nat \<Rightarrow> 'h boot_state \<Rightarrow> ((byte list \<times> u32) option \<times> 'h boot_state) option" where
  "disk_read_opened env fd s =
     do {
       len \<leftarrow> ext2fs_len (b_e2fs s) fd;
       let sz = ucast len;
       let buf = v_malloc env sz;
       (ret, b, sz, e, m) \<leftarrow> ext2fs_read (boot_volume env s) (b_e2fs s) (b_machine s) fd
         (case buf of None \<Rightarrow> [] | Some b \<Rightarrow> b) sz;
       (_, e) \<leftarrow> ext2fs_close e fd;
       Some (if buf = None then None else Some (b, sz), s\<lparr>b_e2fs := e, b_machine := m\<rparr>)
     }"

text \<open>The static \<open>namebuf\<close> is the name object of the file system's state.\<close>

definition disk_read_file ::
  "'h env \<Rightarrow> byte list \<Rightarrow> 'h boot_state \<Rightarrow> ((byte list \<times> u32) option \<times> 'h boot_state) option" where
  "disk_read_file env name s =
     do {
       nb \<leftarrow> strcpy (namebuf (b_e2fs s)) name;
       (fd, e, m) \<leftarrow> ext2fs_open (boot_volume env s) ((b_e2fs s)\<lparr>namebuf := nb\<rparr>) (b_machine s) nb;
       let s = s\<lparr>b_e2fs := e, b_machine := m\<rparr>;
       (case fd of
          None \<Rightarrow> Some (None, s)
        | Some fd \<Rightarrow> disk_read_opened env fd s)
     }"

text \<open>The call of \<open>boot_kernel\<close> with its arguments in memory; \<open>r\<close> and \<open>r_len\<close> without a ramdisk.\<close>

definition start_loaded ::
  "'h env \<Rightarrow> byte list \<times> u32 \<Rightarrow> (byte list \<times> u32) option \<Rightarrow> u32 \<times> u32 \<Rightarrow> byte list \<Rightarrow> 'h boot_state \<Rightarrow> 'h outcome option" where
  "start_loaded env kb rb none opts s =
     do {
       let (m, k, r) = v_memory env (fst kb) (map_option fst rb);
       x \<leftarrow> boot_kernel (v_parms env) m k (snd kb) (if rb = None then fst none else r)
         (case rb of None \<Rightarrow> snd none | Some rb \<Rightarrow> snd rb) (c_string opts);
       Some (case x of
          Returned _ \<Rightarrow> Back (say ''booting failed'' s)
        | Started h \<Rightarrow> Booted h s)
     }"

definition diskboot ::
  "'h env \<Rightarrow> ('h boot_state \<Rightarrow> 'h outcome option) \<Rightarrow> byte list \<Rightarrow> u32 \<Rightarrow> int \<Rightarrow> 'h boot_state \<Rightarrow> 'h outcome option" where
  "diskboot env net config len allowed_trynetwork s =
     do {
       (config, c) \<leftarrow> parse_config config (sint len) (fresh_config (Some 0) None);
       if allowed_trynetwork \<noteq> 0 \<and> trynetboot c \<noteq> Some 0 then do {
         let s = boot_fs_close (say ''Trying a network boot'' s);
         s \<leftarrow> boot_disk_close env s;
         net s
       }
       else do {
         k0 \<leftarrow> rd1 (kernel c) 0;
         if k0 = 0 then Some (Back (say ''no kernel - returning'' s))
         else do {
           (kb, s) \<leftarrow> disk_read_file env (kernel c) s;
           (case kb of
              None \<Rightarrow> Some (Back (say ''kernel load failed -returning'' s))
            | Some kb \<Rightarrow> do {
                r0 \<leftarrow> rd1 (ramdisk c) 0;
                (rb, s) \<leftarrow> (if r0 \<noteq> 0 then disk_read_file env (ramdisk c) s else Some (None, s));
                if r0 \<noteq> 0 \<and> rb = None then Some (Back (say ''ramdisk load failed - returning'' s))
                else do {
                  let s = boot_fs_close (say ''files loaded - booting'' s);
                  s \<leftarrow> boot_disk_close env s;
                  s \<leftarrow> boot_sleep env 2 s;
                  start_loaded env kb rb (0, snd (v_stack env)) (options c) s
                }
              })
         }
       }
     }"

definition BOOTCONF :: "byte list" where "BOOTCONF = lit ''/mb_boot_tv.conf''"
definition BOOT_BOOTCONF :: "byte list" where "BOOT_BOOTCONF = lit ''/boot/mb_boot_tv.conf''"

definition find_config ::
  "'h env \<Rightarrow> nat \<Rightarrow> 'h boot_state \<Rightarrow> ((byte list \<times> u32) option \<times> 'h boot_state) option" where
  "find_config env i s =
     do {
       (cfg, s) \<leftarrow> disk_read_file env BOOTCONF s;
       (case cfg of
          None \<Rightarrow> do {
            (cfg, s) \<leftarrow> disk_read_file env BOOT_BOOTCONF s;
            Some (cfg, if cfg = None then s else add_log (Printed_part i ''/boot/mb_boot_tv.conf found'') s)
          }
        | Some _ \<Rightarrow> Some (cfg, add_log (Printed_part i ''/mb_boot_tv.conf found'') s))
     }"

text \<open>The loop over the partitions from \<open>i\<close> on; it is left after the first one with a configuration.\<close>

fun boot_partitions ::
  "'h env \<Rightarrow> ('h boot_state \<Rightarrow> 'h outcome option) \<Rightarrow> int \<Rightarrow> partition list \<Rightarrow> nat \<Rightarrow> nat \<Rightarrow> 'h boot_state \<Rightarrow> 'h outcome option" where
  "boot_partitions env net trynetwork parts i 0 s = Some (Back s)"
| "boot_partitions env net trynetwork parts i (Suc k) s =
     do {
       p \<leftarrow> rd1 parts i;
       let s = s\<lparr>b_part := partition_set p (b_part s)\<rparr>;
       (r, e, m) \<leftarrow> ext2fs_fs_open (boot_volume env s) (b_e2fs s) (b_machine s);
       let s = s\<lparr>b_e2fs := e, b_machine := m\<rparr>;
       if r \<noteq> 0
       then boot_partitions env net trynetwork parts (i + 1) k (add_log (Printed_part i ''no ext2fs filesystem'') s)
       else do {
         (cfg, s) \<leftarrow> find_config env i s;
         (case cfg of
            None \<Rightarrow> boot_partitions env net trynetwork parts (i + 1) k
              (boot_fs_close (add_log (Printed_part i ''no configuration'') s))
          | Some (config, len) \<Rightarrow>
              andthen (diskboot env net config len trynetwork s) (\<lambda>s. Some (Back (boot_fs_close s))))
       }
     }"

definition try_disk_boot ::
  "'h env \<Rightarrow> ('h boot_state \<Rightarrow> 'h outcome option) \<Rightarrow> int \<Rightarrow> 'h boot_state \<Rightarrow> 'h outcome option" where
  "try_disk_boot env net trynetwork s =
     do {
       (r, m) \<leftarrow> disk_open (v_io env) (v_find_pci env) (v_nic_probe env) 0 (b_machine s);
       let s = s\<lparr>b_machine := m\<rparr>;
       if r \<noteq> 0 then Some (Back (say ''Failed to open disk'' s))
       else do {
         (r, parts, n, st, m) \<leftarrow> efi_find_partitions (disk_read (v_io env)) (disk_last_sector (b_machine s))
           (v_guidcmp env) (v_null_guid env) (b_gpt s) (b_machine s) (v_parts env) 16;
         let s = s\<lparr>b_gpt := st, b_machine := m\<rparr>;
         if r \<noteq> 0 then do {
           s \<leftarrow> boot_disk_close env s;
           Some (Back (say ''Failed to find an EFI GPT'' s))
         }
         else
           andthen (boot_partitions env net trynetwork parts 0 n s) (\<lambda>s. do {
             s \<leftarrow> boot_disk_close env s;
             Some (Back s)
           })
       }
     }"

section \<open>Booting from the network\<close>

definition spin :: "'h boot_state \<Rightarrow> 'h outcome" where
  "spin s = Spin (say ''failed to boot, spinning'' s)"

text \<open>
  The name goes to the console through the buffer of \<open>printk\<close>, like the lines of the configuration;
  \<open>name\<close> is the string and what follows it in memory.  The other messages of this file have a
  bounded length and are kept in the log only, among them the one with the place and size of the
  configuration.
\<close>

definition dhcp_callback :: "'h env \<Rightarrow> byte list \<Rightarrow> 'h boot_state \<Rightarrow> 'h outcome option" where
  "dhcp_callback env name s =
     do {
       _ \<leftarrow> console ''netboot: tftping %s'' [Mem_arg (Some name)];
       let s = say ''netboot: tftping'' s;
       let (config, len, m) = v_load_file env name (b_machine s);
       let s = say ''netboot: config'' (s\<lparr>b_machine := m\<rparr>);
       (case config of
          None \<Rightarrow> Some (Back s)
        | Some config \<Rightarrow>
            if sint len < 0 then Some (Back s)
            else do {
              (config, c) \<leftarrow> parse_config config (sint len) (fresh_config None (Some 0));
              if forcediskboot c \<noteq> Some 0 then Some (Back (say ''disk boot forced'' s))
              else do {
                k0 \<leftarrow> rd1 (kernel c) 0;
                if k0 = 0 then Some (Back (say ''no kernel - returning'' s))
                else do {
                  let (kb, klen, m) = v_load_file env (c_string (kernel c)) (b_machine s);
                  let s = s\<lparr>b_machine := m\<rparr>;
                  (case kb of
                     None \<Rightarrow> Some (Back (say ''kernel load failed -returning'' s))
                   | Some kb \<Rightarrow> do {
                       r0 \<leftarrow> rd1 (ramdisk c) 0;
                       let (rb, rlen, m) =
                         (if r0 \<noteq> 0 then v_load_file env (c_string (ramdisk c)) (b_machine s) else (None, 0, b_machine s));
                       let s = s\<lparr>b_machine := m\<rparr>;
                       if r0 \<noteq> 0 \<and> rb = None then Some (Back (say ''ramdisk load failed - returning'' s))
                       else do {
                         let s = say ''files loaded - booting'' s;
                         let s = add_log Network_stopped (s\<lparr>b_machine := v_shutdown env (b_machine s)\<rparr>);
                         s \<leftarrow> boot_sleep env 2 s;
                         start_loaded env (kb, klen) (map_option (\<lambda>b. (b, rlen)) rb) (v_stack env) (options c) s
                       }
                     })
                }
              }
            })
     }"

text \<open>
  \<open>network_boot_failed\<close> tries the disk without leave to try the network: \<open>try_disk_boot (0)\<close> never
  calls \<open>try_network_boot\<close> (lemma \<open>try_disk_boot_no_network\<close>), whose place is therefore empty.
\<close>

definition network_boot_failed :: "'h env \<Rightarrow> 'h boot_state \<Rightarrow> 'h outcome option" where
  "network_boot_failed env s =
     do {
       s \<leftarrow> boot_sleep env 5 s;
       try_disk_boot env (\<lambda>s. None) 0 s
     }"

fun network_calls ::
  "'h env \<Rightarrow> (network_call \<times> ('h machine \<Rightarrow> 'h machine)) list \<Rightarrow> 'h boot_state \<Rightarrow> 'h outcome option" where
  "network_calls env [] s = Some (Back s)"
| "network_calls env ((call, f) # calls) s =
     (let s = s\<lparr>b_machine := f (b_machine s)\<rparr> in
      andthen (case call of Dhcp_callback name \<Rightarrow> dhcp_callback env name s | Network_boot_failed \<Rightarrow> network_boot_failed env s)
        (network_calls env calls))"

definition try_network_boot :: "'h env \<Rightarrow> 'h boot_state \<Rightarrow> 'h outcome option" where
  "try_network_boot env s =
     (if b_tried s \<noteq> 0 then Some (spin (say ''Tried a network boot already'' s))
      else network_calls env (v_network env) (add_log Network_started (s\<lparr>b_tried := b_tried s + 1\<rparr>)))"

section \<open>The top level\<close>

definition do_main :: "'h env \<Rightarrow> 'h boot_state \<Rightarrow> 'h outcome option" where
  "do_main env s =
     andthen (try_disk_boot env (try_network_boot env) 1 (say ''mb_boot_tv: mythic-beasts.com appletv bootloader'' s))
       (\<lambda>s. do {
         s \<leftarrow> boot_sleep env 5 s;
         andthen (try_network_boot env s) (\<lambda>s. Some (spin s))
       })"

section \<open>Results of a boot attempt\<close>

text \<open>What holds when a call comes back, enters the kernel, or ends in the busy loop.\<close>

fun outcomes ::
  "('h boot_state \<Rightarrow> bool) \<Rightarrow> (handoff \<Rightarrow> 'h boot_state \<Rightarrow> bool) \<Rightarrow> ('h boot_state \<Rightarrow> bool) \<Rightarrow> 'h outcome option \<Rightarrow> bool" where
  "outcomes B K S None = True"
| "outcomes B K S (Some (Back s)) = B s"
| "outcomes B K S (Some (Booted h s)) = K h s"
| "outcomes B K S (Some (Spin s)) = S s"

named_theorems outcome_rules

lemma outcomes_bind [outcome_rules]: "outcomes B K S (r \<bind> f) \<longleftrightarrow> (\<forall>x. r = Some x \<longrightarrow> outcomes B K S (f x))"
  by (cases r) auto

lemma outcomes_andthen: "outcomes B K S r \<Longrightarrow> (\<And>s. B s \<Longrightarrow> outcomes B' K S (f s)) \<Longrightarrow> outcomes B' K S (andthen r f)"
  by (cases r) (auto simp: andthen_def split: outcome.split)

lemma outcomes_mono:
  "outcomes B K S r \<Longrightarrow> (\<And>s. B s \<Longrightarrow> B' s) \<Longrightarrow> (\<And>h s. K h s \<Longrightarrow> K' h s) \<Longrightarrow> (\<And>s. S s \<Longrightarrow> S' s) \<Longrightarrow> outcomes B' K' S' r"
  by (cases "(B, K, S, r)" rule: outcomes.cases) auto

lemma say_sel [simp]:
  "b_machine (say t s) = b_machine s" "b_clock (say t s) = b_clock s" "b_e2fs (say t s) = b_e2fs s"
  "b_tried (say t s) = b_tried s" "b_log (say t s) = b_log s @ [Printed t]" "b_part (say t s) = b_part s"
  by (simp_all add: say_def add_log_def)

lemma add_log_sel [simp]:
  "b_machine (add_log ev s) = b_machine s" "b_clock (add_log ev s) = b_clock s" "b_e2fs (add_log ev s) = b_e2fs s"
  "b_tried (add_log ev s) = b_tried s" "b_log (add_log ev s) = b_log s @ [ev]" "b_part (add_log ev s) = b_part s"
  by (simp_all add: add_log_def)

lemma boot_fs_close_sel [simp]:
  "b_machine (boot_fs_close s) = b_machine s" "b_clock (boot_fs_close s) = b_clock s"
  "b_tried (boot_fs_close s) = b_tried s" "b_log (boot_fs_close s) = b_log s" "\<not> this_open (b_e2fs (boot_fs_close s))"
  by (simp_all add: boot_fs_close_def ext2fs_fs_close_def)

text \<open>The steps that neither print nor touch the network.\<close>

definition quiet :: "'h boot_state \<Rightarrow> 'h boot_state \<Rightarrow> bool" where
  "quiet s s' \<longleftrightarrow> b_log s' = b_log s \<and> b_tried s' = b_tried s \<and> b_clock s' = b_clock s"

lemma boot_disk_close_quiet: "boot_disk_close env s = Some s' \<Longrightarrow> quiet s s' \<and> b_e2fs s' = b_e2fs s"
  by (auto simp: boot_disk_close_def quiet_def bind_eq_Some_conv)

lemma boot_sleep_log: "boot_sleep env n s = Some s' \<Longrightarrow> b_log s' = b_log s \<and> b_tried s' = b_tried s \<and> b_e2fs s' = b_e2fs s"
  by (auto simp: boot_sleep_def bind_eq_Some_conv)

lemma disk_read_opened_quiet: "disk_read_opened env fd s = Some (r, s') \<Longrightarrow> quiet s s'"
  by (auto simp: disk_read_opened_def quiet_def bind_eq_Some_conv Let_def)

lemma disk_read_file_quiet: "disk_read_file env name s = Some (r, s') \<Longrightarrow> quiet s s'"
  by (auto simp: disk_read_file_def quiet_def bind_eq_Some_conv Let_def split: option.splits dest!: disk_read_opened_quiet)

section \<open>The network is tried once\<close>

definition network_inv :: "'h boot_state \<Rightarrow> bool" where
  "network_inv s \<longleftrightarrow> int (count_list (b_log s) Network_started) = b_tried s \<and> b_tried s \<le> 1"

text \<open>The last thing that \<open>spin\<close> prints.\<close>

definition spinning :: "'h boot_state \<Rightarrow> bool" where
  "spinning s \<longleftrightarrow> (\<exists>evs. b_log s = evs @ [Printed ''failed to boot, spinning''])"

abbreviation network_outcomes :: "'h outcome option \<Rightarrow> bool" where
  "network_outcomes \<equiv> outcomes network_inv (\<lambda>h. network_inv) (\<lambda>s. network_inv s \<and> spinning s)"

lemma spinning_said [simp]: "spinning (say ''failed to boot, spinning'' s)"
  by (simp add: spinning_def)

lemma network_inv_started: "network_inv s \<Longrightarrow> b_tried s = 0 \<Longrightarrow> network_inv (add_log Network_started (s\<lparr>b_tried := 1\<rparr>))"
  by (simp add: network_inv_def)

lemma network_inv_quiet: "quiet s s' \<Longrightarrow> network_inv s' \<longleftrightarrow> network_inv s"
  by (simp add: network_inv_def quiet_def)

lemma network_inv_log [simp]:
  "network_inv (say t s) = network_inv s" "network_inv (add_log (Printed_part i t) s) = network_inv s"
  "network_inv (add_log Network_stopped s) = network_inv s"
  "network_inv (boot_fs_close s) = network_inv s" "network_inv (s\<lparr>b_machine := m\<rparr>) = network_inv s"
  "network_inv (s\<lparr>b_e2fs := e\<rparr>) = network_inv s" "network_inv (s\<lparr>b_part := p\<rparr>) = network_inv s"
  "network_inv (s\<lparr>b_gpt := g\<rparr>) = network_inv s"
  by (simp_all add: network_inv_def)

lemma network_inv_sleep: "boot_sleep env n s = Some s' \<Longrightarrow> network_inv s' \<longleftrightarrow> network_inv s"
  by (auto simp: network_inv_def dest: boot_sleep_log)

lemma start_loaded_network: "network_inv s \<Longrightarrow> network_outcomes (start_loaded env kb rb none opts s)"
  by (auto simp: start_loaded_def outcomes_bind Let_def split: boot_result.split prod.split)

lemma diskboot_network:
  assumes "\<And>s. network_inv s \<Longrightarrow> network_outcomes (net s)" "network_inv s"
  shows "network_outcomes (diskboot env net config len a s)"
  using assms
  by (auto simp: diskboot_def outcomes_bind Let_def split: option.splits
      dest!: boot_disk_close_quiet disk_read_file_quiet intro!: start_loaded_network
      simp: network_inv_quiet network_inv_sleep)

lemma find_config_log:
  "find_config env i s = Some (r, s') \<Longrightarrow>
   \<exists>evs. b_log s' = b_log s @ evs \<and> Network_started \<notin> set evs \<and> b_tried s' = b_tried s \<and> b_clock s' = b_clock s"
  by (auto simp: find_config_def bind_eq_Some_conv quiet_def split: option.splits if_splits dest!: disk_read_file_quiet)

lemma network_inv_find_config: "find_config env i s = Some (r, s') \<Longrightarrow> network_inv s' \<longleftrightarrow> network_inv s"
  by (auto simp: network_inv_def count_list_0_iff dest!: find_config_log)

lemma boot_partitions_network:
  assumes "\<And>s. network_inv s \<Longrightarrow> network_outcomes (net s)"
  shows "network_inv s \<Longrightarrow> network_outcomes (boot_partitions env net a parts i k s)"
proof (induction k arbitrary: i s)
  case (Suc k)
  show ?case
    using Suc.prems
    by (auto simp: outcomes_bind Let_def network_inv_find_config split: option.splits intro!: Suc.IH outcomes_andthen [OF diskboot_network] assms)
qed simp

lemma try_disk_boot_network:
  assumes "\<And>s. network_inv s \<Longrightarrow> network_outcomes (net s)" "network_inv s"
  shows "network_outcomes (try_disk_boot env net a s)"
  using assms(2)
  by (auto simp: try_disk_boot_def outcomes_bind Let_def network_inv_quiet
      dest!: boot_disk_close_quiet intro!: outcomes_andthen [OF boot_partitions_network] assms(1))

lemma dhcp_callback_network: "network_inv s \<Longrightarrow> network_outcomes (dhcp_callback env name s)"
  by (auto simp: dhcp_callback_def outcomes_bind Let_def network_inv_sleep split: prod.splits option.splits
      intro!: start_loaded_network)

lemma network_calls_network: "network_inv s \<Longrightarrow> network_outcomes (network_calls env calls s)"
proof (induction calls arbitrary: s)
  case (Cons c calls)
  obtain call f where c: "c = (call, f)" by force
  have "network_outcomes (case call of Dhcp_callback name \<Rightarrow> dhcp_callback env name (s\<lparr>b_machine := f (b_machine s)\<rparr>)
      | Network_boot_failed \<Rightarrow> network_boot_failed env (s\<lparr>b_machine := f (b_machine s)\<rparr>))"
    using Cons.prems by (auto split: network_call.split simp: network_boot_failed_def outcomes_bind network_inv_sleep
        intro!: dhcp_callback_network try_disk_boot_network)
  then show ?case by (simp add: c Let_def) (blast intro: outcomes_andthen Cons.IH)
qed simp

lemma try_network_boot_network: "network_inv s \<Longrightarrow> network_outcomes (try_network_boot env s)"
  by (auto simp: try_network_boot_def spin_def intro!: network_calls_network network_inv_started)

text \<open>
  C13: Whatever the disk holds, the configurations say and the server answers, \<open>do_main\<close> does not come
  back: it ends in the kernel or in the busy loop of \<open>spin\<close>, the last message saying so; and the
  network code has been started at most once, as the static counter of \<open>try_network_boot\<close> tells.\<close>

theorem do_main_ends:
  assumes "do_main env s = Some x" "b_tried s = 0" "Network_started \<notin> set (b_log s)"
  shows "case x of
      Back s' \<Rightarrow> False
    | Booted h s' \<Rightarrow> int (count_list (b_log s') Network_started) = b_tried s' \<and> b_tried s' \<le> 1
    | Spin s' \<Rightarrow> int (count_list (b_log s') Network_started) = b_tried s' \<and> b_tried s' \<le> 1
        \<and> last (b_log s') = Printed ''failed to boot, spinning''"
proof -
  have "network_inv s" using assms(2,3) by (simp add: network_inv_def)
  then have "outcomes (\<lambda>s. False) (\<lambda>h. network_inv) (\<lambda>s. network_inv s \<and> spinning s) (do_main env s)"
    unfolding do_main_def
    by (intro outcomes_andthen [OF try_disk_boot_network [OF try_network_boot_network]])
      (auto simp: outcomes_bind network_inv_sleep spin_def
        intro!: outcomes_andthen [OF try_network_boot_network])
  then show ?thesis using assms(1) by (cases x) (auto simp: network_inv_def spinning_def)
qed

section \<open>A kernel from the disk\<close>

lemma diskboot_no_network: "diskboot env net config len 0 s = diskboot env net' config len 0 s"
  by (simp add: diskboot_def)

lemma boot_partitions_no_network:
  "boot_partitions env net 0 parts i k s = boot_partitions env net' 0 parts i k s"
proof (induction k arbitrary: i s)
  case (Suc k)
  show ?case unfolding boot_partitions.simps Suc.IH diskboot_no_network [of env net _ _ _ net'] ..
qed simp

lemma try_disk_boot_no_network: "try_disk_boot env net 0 s = try_disk_boot env net' 0 s"
  unfolding try_disk_boot_def boot_partitions_no_network [of env net _ _ _ _ net'] ..

text \<open>What the kernel may rely on: the driver's disable routine has run, the file system is let go.\<close>

definition disk_released :: "'h boot_state \<Rightarrow> bool" where
  "disk_released s \<longleftrightarrow> v_disable (the_dev (b_machine s)) = disable_null \<and> \<not> this_open (b_e2fs s)"

abbreviation disk_outcomes :: "'h outcome option \<Rightarrow> bool" where
  "disk_outcomes \<equiv> outcomes (\<lambda>s. True) (\<lambda>h. disk_released) (\<lambda>s. True)"

lemma disk_close_disables: "disk_close io m = Some m' \<Longrightarrow> v_disable (the_dev m') = disable_null"
  by (auto simp: disk_close_def disk_disable_def disable_def upd_dev_def bind_eq_Some_conv split: disable_fn.splits)

lemma boot_disk_close_released: "boot_disk_close env (boot_fs_close s) = Some s' \<Longrightarrow> disk_released s'"
  by (auto simp: boot_disk_close_def disk_released_def bind_eq_Some_conv boot_fs_close_def ext2fs_fs_close_def
      dest: disk_close_disables)

lemma boot_sleep_released: "boot_sleep env n s = Some s' \<Longrightarrow> disk_released s' \<longleftrightarrow> disk_released s"
  by (auto simp: boot_sleep_def disk_released_def bind_eq_Some_conv)

lemma start_loaded_released: "disk_released s \<Longrightarrow> disk_outcomes (start_loaded env kb rb none opts s)"
  by (auto simp: start_loaded_def outcomes_bind Let_def split: boot_result.split prod.split)

lemma diskboot_released: "(\<And>s. disk_outcomes (net s)) \<Longrightarrow> disk_outcomes (diskboot env net config len a s)"
  by (auto simp: diskboot_def outcomes_bind Let_def split: option.splits
      dest!: boot_disk_close_released intro!: start_loaded_released simp: boot_sleep_released)

lemma boot_partitions_released:
  assumes "\<And>s. disk_outcomes (net s)"
  shows "disk_outcomes (boot_partitions env net a parts i k s)"
proof (induction k arbitrary: i s)
  case (Suc k)
  then show ?case
    by (auto simp: outcomes_bind Let_def split: option.splits intro!: outcomes_andthen [OF diskboot_released] assms)
qed simp

text \<open>
  C15: \<open>try_disk_boot\<close> without leave to try the network never does, and if it enters a kernel the disk
  is disabled and the file system closed.\<close>

theorem try_disk_boot_releases:
  "try_disk_boot env net 0 s = try_disk_boot env net' 0 s
   \<and> outcomes (\<lambda>s. True) (\<lambda>h s'. v_disable (the_dev (b_machine s')) = disable_null \<and> \<not> this_open (b_e2fs s')) (\<lambda>s. True)
       (try_disk_boot env net 0 s)"
proof -
  have "disk_outcomes (try_disk_boot env (\<lambda>s. None) 0 s)"
    by (auto simp: try_disk_boot_def outcomes_bind Let_def intro!: outcomes_andthen [OF boot_partitions_released])
  then show ?thesis
    unfolding try_disk_boot_no_network [of env net _ "\<lambda>s. None"] try_disk_boot_no_network [of env net' _ "\<lambda>s. None"]
    by (simp add: disk_released_def [abs_def])
qed

section \<open>Time\<close>

text \<open>The clock of the machine \<open>m\<close> runs: the statics of \<open>time.c\<close> are unset, or hold an earlier time.\<close>

definition time_runs :: "'h env \<Rightarrow> ('h \<Rightarrow> nat) \<Rightarrow> ('h \<Rightarrow> bool) \<Rightarrow> clock \<Rightarrow> 'h machine \<Rightarrow> bool" where
  "time_runs env ticks ok c m \<longleftrightarrow> clock_runs (v_rdtsc env) ticks ok \<and> ok (hw m) \<and> ticks (hw m) < 2 ^ 48
     \<and> (is_set c = 0 \<or> clock_started c (ticks (hw m)))"

lemma boot_sleep_ends:
  assumes "time_runs env ticks ok (b_clock s) (b_machine s)" "unat n \<le> 5"
  shows "\<exists>c h. boot_sleep env n s = Some (s\<lparr>b_clock := c, b_machine := (b_machine s)\<lparr>hw := h\<rparr>\<rparr>)
    \<and> ticks (hw (b_machine s)) + unat n * 1000 * 2 ^ 20 < ticks h + 2 ^ 20"
proof -
  have n: "unat (n * 1000) = unat n * 1000" using assms(2) by (simp add: unat_word_ariths)
  obtain c h where "msleep (v_rdtsc env) (n * 1000) (b_clock s) (hw (b_machine s)) = Some (c, h)"
    "ticks (hw (b_machine s)) + unat n * 1000 * 2 ^ 20 < ticks h + 2 ^ 20"
    using msleep_ok [of "v_rdtsc env" ticks ok "hw (b_machine s)" "b_clock s" "n * 1000"] assms n
    by (auto simp: time_runs_def)
  then show ?thesis by (intro exI [of _ c] exI [of _ h]) (simp add: boot_sleep_def sleep_def)
qed

lemma boot_sleep_steady:
  assumes "clock_steady (v_rdtsc env)"
  shows "\<exists>c h. boot_sleep env n s = Some (s\<lparr>b_clock := c, b_machine := (b_machine s)\<lparr>hw := h\<rparr>\<rparr>)"
proof -
  obtain c h where "sleep (v_rdtsc env) n (b_clock s) (hw (b_machine s)) = Some (c, h)" using sleep_steady [OF assms] by blast
  then show ?thesis by (intro exI [of _ c] exI [of _ h]) (simp add: boot_sleep_def)
qed

lemma do_main_without_devices:
  assumes "disk_open (v_io env) (v_find_pci env) (v_nic_probe env) 0 (b_machine s) = Some (r, m)" "r \<noteq> 0"
    and "v_network env = []" "b_tried s = 0" "time_runs env ticks ok (b_clock s) m"
  shows "\<exists>s'. do_main env s = Some (Spin s') \<and> ticks (hw m) + 4999 * 2 ^ 20 < ticks (hw (b_machine s'))
    \<and> b_log s' = b_log s @ [Printed ''mb_boot_tv: mythic-beasts.com appletv bootloader'', Printed ''Failed to open disk'',
        Network_started, Printed ''failed to boot, spinning'']"
proof -
  let ?s1 = "say ''Failed to open disk'' ((say ''mb_boot_tv: mythic-beasts.com appletv bootloader'' s)\<lparr>b_machine := m\<rparr>)"
  have "try_disk_boot env (try_network_boot env) 1 (say ''mb_boot_tv: mythic-beasts.com appletv bootloader'' s) = Some (Back ?s1)"
    using assms(1,2) by (simp add: try_disk_boot_def Let_def)
  moreover obtain c h where "boot_sleep env 5 ?s1 = Some (?s1\<lparr>b_clock := c, b_machine := m\<lparr>hw := h\<rparr>\<rparr>)"
    "ticks (hw m) + 4999 * 2 ^ 20 < ticks h"
    using boot_sleep_ends [of env ticks ok ?s1 5] assms(5) by auto
  ultimately show ?thesis
    using assms(3,4) by (simp add: do_main_def andthen_def try_network_boot_def spin_def)
qed

text \<open>
  C27: Without a disk and without a network the boot loader gives up after its five seconds: it
  ends in \<open>spin\<close>, having started the network code once.\<close>

theorem do_main_gives_up:
  assumes "disk_open (v_io env) (v_find_pci env) (v_nic_probe env) 0 (b_machine s) = Some (r, m)" "r \<noteq> 0"
    and "v_network env = []" "b_tried s = 0" "time_runs env ticks ok (b_clock s) m"
  shows "\<exists>s'. do_main env s = Some (Spin s') \<and> ticks (hw m) + 4999 * 2 ^ 20 < ticks (hw (b_machine s'))
    \<and> b_log s' = b_log s @ [Printed ''mb_boot_tv: mythic-beasts.com appletv bootloader'', Printed ''Failed to open disk'',
        Network_started, Printed ''failed to boot, spinning'']"
  using assms by (rule do_main_without_devices)

section \<open>Entering a kernel\<close>

text \<open>A file in memory where the boot loader does not write before it has used it.\<close>

definition loaded :: "memory \<Rightarrow> u32 \<Rightarrow> byte list \<Rightarrow> bool" where
  "loaded m a bs \<longleftrightarrow> load m a (length bs) = bs \<and> apart a (length bs) 0x100000 0x400000"

definition ramdisk_loaded :: "memory \<Rightarrow> u32 \<Rightarrow> byte list \<Rightarrow> bool" where
  "ramdisk_loaded m r rdk \<longleftrightarrow> loaded m r rdk \<and> apart r (length rdk) 0xF00000 (length rdk) \<and> (rdk \<noteq> [] \<longrightarrow> r \<noteq> 0)"

lemma up_to_nul_short: "0 \<in> set bs \<Longrightarrow> length (up_to_nul bs) < length bs"
  by (induction bs) auto

lemma start_loaded_enters:
  assumes "v_memory env kbuf (map_option fst rb) = (m, k, r)" "loaded m k img" "bzimage img"
    and "a = (if rb = None then fst none else r)" "n = (case rb of None \<Rightarrow> snd none | Some rb \<Rightarrow> snd rb)"
    and "ramdisk_loaded m a rdk" "if rdk = [] then a = 0 \<or> n = 0 else n = of_nat (length rdk)"
    and "0 \<in> set opts" "length opts = 1024"
  shows "\<exists>h. start_loaded env (kbuf, of_nat (length img)) rb none opts s = Some (Booted h s)
    \<and> entered img rdk (cmdline_text (video (v_parms env)) (up_to_nul opts)) h"
proof -
  have "0 \<notin> set (up_to_nul opts)" "length (up_to_nul opts) < 1024"
    using up_to_nul_short [OF assms(8)] assms(9) by (auto dest: set_takeWhileD)
  then obtain h where "boot_kernel (v_parms env) m k (of_nat (length img)) a n (c_string opts) = Some (Started h)"
    "entered img rdk (cmdline_text (video (v_parms env)) (up_to_nul opts)) h"
    using boot_kernel_ready [of m k img a rdk "up_to_nul opts" n "v_parms env"] assms
    unfolding loaded_def ramdisk_loaded_def c_string_def by blast
  then show ?thesis using assms(1,4,5) by (simp add: start_loaded_def)
qed

text \<open>The configuration that a text gives, and its arrays.\<close>

definition config_of :: "int option \<Rightarrow> int option \<Rightarrow> byte list \<Rightarrow> boot_config" where
  "config_of t f cfg = fold line_effect (lines_of cfg) (fresh_config t f)"

lemma options_terminated: "0 \<in> set (options c) \<Longrightarrow> 0 \<in> set (options (line_effect l c))"
  by (simp add: line_effect_def put_str_def)

lemma config_of_ok:
  assumes "lines_short cfg"
  shows "config_ok (config_of t f cfg)" "0 \<in> set (options (config_of t f cfg))"
proof -
  have "0 \<in> set (options (fold line_effect ls c))" if "0 \<in> set (options c)" for ls c
    using that by (induction ls arbitrary: c) (auto simp: options_terminated)
  then show "0 \<in> set (options (config_of t f cfg))" by (simp add: config_of_def fresh_config_def)
  show "config_ok (config_of t f cfg)"
    unfolding config_of_def by (rule config_ok_lines [OF fresh_config_ok assms])
qed

lemma config_of_lengths:
  assumes "lines_short cfg"
  shows "length (kernel (config_of t f cfg)) = 1024" "length (ramdisk (config_of t f cfg)) = 1024"
    "length (options (config_of t f cfg)) = 1024"
  using config_of_ok(1) [OF assms, of t f] by (simp_all add: config_ok_def array_ok_def)

lemma config_parsed:
  assumes "length cfg < length buf" "take (length cfg) buf = cfg" "lines_short cfg" "length cfg < 2 ^ 31 - 1"
  shows "\<exists>buf'. parse_config buf (int (length cfg)) (fresh_config t f) = Some (buf', config_of t f cfg)"
  using parse_config_lines [OF assms(1,2,4) fresh_config_ok, of t f] assms(3) by (auto simp: config_of_def)

lemma rd1_hd: "bs \<noteq> [] \<Longrightarrow> rd1 bs 0 = Some (hd bs)"
  by (simp add: rd1_def hd_conv_nth)

lemma name_printed:
  assumes "0 \<in> set name" "length (up_to_nul name) \<le> 1005"
  shows "console ''netboot: tftping %s'' [Mem_arg (Some name)] = Some ()"
proof -
  obtain r where r: "name = up_to_nul name @ 0 # r" using up_to_nul_split [OF up_to_nul_short [OF assms(1)]] by blast
  have "plain ''netboot: tftping ''" by (simp add: plain_def)
  from console_string [OF this, of "up_to_nul name" r]
  have "console ''netboot: tftping %s'' [Mem_arg (Some (up_to_nul name @ 0 # r))] = Some ()"
    using assms(2) by (auto dest: set_takeWhileD)
  then show ?thesis unfolding r [symmetric] .
qed

lemma dhcp_callback_runs:
  fixes s :: "'h boot_state"
  assumes "v_load_file env name (b_machine s) = (Some buf, of_nat (length cfg), m1)"
    and "length cfg < length buf" "take (length cfg) buf = cfg" "\<forall>l\<in>set (lines_of cfg). length l \<le> 1014" "length cfg < 2 ^ 31 - 1"
    and "c = config_of None (Some 0) cfg" "forcediskboot c = Some 0" "hd (kernel c) \<noteq> 0"
    and "v_load_file env (c_string (kernel c)) m1 = (Some img, klen, m2)"
    and "(if hd (ramdisk c) \<noteq> 0 then v_load_file env (c_string (ramdisk c)) m2 else (None, 0, m2)) = (rb, rlen, m3)"
    and "hd (ramdisk c) \<noteq> 0 \<longrightarrow> rb \<noteq> None" "clock_steady (v_rdtsc env)"
    and "0 \<in> set name" "length (up_to_nul name) \<le> 1005"
  shows "\<exists>s'. dhcp_callback env name s = start_loaded env (img, klen) (map_option (\<lambda>b. (b, rlen)) rb) (v_stack env) (options c) s'
    \<and> last (b_log s') = Network_stopped"
proof -
  have ok: "kernel c \<noteq> []" "ramdisk c \<noteq> []" using config_of_lengths [OF assms(4), of None "Some 0"] by (auto simp: assms(6))
  have out: "console ''netboot: tftping %s'' [Mem_arg (Some name)] = Some ()" by (rule name_printed [OF assms(13,14)])
  obtain buf' where p: "parse_config buf (int (length cfg)) (fresh_config None (Some 0)) = Some (buf', c)"
    using config_parsed [OF assms(2-5)] by (auto simp: assms(6))
  have n: "sint (of_nat (length cfg) :: u32) = int (length cfg)"
    using assms(5) sint_small [of "of_nat (length cfg)"] by (simp add: unat_of_nat)
  let ?s = "add_log Network_stopped ((say ''files loaded - booting'' (say ''netboot: config''
    (say ''netboot: tftping'' s)))\<lparr>b_machine := v_shutdown env m3\<rparr>)"
  obtain t h where z: "boot_sleep env 2 ?s = Some (?s\<lparr>b_clock := t, b_machine := (v_shutdown env m3)\<lparr>hw := h\<rparr>\<rparr>)"
    using boot_sleep_steady [OF assms(12), of 2 ?s] by auto
  have st: "say msg (s\<lparr>b_machine := x\<rparr>) = (say msg s)\<lparr>b_machine := x\<rparr>" for s :: "'h boot_state" and x msg
    by (simp add: say_def add_log_def)
  show ?thesis
    using assms(7-11) z
    by (cases "hd (ramdisk c) = 0") (auto simp: dhcp_callback_def out assms(1) n p rd1_hd ok st)
qed

text \<open>
  C14: A network boot whose configuration names a kernel and a ramdisk enters that kernel with the
  server's files and the configured options, after the network has been shut down.  The buffer that
  \<open>network_load_file\<close> returns for the configuration has a byte behind the text, and the name and
  the lines of the text fit into the buffer of \<open>printk\<close>.\<close>

theorem dhcp_callback_enters:
  assumes "v_load_file env name (b_machine s) = (Some buf, of_nat (length cfg), m1)"
    and "length cfg < length buf" "take (length cfg) buf = cfg" "\<forall>l\<in>set (lines_of cfg). length l \<le> 1014" "length cfg < 2 ^ 31 - 1"
    and "c = config_of None (Some 0) cfg" "forcediskboot c = Some 0" "hd (kernel c) \<noteq> 0" "hd (ramdisk c) \<noteq> 0"
    and "v_load_file env (c_string (kernel c)) m1 = (Some img, of_nat (length img), m2)" "bzimage img"
    and "v_load_file env (c_string (ramdisk c)) m2 = (Some rdk, of_nat (length rdk), m3)" "rdk \<noteq> []"
    and "v_memory env img (Some rdk) = (m, k, r)" "loaded m k img" "ramdisk_loaded m r rdk"
    and "clock_steady (v_rdtsc env)" "0 \<in> set name" "length (up_to_nul name) \<le> 1005"
  shows "\<exists>h s'. dhcp_callback env name s = Some (Booted h s')
    \<and> entered img rdk (cmdline_text (video (v_parms env)) (up_to_nul (options c))) h \<and> last (b_log s') = Network_stopped"
proof -
  obtain s' where s': "dhcp_callback env name s =
      start_loaded env (img, of_nat (length img)) (Some (rdk, of_nat (length rdk))) (v_stack env) (options c) s'"
    "last (b_log s') = Network_stopped"
    using dhcp_callback_runs [OF assms(1-8,10), of "Some rdk" "of_nat (length rdk)" m3] assms(9,12,17-19) by auto
  then show ?thesis
    using start_loaded_enters [of env img "Some (rdk, of_nat (length rdk))" m k r, OF _ assms(15,11) refl refl]
      assms(6,13,14,16) config_of_ok(2) [OF assms(4), of None "Some 0"] config_of_lengths(3) [OF assms(4), of None "Some 0"] by fastforce
qed

text \<open>
  C38: Without a ramdisk in the configuration \<open>dhcp_callback\<close> passes its uninitialised locals on: if
  they hold an address and a size, the kernel is entered with the bytes there as its ramdisk.  The
  buffer, the name and the lines are as in the property above.\<close>

theorem dhcp_callback_stray_ramdisk:
  assumes "v_load_file env name (b_machine s) = (Some buf, of_nat (length cfg), m1)"
    and "length cfg < length buf" "take (length cfg) buf = cfg" "\<forall>l\<in>set (lines_of cfg). length l \<le> 1014" "length cfg < 2 ^ 31 - 1"
    and "c = config_of None (Some 0) cfg" "forcediskboot c = Some 0" "hd (kernel c) \<noteq> 0" "hd (ramdisk c) = 0"
    and "v_load_file env (c_string (kernel c)) m1 = (Some img, of_nat (length img), m2)" "bzimage img"
    and "v_stack env = (a, n)" "n \<noteq> 0"
    and "v_memory env img None = (m, k, r)" "loaded m k img" "ramdisk_loaded m a (load m a (unat n))"
    and "clock_steady (v_rdtsc env)" "0 \<in> set name" "length (up_to_nul name) \<le> 1005"
  shows "\<exists>h s'. dhcp_callback env name s = Some (Booted h s')
    \<and> entered img (load m a (unat n)) (cmdline_text (video (v_parms env)) (up_to_nul (options c))) h"
proof -
  obtain s' where s': "dhcp_callback env name s = start_loaded env (img, of_nat (length img)) None (v_stack env) (options c) s'"
    using dhcp_callback_runs [OF assms(1-8,10), of None 0 m2] assms(9,17-19) by auto
  have "load m a (unat n) \<noteq> []" using assms(13) by (metis length_0_conv length_load unat_eq_zero)
  then show ?thesis
    using start_loaded_enters [of env img None m k r img a "(a, n)" n "load m a (unat n)", OF _ assms(15,11)]
      assms(6,12,14,16) s' config_of_ok(2) [OF assms(4), of None "Some 0"] config_of_lengths(3) [OF assms(4), of None "Some 0"] by fastforce
qed


section \<open>A machine without devices\<close>

text \<open>
  Its counter moves on by 1000 ticks with every reading; there is no PCI device, no drive answers,
  and the server has a configuration, a kernel and a ramdisk.
\<close>

definition no_ports :: "nat io" where
  "no_ports = \<lparr>inb = (\<lambda>p h. (0xFF, h)), inw = (\<lambda>p h. (0xFFFF, h)), inl = (\<lambda>p h. (0xFFFFFFFF, h)),
     outb = (\<lambda>v p h. h), outw = (\<lambda>v p h. h), outl = (\<lambda>v p h. h), currticks = (\<lambda>h. (0, h)),
     mdelay = (\<lambda>n h. h), udelay = (\<lambda>n h. h), poll_interruptions = id\<rparr>"

definition sample_server :: "bool \<Rightarrow> byte list \<Rightarrow> 'm \<Rightarrow> byte list option \<times> u32 \<times> 'm" where
  "sample_server with_ramdisk name m =
     (if name = lit ''k'' then (Some sample_image, 0x2000, m)
      else if name = lit ''r'' then (Some [1, 2, 3], 3, m)
      else let cfg = kw ''kernel k'' @ 0x0A # (if with_ramdisk then kw ''initrd r'' else [])
           in (Some (cfg @ [0]), of_nat (length cfg), m))"

definition sample_env :: "bool \<Rightarrow> nat env" where
  "sample_env with_ramdisk = \<lparr>v_io = no_ports, v_rdtsc = sample_rdtsc, v_find_pci = (\<lambda>t p h. (p\<lparr>p_driver := None\<rparr>, h)),
     v_nic_probe = (\<lambda>m. Some (0, m)), v_malloc = (\<lambda>n. None), v_guidcmp = (\<lambda>a b. 1), v_null_guid = replicate 16 0,
     v_load_file = sample_server with_ramdisk, v_shutdown = id, v_network = [], v_parms = sample_parms,
     v_memory = (\<lambda>k r. (sample_memory, 0x1000000, 0x1800000)), v_stack = (0x1800000, 2),
     v_parts = replicate 16 \<lparr>start = 0, psize = 0\<rparr>\<rparr>"

definition sample_boot :: "nat boot_state" where
  "sample_boot = \<lparr>b_machine = \<lparr>hw = 5000000, the_disk = sample_disk, the_controller = ide0, drives = [memset_info, memset_info]\<rparr>,
     b_clock = \<lparr>l0 = 0, h0 = 0, is_set = 0\<rparr>, b_part = \<lparr>start = 0, psize = 0\<rparr>, b_gpt = fresh_statics, b_e2fs = sample_e2fs,
     b_tried = 0, b_log = []\<rparr>"

lemma sample_time: "time_runs (sample_env b) id (\<lambda>t. True) (b_clock sample_boot) (b_machine sample_boot)"
  using sample_clock_runs by (simp add: time_runs_def sample_env_def sample_boot_def)

lemma sample_no_disk:
  "\<exists>m. disk_open (v_io (sample_env b)) (v_find_pci (sample_env b)) (v_nic_probe (sample_env b)) 0 (b_machine sample_boot) = Some (- 1, m)
    \<and> hw m = 5000000"
  by (simp add: disk_open_def disk_open_loop.simps disk_disable_def disable_def disk_probe_def probe_def pci_probe_def
      pci_probe_loop.simps sample_env_def sample_boot_def upd_dev_def memset_disk_def memset_dev_def memset_pci_device_def
      PROBE_FIRST_def PROBE_PCI_def PROBE_AWAKE_def PROBE_FAILED_def PROBE_NEXT_def PROBE_NONE_def PROBE_ISA_def Let_def)

lemma sample_gives_up:
  "\<exists>m. disk_open (v_io (sample_env b)) (v_find_pci (sample_env b)) (v_nic_probe (sample_env b)) 0
      (b_machine sample_boot) = Some (- 1, m) \<and> time_runs (sample_env b) id (\<lambda>t. True) (b_clock sample_boot) m"
  using sample_no_disk [of b] sample_time [of b] by (auto simp: time_runs_def sample_boot_def)

theorem do_main_gives_up_witness:
  "\<exists>s'. do_main (sample_env True) sample_boot = Some (Spin s') \<and> count_list (b_log s') Network_started = 1"
proof -
  obtain m where m: "disk_open (v_io (sample_env True)) (v_find_pci (sample_env True)) (v_nic_probe (sample_env True)) 0
      (b_machine sample_boot) = Some (- 1, m)" "time_runs (sample_env True) id (\<lambda>t. True) (b_clock sample_boot) m"
    using sample_gives_up by blast
  from do_main_gives_up [OF m(1) _ _ _ m(2)] show ?thesis by (auto simp: sample_env_def sample_boot_def)
qed

theorem do_main_ends_witness:
  "\<exists>s'. do_main (sample_env False) sample_boot = Some (Spin s') \<and> b_tried s' \<le> 1
    \<and> last (b_log s') = Printed ''failed to boot, spinning''"
proof -
  obtain m where m: "disk_open (v_io (sample_env False)) (v_find_pci (sample_env False)) (v_nic_probe (sample_env False)) 0
      (b_machine sample_boot) = Some (- 1, m)" "time_runs (sample_env False) id (\<lambda>t. True) (b_clock sample_boot) m"
    using sample_gives_up by blast
  then obtain s' where "do_main (sample_env False) sample_boot = Some (Spin s')"
    using do_main_without_devices [OF m(1) _ _ _ m(2)] by (auto simp: sample_env_def sample_boot_def)
  from do_main_ends [OF this] this show ?thesis by (simp add: sample_boot_def)
qed

text \<open>The configurations of the sample server.\<close>

lemma sample_config:
  defines "c \<equiv> \<lambda>b. config_of None (Some 0) (kw ''kernel k'' @ 0x0A # (if b then kw ''initrd r'' else []))"
  shows "forcediskboot (c b) = Some 0" "hd (kernel (c b)) = 0x6B" "c_string (kernel (c b)) = lit ''k''"
    "hd (ramdisk (c True)) = 0x72" "c_string (ramdisk (c True)) = lit ''r''" "hd (ramdisk (c False)) = 0"
    "up_to_nul (options (c b)) = []"
  by (simp_all add: c_def config_of_def line_effect_def has_prefix_def arg_of_def word_of_def is_space_def put_str_def
      fresh_config_def c_string_def lit_def)

lemma sample_kernel_loaded: "loaded sample_memory 0x1000000 sample_image" "bzimage sample_image"
  "length sample_image = 0x2000"
proof -
  show l: "length sample_image = 0x2000" by (simp add: sample_image_def)
  show "loaded sample_memory 0x1000000 sample_image"
    unfolding loaded_def using sample_loaded(1) l by (simp add: apart_def)
  show "bzimage sample_image" by (simp add: bzimage_def setup_size_def sample_image_def KERNEL_BUFFER_def)
qed

theorem dhcp_callback_enters_witness:
  "\<exists>h s'. dhcp_callback (sample_env True) (lit ''c'') sample_boot = Some (Booted h s')
    \<and> entered sample_image [1, 2, 3] (cmdline_text (video sample_parms) []) h"
proof -
  let ?cfg = "kw ''kernel k'' @ 0x0A # kw ''initrd r''" and ?m = "b_machine sample_boot"
  have c: "forcediskboot (config_of None (Some 0) ?cfg) = Some 0" "hd (kernel (config_of None (Some 0) ?cfg)) \<noteq> 0"
    "hd (ramdisk (config_of None (Some 0) ?cfg)) \<noteq> 0" "c_string (kernel (config_of None (Some 0) ?cfg)) = lit ''k''"
    "c_string (ramdisk (config_of None (Some 0) ?cfg)) = lit ''r''" "up_to_nul (options (config_of None (Some 0) ?cfg)) = []"
    using sample_config(1-3,7) [of True] sample_config(4,5) by simp_all
  have l: "v_load_file (sample_env True) (lit ''c'') ?m = (Some (?cfg @ [0]), of_nat (length ?cfg), ?m)"
    "v_load_file (sample_env True) (lit ''k'') ?m = (Some sample_image, of_nat (length sample_image), ?m)"
    "v_load_file (sample_env True) (lit ''r'') ?m = (Some [1, 2, 3], of_nat (length [1 :: byte, 2, 3]), ?m)"
    using sample_kernel_loaded(3) by (simp_all add: sample_env_def sample_server_def lit_def)
  have r: "ramdisk_loaded sample_memory 0x1800000 [1, 2, 3]"
    using sample_loaded(2) by (simp add: ramdisk_loaded_def loaded_def apart_def)
  have nm: "0 \<in> set (lit ''c'')" "length (up_to_nul (lit ''c'')) \<le> 1005" by (simp_all add: lit_def)
  have t: "clock_steady (v_rdtsc (sample_env True))"
    using sample_clock_steady by (simp add: sample_env_def)
  show ?thesis
    using dhcp_callback_enters [where img = sample_image and rdk = "[1, 2, 3]" and m = sample_memory and r = "0x1800000",
        OF l(1) _ _ _ _ refl c(1-3), unfolded c, OF _ _ _ _ l(2) sample_kernel_loaded(2) l(3) _ _ sample_kernel_loaded(1) r t nm]
    by (auto simp: sample_env_def)
qed

theorem dhcp_callback_stray_ramdisk_witness:
  "\<exists>h s'. dhcp_callback (sample_env False) (lit ''c'') sample_boot = Some (Booted h s')
    \<and> entered sample_image [1, 2] (cmdline_text (video sample_parms) []) h"
proof -
  let ?cfg = "kw ''kernel k'' @ [0x0A]" and ?m = "b_machine sample_boot"
  have c: "forcediskboot (config_of None (Some 0) ?cfg) = Some 0" "hd (kernel (config_of None (Some 0) ?cfg)) \<noteq> 0"
    "hd (ramdisk (config_of None (Some 0) ?cfg)) = 0" "c_string (kernel (config_of None (Some 0) ?cfg)) = lit ''k''"
    "up_to_nul (options (config_of None (Some 0) ?cfg)) = []"
    using sample_config(1-3,7) [of False] sample_config(6) by simp_all
  have l: "v_load_file (sample_env False) (lit ''c'') ?m = (Some (?cfg @ [0]), of_nat (length ?cfg), ?m)"
    "v_load_file (sample_env False) (lit ''k'') ?m = (Some sample_image, of_nat (length sample_image), ?m)"
    using sample_kernel_loaded(3) by (simp_all add: sample_env_def sample_server_def lit_def)
  have j: "load sample_memory 0x1800000 2 = [1, 2]"
    using load_part [of 0 2 3 sample_memory "0x1800000"] sample_loaded(2) by (simp add: bytes_at_def numeral_3_eq_3)
  have r: "ramdisk_loaded sample_memory 0x1800000 (load sample_memory 0x1800000 (unat (2 :: u32)))"
    by (simp add: ramdisk_loaded_def loaded_def apart_def)
  have nm: "0 \<in> set (lit ''c'')" "length (up_to_nul (lit ''c'')) \<le> 1005" by (simp_all add: lit_def)
  have t: "clock_steady (v_rdtsc (sample_env False))"
    using sample_clock_steady by (simp add: sample_env_def)
  show ?thesis
    using dhcp_callback_stray_ramdisk [where img = sample_image and n = 2 and m = sample_memory and a = "0x1800000",
        OF l(1) _ _ _ _ refl c(1-3), unfolded c, OF _ _ _ _ l(2) sample_kernel_loaded(2) _ _ _ sample_kernel_loaded(1) r t nm] j
    by (auto simp: sample_env_def)
qed


end
