(* ===== verification/Diskboot.thy ===== *)
theory Diskboot
  imports Boot
begin

text \<open>
  A boot from the disk, as a composition: the drive, the sector cache, the partition, the file system,
  the parser and the loader.  \<open>disk_ready\<close> is the state after a partition has been mounted; the files
  are those that \<open>resolve\<close> finds in the image of the partition.
\<close>

section \<open>Files of a mounted partition\<close>

abbreviation boot_image :: "media \<Rightarrow> harddisk_info \<Rightarrow> 'h boot_state \<Rightarrow> byte list" where
  "boot_image media info s \<equiv> partition_image media info (b_part s)"

definition disk_ready ::
  "'h env \<Rightarrow> ('h \<Rightarrow> ata) \<Rightarrow> nat \<times> nat \<Rightarrow> media \<Rightarrow> harddisk_info \<Rightarrow> u64 \<Rightarrow> 'h boot_state \<Rightarrow> bool" where
  "disk_ready env view geo media info n s \<longleftrightarrow>
     volume_ready (v_io env) view geo media info n (b_part s) (v_malloc env) (b_machine s)
     \<and> volume_ok (boot_image media info s) \<and> mounted (boot_image media info s) (b_e2fs s)
     \<and> table_ok (boot_image media info s) (b_e2fs s) \<and> has_room (b_e2fs s) \<and> length (namebuf (b_e2fs s)) = 1024"

definition file_at :: "byte list \<Rightarrow> byte list \<Rightarrow> byte list \<Rightarrow> bool" where
  "file_at img path data \<longleftrightarrow> (\<exists>cs k. path_ok img EXT2_ROOT_INO cs \<and> names_ok cs \<and> path_string cs path \<and> 0 \<notin> set path
     \<and> length path < 1024 \<and> resolve img EXT2_ROOT_INO cs = Some k \<and> \<not> S_ISLNK (i_mode (inode_at img k))
     \<and> file_ok img (block_size_of img) (inode_at img k) \<and> data = file_contents img (block_size_of img) (inode_at img k))"

text \<open>
  The allocator gives a block with room for the file.  The buffer that \<open>disk_read_file\<close> returns is that
  block, with the file at its start.
\<close>

definition allocates :: "'h env \<Rightarrow> byte list \<Rightarrow> bool" where
  "allocates env data \<longleftrightarrow> (\<exists>b. v_malloc env (of_nat (length data)) = Some b \<and> length data \<le> length b)"

definition file_buffer :: "'h env \<Rightarrow> byte list \<Rightarrow> byte list" where
  "file_buffer env data = data @ (case v_malloc env (of_nat (length data)) of None \<Rightarrow> [] | Some b \<Rightarrow> drop (length data) b)"

text \<open>What reading files leaves as it was.\<close>

definition same_boot :: "'h boot_state \<Rightarrow> 'h boot_state \<Rightarrow> bool" where
  "same_boot s s' \<longleftrightarrow> (\<exists>e m. s' = s\<lparr>b_e2fs := e, b_machine := m\<rparr>)"

lemma same_boot_sel:
  "same_boot s s' \<Longrightarrow> b_part s' = b_part s \<and> b_log s' = b_log s \<and> b_clock s' = b_clock s \<and> b_tried s' = b_tried s"
  by (auto simp: same_boot_def)

lemma same_boot_trans: "same_boot s s' \<Longrightarrow> same_boot s' s'' \<Longrightarrow> same_boot s s''"
proof -
  assume "same_boot s s'" "same_boot s' s''"
  then obtain e m e' m' where "s' = s\<lparr>b_e2fs := e, b_machine := m\<rparr>" "s'' = s'\<lparr>b_e2fs := e', b_machine := m'\<rparr>"
    unfolding same_boot_def by blast
  then have "s'' = s\<lparr>b_e2fs := e', b_machine := m'\<rparr>" by simp
  then show ?thesis unfolding same_boot_def by blast
qed

lemma disk_read_file_ok:
  assumes "disk_ready env view geo media info n s" "file_at (boot_image media info s) path data" "allocates env data"
  shows "\<exists>s'. disk_read_file env (path @ 0 # r) s = Some (Some (file_buffer env data, of_nat (length data)), s')
    \<and> disk_ready env view geo media info n s' \<and> same_boot s s'"
proof -
  let ?img = "boot_image media info s"
  obtain cs k where f: "path_ok ?img EXT2_ROOT_INO cs" "names_ok cs" "path_string cs path" "0 \<notin> set path" "length path < 1024"
    "resolve ?img EXT2_ROOT_INO cs = Some k" "\<not> S_ISLNK (i_mode (inode_at ?img k))"
    "file_ok ?img (block_size_of ?img) (inode_at ?img k)" "data = file_contents ?img (block_size_of ?img) (inode_at ?img k)"
    using assms(2) by (auto simp: file_at_def)
  have len: "length data = unat (i_size (inode_at ?img k))" by (simp add: f(9) file_contents_def)
  then have sz: "of_nat (length data) = i_size (inode_at ?img k)" by simp
  obtain b where b: "v_malloc env (i_size (inode_at ?img k)) = Some b" "unat (i_size (inode_at ?img k)) \<le> length b"
    using assms(3) len by (auto simp: allocates_def)
  have fb: "file_buffer env data = data @ drop (unat (i_size (inode_at ?img k))) b"
    using b(1) len by (simp add: file_buffer_def)
  define t where "t = drop (Suc (length path)) (namebuf (b_e2fs s))"
  note d = assms(1) [unfolded disk_ready_def]
  have nb: "strcpy (namebuf (b_e2fs s)) (path @ 0 # r) = Some (path @ 0 # t)"
    using f(4,5) d by (simp add: strcpy_cstring t_def)
  let ?e = "(b_e2fs s)\<lparr>namebuf := path @ 0 # t\<rparr>"
  have e: "volume_ok ?img" "volume_ready (v_io env) view geo media info n (b_part s) (v_malloc env) (b_machine s)"
    "mounted ?img ?e" "table_ok ?img ?e" "has_room ?e"
    using d by (auto simp: table_ok_def has_room_def free_slot_def slot_holds_def)
  have "length path < 4095" using f(5) by simp
  from pvol.read_whole_file [OF e f(1-4) this f(6-8) b(2), of t]
  obtain fd e1 s1 e2 s2 e3 where o: "ext2fs_open (boot_volume env s) ?e (b_machine s) (path @ 0 # t) = Some (Some fd, e1, s1)"
    "ext2fs_len e1 fd = Some (ucast (i_size (inode_at ?img k)))"
    "ext2fs_read (boot_volume env s) e1 s1 fd b (i_size (inode_at ?img k)) = Some (0, file_buffer env data, i_size (inode_at ?img k), e2, s2)"
    "ext2fs_close e2 fd = Some (0, e3)" "volume_ready (v_io env) view geo media info n (b_part s) (v_malloc env) s2"
    "mounted ?img e3" "table_ok ?img e3" "has_room e3" "length (namebuf e3) = length path + 1 + length t"
    unfolding boot_volume_def fb unfolding f(9) by blast
  have v: "boot_volume env (s\<lparr>b_e2fs := e1, b_machine := s1\<rparr>) = boot_volume env s" by (simp add: boot_volume_def)
  have u: "ucast (ucast (i_size (inode_at ?img k)) :: u64) = i_size (inode_at ?img k)" by (intro bit_word_eqI) (simp add: bit_simps)
  let ?s' = "s\<lparr>b_e2fs := e3, b_machine := s2\<rparr>"
  have "disk_read_opened env fd (s\<lparr>b_e2fs := e1, b_machine := s1\<rparr>) = Some (Some (file_buffer env data, i_size (inode_at ?img k)), ?s')"
    using o(2-4) b by (simp add: disk_read_opened_def v u)
  then have "disk_read_file env (path @ 0 # r) s = Some (Some (file_buffer env data, of_nat (length data)), ?s')"
    using o(1) by (simp add: disk_read_file_def nb sz)
  moreover have "length t = 1023 - length path" using d f(5) by (simp add: t_def)
  ultimately show ?thesis
    using o(5-9) e(1) f(5) by (intro exI [of _ ?s']) (simp add: disk_ready_def same_boot_def, blast)
qed

section \<open>Letting the disk go\<close>

lemma disk_close_ready:
  assumes "ide_serves io view geo media info n s"
  shows "\<exists>s'. disk_close io s = Some s'"
proof (cases "v_disable (the_dev s)")
  case disable_ide
  obtain i where i: "d_priv (the_disk s) = Some i" "i < length (drives s)" "drives s ! i = info" "i_ctrl info"
    "ata_conforms io view (the_controller s) geo media"
    using assms by (auto simp: ide_serves_def ide_ready_def)
  have "ata_status io view (the_controller s)" "ata_time io view" using i(5) by (simp_all add: ata_conforms_def)
  from ide_software_reset_ends [OF this, of "hw s"]
  obtain r h where "ide_software_reset io (the_controller s) (hw s) = Some (r, h)" by blast
  then have "ide_disable io s = Some (s\<lparr>hw := h\<rparr>)" using i(1-4) by (simp add: ide_disable_def rd1_def)
  then show ?thesis unfolding disk_close_def disk_disable_def disable_def disable_ide by simp
qed (use assms in \<open>simp_all add: disk_close_def disk_disable_def disable_def ide_serves_def\<close>)

lemma boot_disk_close_ready:
  assumes "ide_serves (v_io env) view geo media info n (b_machine s)"
  shows "\<exists>s'. boot_disk_close env s = Some s' \<and> b_log s' = b_log s"
  using disk_close_ready [OF assms] by (auto simp: boot_disk_close_def)

section \<open>The parts of a boot\<close>

lemma sint_of_length: "n < 2 ^ 31 \<Longrightarrow> sint (of_nat n :: u32) = int n"
  using sint_small [of "of_nat n"] by (simp add: unat_of_nat)

text \<open>The file named by one of the arrays of the configuration.\<close>

lemma disk_read_named:
  assumes "disk_ready env view geo media info n s" "length name = 1024"
    and "file_at (boot_image media info s) (up_to_nul name) data" "allocates env data"
  shows "\<exists>s'. disk_read_file env name s = Some (Some (file_buffer env data, of_nat (length data)), s')
    \<and> disk_ready env view geo media info n s' \<and> same_boot s s'"
proof -
  have "length (up_to_nul name) < length name" using assms(2,3) by (auto simp: file_at_def)
  then obtain r where r: "name = up_to_nul name @ 0 # r" using up_to_nul_split by blast
  show ?thesis using disk_read_file_ok [OF assms(1,3,4), of r] unfolding r [symmetric] .
qed

lemma disk_ready_log: "disk_ready env view geo media info n s \<Longrightarrow> disk_ready env view geo media info n (add_log ev s)"
  by (simp add: disk_ready_def add_log_def)

lemma allocates_small:
  assumes "disk_ready env view geo media info n s" "length data \<le> 65536"
  shows "allocates env data"
proof -
  have "unat (of_nat (length data) :: u32) = length data" using assms(2) by (simp add: unat_of_nat)
  moreover have "\<forall>k. unat k \<le> 65536 \<longrightarrow> (\<exists>b. v_malloc env k = Some b \<and> unat k \<le> length b)"
    using assms(1) by (simp add: disk_ready_def volume_ready_def)
  ultimately show ?thesis using assms(2) unfolding allocates_def by (metis (no_types))
qed

text \<open>After the files are read: the disk is let go, two seconds pass, the kernel is started.\<close>

lemma disk_handover:
  assumes "disk_ready env view geo media info n s" "clock_steady (v_rdtsc env)"
  shows "\<exists>s1 s2. boot_disk_close env (boot_fs_close (say msg s)) = Some s1 \<and> boot_sleep env 2 s1 = Some s2
    \<and> disk_released s2 \<and> last (b_log s2) = Printed msg"
proof -
  have i: "ide_serves (v_io env) view geo media info n (b_machine (boot_fs_close (say msg s)))"
    using assms(1) by (simp add: disk_ready_def volume_ready_def)
  obtain s1 where 1: "boot_disk_close env (boot_fs_close (say msg s)) = Some s1" "b_log s1 = b_log (boot_fs_close (say msg s))"
    using boot_disk_close_ready [OF i] by blast
  obtain s2 where 2: "boot_sleep env 2 s1 = Some s2" using boot_sleep_steady [OF assms(2)] by blast
  show ?thesis
    using 1 2 boot_sleep_released [OF 2] boot_disk_close_released [OF 1(1)] boot_sleep_log [OF 2]
    by (intro exI [of _ s1] exI [of _ s2]) simp
qed

section \<open>From the configuration to the kernel\<close>

text \<open>
  A configuration \<open>cfg\<close> on a volume \<open>vol\<close> that can be booted: it names a kernel, the kernel and the
  ramdisk, if one is named, are files of the volume, the allocator has room for them, and the
  buffers lie in the memory \<open>m\<close> at \<open>k\<close> and \<open>r\<close> where the loader does not write.
\<close>

definition bootable ::
  "'h env \<Rightarrow> byte list \<Rightarrow> byte list \<Rightarrow> boot_config \<Rightarrow> byte list \<Rightarrow> byte list \<Rightarrow> bool" where
  "bootable env vol cfg c img rdk \<longleftrightarrow> lines_short cfg \<and> length cfg < 2 ^ 31 - 1 \<and> c = config_of (Some 0) None cfg
     \<and> hd (kernel c) \<noteq> 0 \<and> file_at vol (up_to_nul (kernel c)) img \<and> allocates env img \<and> bzimage img
     \<and> (if hd (ramdisk c) = 0 then rdk = []
        else file_at vol (up_to_nul (ramdisk c)) rdk \<and> allocates env rdk \<and> rdk \<noteq> [])
     \<and> (\<exists>m k r. v_memory env (file_buffer env img) (if hd (ramdisk c) = 0 then None else Some (file_buffer env rdk)) = (m, k, r)
          \<and> loaded m k img \<and> ramdisk_loaded m (if hd (ramdisk c) = 0 then 0 else r) rdk)"

lemma diskboot_ready:
  assumes "disk_ready env view geo media info n s" "clock_steady (v_rdtsc env)" "length cfg < length buf" "take (length cfg) buf = cfg"
    and "bootable env (boot_image media info s) cfg c img rdk" "allowed = 0 \<or> trynetboot c = Some 0"
  shows "\<exists>h s'. diskboot env net buf (of_nat (length cfg)) allowed s = Some (Booted h s')
    \<and> entered img rdk (cmdline_text (video (v_parms env)) (up_to_nul (options c))) h \<and> disk_released s'
    \<and> last (b_log s') = Printed ''files loaded - booting''"
proof -
  have cfg: "lines_short cfg" "length cfg < 2 ^ 31 - 1" "c = config_of (Some 0) None cfg" "hd (kernel c) \<noteq> 0"
    and img: "file_at (boot_image media info s) (up_to_nul (kernel c)) img" "allocates env img" "bzimage img"
    and rdk: "if hd (ramdisk c) = 0 then rdk = []
      else file_at (boot_image media info s) (up_to_nul (ramdisk c)) rdk \<and> allocates env rdk \<and> rdk \<noteq> []"
    using assms(5) unfolding bootable_def by blast+
  obtain m k r where mem: "v_memory env (file_buffer env img) (if hd (ramdisk c) = 0 then None else Some (file_buffer env rdk)) = (m, k, r)"
    "loaded m k img" "ramdisk_loaded m (if hd (ramdisk c) = 0 then 0 else r) rdk"
    using assms(5) unfolding bootable_def by blast
  have ok: "length (kernel c) = 1024" "length (ramdisk c) = 1024" "length (options c) = 1024" "0 \<in> set (options c)"
    using config_of_lengths [OF cfg(1), of "Some 0" None] config_of_ok(2) [OF cfg(1), of "Some 0" None] by (simp_all add: cfg(3))
  obtain buf' where p: "parse_config buf (int (length cfg)) (fresh_config (Some 0) None) = Some (buf', c)"
    using config_parsed [OF assms(3,4) cfg(1,2)] by (auto simp: cfg(3))
  obtain s1 where 1: "disk_read_file env (kernel c) s = Some (Some (file_buffer env img, of_nat (length img)), s1)"
    "disk_ready env view geo media info n s1" "same_boot s s1"
    using disk_read_named [OF assms(1) ok(1) img(1,2)] by blast
  define rb where "rb = (if hd (ramdisk c) = 0 then None else Some (file_buffer env rdk, of_nat (length rdk) :: u32))"
  obtain s2 where 2: "(if hd (ramdisk c) \<noteq> 0 then disk_read_file env (ramdisk c) s1 else Some (None, s1)) = Some (rb, s2)"
    "disk_ready env view geo media info n s2"
    using disk_read_named [OF 1(2) ok(2), of rdk] 1(2) rdk same_boot_sel [OF 1(3)]
    by (cases "hd (ramdisk c) = 0") (auto simp: rb_def)
  obtain s3 s4 where 3: "boot_disk_close env (boot_fs_close (say ''files loaded - booting'' s2)) = Some s3"
    "boot_sleep env 2 s3 = Some s4" "disk_released s4" "last (b_log s4) = Printed ''files loaded - booting''"
    using disk_handover [OF 2(2) assms(2)] by blast
  have h: "rd1 (kernel c) 0 = Some (hd (kernel c))" "rd1 (ramdisk c) 0 = Some (hd (ramdisk c))"
    using ok by (auto intro!: rd1_hd)
  have b: "(hd (ramdisk c) \<noteq> 0 \<and> rb = None) = False" "(allowed \<noteq> 0 \<and> trynetboot c \<noteq> Some 0) = False"
    using assms(6) by (auto simp: rb_def)
  have n: "length cfg < 2 ^ 31" using cfg(2) by simp
  have "diskboot env net buf (of_nat (length cfg)) allowed s =
      start_loaded env (file_buffer env img, of_nat (length img)) rb (0, snd (v_stack env)) (options c) s4"
    using cfg(4) 1(1) 2(1) 3(1,2) by (simp add: diskboot_def sint_of_length [OF n] p h b cong: if_cong)
  moreover obtain x where "start_loaded env (file_buffer env img, of_nat (length img)) rb (0, snd (v_stack env)) (options c) s4 = Some (Booted x s4)"
    "entered img rdk (cmdline_text (video (v_parms env)) (up_to_nul (options c))) x"
    using start_loaded_enters [of env "file_buffer env img" rb m k r img, OF _ mem(2) img(3) refl refl,
        of "(0, snd (v_stack env))" rdk "options c" s4] rdk mem(1,3) ok(3,4)
    by (cases "hd (ramdisk c) = 0") (auto simp: rb_def)
  ultimately show ?thesis using 3(3,4) by simp
qed

lemma mount_ready:
  assumes "volume_ready (v_io env) view geo media info n (b_part s) (v_malloc env) (b_machine s)"
    and "volume_ok (boot_image media info s)" "length (namebuf (b_e2fs s)) = 1024"
  shows "\<exists>e m. ext2fs_fs_open (boot_volume env s) (b_e2fs s) (b_machine s) = Some (0, e, m)
    \<and> disk_ready env view geo media info n (s\<lparr>b_e2fs := e, b_machine := m\<rparr>)"
proof -
  obtain e m where "ext2fs_fs_open (boot_volume env s) (b_e2fs s) (b_machine s) = Some (0, e, m)"
    "volume_ready (v_io env) view geo media info n (b_part s) (v_malloc env) m" "mounted (boot_image media info s) e"
    "table_ok (boot_image media info s) e" "has_room e" "namebuf e = namebuf (b_e2fs s)"
    using pvol.ext2fs_fs_open_ok [OF assms(2,1), of "b_e2fs s"] unfolding boot_volume_def by blast
  then show ?thesis using assms(2,3) by (intro exI [of _ e] exI [of _ m]) (simp add: disk_ready_def)
qed

section \<open>Properties\<close>

text \<open>
  C5: When the partition at hand holds an ext2 volume whose \<open>/mb_boot_tv.conf\<close> names a kernel of that
  volume, the loop of \<open>try_disk_boot\<close> mounts it, reads and parses the file and enters the kernel with
  the bytes of its file, the ramdisk's if one is named, and the configured options; by then the disk
  has been disabled and the file system closed.  The allocator has to grant the configuration
  at least one byte more than the file has, for the terminator that the parser stores.\<close>

theorem partition_boot_enters:
  assumes "i < length parts" "g = partition_set (parts ! i) (b_part s)"
    and "volume_ready (v_io env) view geo media info n g (v_malloc env) (b_machine s)"
    and "vol = partition_image media info g" "volume_ok vol" "length (namebuf (b_e2fs s)) = 1024"
    and "file_at vol (kw ''/mb_boot_tv.conf'') cfg" "v_malloc env (of_nat (length cfg)) = Some b" "length cfg < length b"
    and "bootable env vol cfg c img rdk" "allowed = 0 \<or> trynetboot c = Some 0" "clock_steady (v_rdtsc env)"
  shows "\<exists>h s'. boot_partitions env net allowed parts i (Suc j) s = Some (Booted h s')
    \<and> entered img rdk (cmdline_text (video (v_parms env)) (up_to_nul (options c))) h
    \<and> v_disable (the_dev (b_machine s')) = disable_null \<and> \<not> this_open (b_e2fs s')
    \<and> last (b_log s') = Printed ''files loaded - booting''"
proof -
  let ?s = "s\<lparr>b_part := g\<rparr>"
  obtain e m where 1: "ext2fs_fs_open (boot_volume env ?s) (b_e2fs s) (b_machine s) = Some (0, e, m)"
    "disk_ready env view geo media info n (?s\<lparr>b_e2fs := e, b_machine := m\<rparr>)"
    using mount_ready [of env view geo media info n ?s] assms(3-6) by auto
  let ?s1 = "?s\<lparr>b_e2fs := e, b_machine := m\<rparr>"
  have "allocates env cfg" using assms(8,9) by (simp add: allocates_def)
  then obtain s2 where 2: "disk_read_file env BOOTCONF ?s1 = Some (Some (file_buffer env cfg, of_nat (length cfg)), s2)"
    "disk_ready env view geo media info n s2" "same_boot ?s1 s2"
    using disk_read_file_ok [OF 1(2), of "kw ''/mb_boot_tv.conf''" cfg "[]"] assms(4,7) by (auto simp: BOOTCONF_def lit_def)
  let ?s3 = "add_log (Printed_part i ''/mb_boot_tv.conf found'') s2"
  have "length cfg < length (file_buffer env cfg)" "take (length cfg) (file_buffer env cfg) = cfg"
    using assms(8,9) by (simp_all add: file_buffer_def)
  from diskboot_ready [where net = net and img = img and rdk = rdk, OF disk_ready_log [OF 2(2), where ev = "Printed_part i ''/mb_boot_tv.conf found''"] assms(12) this _ assms(11)]
  obtain h s' where 3: "diskboot env net (file_buffer env cfg) (of_nat (length cfg)) allowed ?s3 = Some (Booted h s')"
    "entered img rdk (cmdline_text (video (v_parms env)) (up_to_nul (options c))) h" "disk_released s'"
    "last (b_log s') = Printed ''files loaded - booting''"
    using assms(4,10) same_boot_sel [OF 2(3)] by auto
  have "find_config env i ?s1 = Some (Some (file_buffer env cfg, of_nat (length cfg)), ?s3)"
    by (simp add: find_config_def 2(1))
  then have "boot_partitions env net allowed parts i (Suc j) s = Some (Booted h s')"
    using assms(1) 1(1) 3(1) by (simp add: rd1_def Let_def andthen_def flip: assms(2))
  then show ?thesis using 3(2-4) by (simp add: disk_released_def)
qed

text \<open>
  C39: If the allocator gives the configuration a block of exactly the size of its file, which is the
  size that \<open>disk_read_file\<close> asks for, a boot from the disk never gets past the configuration
  without writing out of bounds: whatever the file says, the terminating NUL that \<open>parse_config\<close> stores
  is one byte behind the buffer.\<close>

theorem disk_config_overruns:
  assumes "disk_ready env view geo media info n s" "file_at (boot_image media info s) path cfg"
    and "v_malloc env (of_nat (length cfg)) = Some b" "length b = length cfg" "length cfg < 2 ^ 31"
  shows "\<exists>s'. disk_read_file env (path @ 0 # r) s = Some (Some (cfg, of_nat (length cfg)), s')
    \<and> disk_ready env view geo media info n s' \<and> diskboot env net cfg (of_nat (length cfg)) allowed s' = None"
proof -
  have "allocates env cfg" "file_buffer env cfg = cfg" using assms(3,4) by (simp_all add: allocates_def file_buffer_def)
  then obtain s' where "disk_read_file env (path @ 0 # r) s = Some (Some (cfg, of_nat (length cfg)), s')"
    "disk_ready env view geo media info n s'"
    using disk_read_file_ok [OF assms(1,2)] by metis
  then show ?thesis using assms(5) by (simp add: diskboot_def sint_of_length parse_config_exact_buffer_overruns)
qed

section \<open>A machine with a disk\<close>

text \<open>
  The sample volume on the sample drive; its counter moves on by 1000 ticks with every reading.  The
  configuration says \<open>kernel /k\<close>; that file is loaded at 16 MiB.  One allocator gives a byte more than
  it is asked for, the other one exactly what it is asked for.
\<close>

definition slack_malloc :: "u32 \<Rightarrow> byte list option" where
  "slack_malloc k = Some (replicate (unat k + 1) 0)"

definition disk_env :: "(u32 \<Rightarrow> byte list option) \<Rightarrow> ata env" where
  "disk_env malloc = \<lparr>v_io = drive_io (16, 63) volume_media, v_rdtsc = (\<lambda>h. (of_nat (a_clock h), h\<lparr>a_clock := a_clock h + 1000\<rparr>)),
     v_find_pci = (\<lambda>t p h. (p\<lparr>p_driver := None\<rparr>, h)), v_nic_probe = (\<lambda>m. Some (0, m)), v_malloc = malloc,
     v_guidcmp = (\<lambda>a b. 1), v_null_guid = replicate 16 0, v_load_file = (\<lambda>n m. (None, 0, m)), v_shutdown = id,
     v_network = [], v_parms = sample_parms, v_memory = (\<lambda>k r. (\<lambda>a. k ! unat (a - 0x1000000), 0x1000000, 0)),
     v_stack = (0, 0), v_parts = replicate 16 \<lparr>start = 0, psize = 0\<rparr>\<rparr>"

definition disk_state :: "e2fs \<Rightarrow> ata machine \<Rightarrow> ata boot_state" where
  "disk_state e m = \<lparr>b_machine = m, b_clock = \<lparr>l0 = 0, h0 = 0, is_set = 0\<rparr>, b_part = sample_partition, b_gpt = fresh_statics,
     b_e2fs = e, b_tried = 0, b_log = []\<rparr>"

definition disk_e2fs :: e2fs where
  "disk_e2fs = sample_e2fs\<lparr>namebuf := replicate 1024 0\<rparr>"

lemma disk_env_sel [simp]:
  "v_io (disk_env a) = drive_io (16, 63) volume_media" "v_malloc (disk_env a) = a" "v_parms (disk_env a) = sample_parms"
  "v_memory (disk_env a) = (\<lambda>k r. (\<lambda>a. k ! unat (a - 0x1000000), 0x1000000, 0))"
  by (simp_all add: disk_env_def)

lemma disk_state_sel [simp]:
  "b_machine (disk_state e m) = m" "b_part (disk_state e m) = sample_partition" "b_e2fs (disk_state e m) = e"
  by (simp_all add: disk_state_def)

lemma disk_env_steady: "clock_steady (v_rdtsc (disk_env a))"
  by (auto simp: clock_steady_def disk_env_def intro: exI [of _ 1000])

lemma namebuf_disk_e2fs: "length (namebuf disk_e2fs) = 1024"
  by (simp add: disk_e2fs_def del: replicate_numeral)

lemma disk_state_ready:
  "\<exists>e m. ext2fs_fs_open (boot_volume (disk_env sample_malloc) (disk_state e m)) disk_e2fs sample_machine = Some (0, e, m)
    \<and> disk_ready (disk_env sample_malloc) drive_view (16, 63) volume_media sample_info 1000 (disk_state e m)"
proof -
  obtain e m where 1: "ext2fs_fs_open (boot_volume (disk_env sample_malloc) (disk_state disk_e2fs sample_machine)) disk_e2fs sample_machine
      = Some (0, e, m)"
    "disk_ready (disk_env sample_malloc) drive_view (16, 63) volume_media sample_info 1000
      ((disk_state disk_e2fs sample_machine)\<lparr>b_e2fs := e, b_machine := m\<rparr>)"
    using mount_ready [of "disk_env sample_malloc" drive_view "(16, 63)" volume_media sample_info 1000 "disk_state disk_e2fs sample_machine"]
      volume_media_ready volume_image_ok namebuf_disk_e2fs by (auto simp: volume_image_def)
  have "(disk_state disk_e2fs sample_machine)\<lparr>b_e2fs := e, b_machine := m\<rparr> = disk_state e m" by (simp add: disk_state_def)
  with 1 show ?thesis by (intro exI [of _ e] exI [of _ m]) (simp add: boot_volume_def)
qed

definition disk_kernel :: "byte list" where
  "disk_kernel = file_contents volume_image 1024 volume_file"

lemma length_disk_kernel: "length disk_kernel = 0x2000"
  by (simp add: disk_kernel_def file_contents_def volume_file_fields)

lemma disk_kernel_file: "file_at volume_image (kw ''/k'') disk_kernel"
  using volume_path volume_file_ok unfolding file_at_def
  by (intro exI [of _ "[[0x6B]]"] exI [of _ 3])
    (simp add: volume_inodes volume_file_fields S_ISLNK_def volume_geometry disk_kernel_def)

lemma disk_config_file: "file_at volume_image (kw ''/mb_boot_tv.conf'') (kw ''kernel /k'')"
proof -
  have "kw ''/mb_boot_tv.conf'' = 0x2F # volume_name" by (simp add: volume_name_def)
  then show ?thesis
    using volume_conf_path volume_text_ok volume_text_contents unfolding file_at_def
    by (intro exI [of _ "[volume_name]"] exI [of _ 4])
      (simp add: volume_inodes volume_text_fields S_ISLNK_def volume_geometry volume_name_def)
qed

lemma disk_kernel_bzimage: "bzimage disk_kernel"
proof -
  have "file_block volume_image 1024 volume_file 0 = volume_media 0 50 @ volume_media 0 51"
    using volume_image_sectors(1) [of 10 2] by (simp add: file_block_def block_map_def volume_file_fields block_at_def sectors_from_2)
  then have b: "disk_kernel ! i = volume_media 0 50 ! i" if "i < 512" for i
    using that by (simp add: disk_kernel_def file_contents_def volume_file_fields nth_append)
  have "disk_kernel ! 0x1FE = 0x55" "disk_kernel ! 0x1FF = 0xAA" "disk_kernel ! 0x1F1 = 0"
    by (simp_all add: b) (simp_all add: volume_media_def nth_append nth_Cons' del: replicate_numeral)
  then show ?thesis by (simp add: bzimage_def setup_size_def length_disk_kernel KERNEL_BUFFER_def)
qed

lemma disk_kernel_loaded:
  "loaded (\<lambda>a. (disk_kernel @ t) ! unat (a - 0x1000000)) 0x1000000 disk_kernel"
  "ramdisk_loaded (\<lambda>a. (disk_kernel @ t) ! unat (a - 0x1000000)) 0 []"
proof -
  have "load (\<lambda>a. (disk_kernel @ t) ! unat (a - 0x1000000)) 0x1000000 (length disk_kernel) = disk_kernel"
    unfolding load_def by (rule nth_equalityI) (simp_all add: unat_of_nat length_disk_kernel nth_append)
  then show "loaded (\<lambda>a. (disk_kernel @ t) ! unat (a - 0x1000000)) 0x1000000 disk_kernel"
    by (simp add: loaded_def apart_def length_disk_kernel)
  show "ramdisk_loaded (\<lambda>a. (disk_kernel @ t) ! unat (a - 0x1000000)) 0 []" by (simp add: ramdisk_loaded_def loaded_def load_def apart_def)
qed

lemma disk_config:
  defines "c \<equiv> config_of (Some 0) None (kw ''kernel /k'')"
  shows "trynetboot c = Some 0" "hd (kernel c) \<noteq> 0" "up_to_nul (kernel c) = kw ''/k''" "hd (ramdisk c) = 0"
    "up_to_nul (options c) = []"
  by (simp_all add: c_def config_of_def line_effect_def has_prefix_def arg_of_def word_of_def is_space_def put_str_def fresh_config_def)

lemma disk_bootable:
  "bootable (disk_env slack_malloc) volume_image (kw ''kernel /k'') (config_of (Some 0) None (kw ''kernel /k'')) disk_kernel []"
proof -
  have b: "file_buffer (disk_env slack_malloc) disk_kernel = disk_kernel @ [0]"
    by (simp add: file_buffer_def slack_malloc_def length_disk_kernel del: replicate_numeral)
  have a: "allocates (disk_env slack_malloc) disk_kernel"
    by (simp add: allocates_def slack_malloc_def length_disk_kernel del: replicate_numeral)
  have l: "lines_short (kw ''kernel /k'')" "length (kw ''kernel /k'') < 2 ^ 31 - 1" by simp_all
  show ?thesis
    unfolding bootable_def
    using l disk_config a disk_kernel_file disk_kernel_bzimage disk_kernel_loaded [of "[0]"]
    by (simp add: b)
qed

theorem partition_boot_enters_witness:
  "\<exists>h s'. boot_partitions (disk_env slack_malloc) (\<lambda>s. None) 1 [sample_partition] 0 1 (disk_state disk_e2fs sample_machine)
      = Some (Booted h s')
    \<and> entered disk_kernel [] (cmdline_text (video sample_parms) []) h"
proof -
  have g: "sample_partition = partition_set ([sample_partition] ! 0) (b_part (disk_state disk_e2fs sample_machine))"
    by (simp add: partition_set_def)
  have r: "volume_ready (v_io (disk_env slack_malloc)) drive_view (16, 63) volume_media sample_info 1000 sample_partition
      (v_malloc (disk_env slack_malloc)) (b_machine (disk_state disk_e2fs sample_machine))"
    using volume_media_granted [of slack_malloc "(16, 63)"] by (simp add: slack_malloc_def)
  have m: "v_malloc (disk_env slack_malloc) (of_nat (length (kw ''kernel /k''))) = Some (replicate 10 0)"
    by (simp add: slack_malloc_def del: replicate_numeral)
  have n: "length (namebuf (b_e2fs (disk_state disk_e2fs sample_machine))) = 1024" by (simp add: namebuf_disk_e2fs)
  have t: "(1 :: int) = 0 \<or> trynetboot (config_of (Some 0) None (kw ''kernel /k'')) = Some 0" using disk_config(1) by blast
  have l: "0 < length [sample_partition]" "length (kw ''kernel /k'') < length (replicate 10 (0 :: byte))" by simp_all
  from partition_boot_enters [OF l(1) g r volume_image_def volume_image_ok n disk_config_file m l(2) disk_bootable t disk_env_steady,
      of "\<lambda>s. None" 0]
  show ?thesis unfolding disk_config(5) disk_env_sel One_nat_def by blast
qed

theorem disk_config_overruns_witness:
  "\<exists>e m s'. disk_read_file (disk_env sample_malloc) (kw ''/k'' @ [0]) (disk_state e m) = Some (Some (disk_kernel, 8192), s')
    \<and> diskboot (disk_env sample_malloc) (\<lambda>s. None) disk_kernel 8192 1 s' = None"
proof -
  obtain e m where r: "disk_ready (disk_env sample_malloc) drive_view (16, 63) volume_media sample_info 1000 (disk_state e m)"
    using disk_state_ready by blast
  have f: "file_at (boot_image volume_media sample_info (disk_state e m)) (kw ''/k'') disk_kernel"
    using disk_kernel_file by (simp add: volume_image_def)
  have a: "v_malloc (disk_env sample_malloc) (of_nat (length disk_kernel)) = Some (replicate 0x2000 0)"
    by (simp add: sample_malloc_def length_disk_kernel del: replicate_numeral)
  show ?thesis
    using disk_config_overruns [OF r f a, of "[]" "\<lambda>s. None" 1] unfolding length_disk_kernel
    by (auto simp del: replicate_numeral)
qed

end
