(* ===== verification/Net.thy ===== *)
theory Net
  imports Misc Vsprintf
begin

text \<open>
  The packet layer of \<^verbatim>\<open>src/main/eb/nic.c\<close>: ARP, the IP and UDP headers, and the loop that waits for
  a reply.

  The card's driver is behind the function pointers of \<open>struct nic\<close>; here it is a pair of operations
  on a hardware state of an arbitrary type, with the tick counter and the keyboard poll beside
  them.  \<open>nic.packet\<close> is an object of \<open>ETH_FRAME_LEN\<close> bytes, the part of \<open>packet\<close> behind the two bytes
  of alignment.  The receive functions that are passed to \<open>await_reply\<close> get \<open>ip\<close> and \<open>udp\<close> as pointers
  that are null or point to fixed places of the packet, so they are booleans here; TCP is not
  compiled in.  Neither are LACP and IGMP: \<open>send_eth_slow_reports\<close> and its like are empty.

  Frames handed to the driver are also kept in a log, \<open>n_sent\<close>, which the code does not have.
\<close>

section \<open>State\<close>

record 'h nic_env =
  nic_poll :: "'h \<Rightarrow> byte list option \<times> 'h"
  nic_transmit :: "byte list \<Rightarrow> u32 \<Rightarrow> byte list \<Rightarrow> 'h \<Rightarrow> 'h"
  nic_ticks :: "'h \<Rightarrow> u32 \<times> 'h"
  nic_keys :: "'h \<Rightarrow> 'h"
  bootp_address :: u32

record arp_entry =
  ipaddr :: u32
  node :: "byte list"

text \<open>The static variables of \<open>tftp_block\<close> and of \<open>decode_rfc1533\<close> among the globals; pointers are
  offsets into \<open>bootp_data\<close>.\<close>

record 'h net =
  n_hw :: 'h
  n_sent :: "(byte list \<times> u32 \<times> byte list) list"
  n_seed :: int
  arptable :: "arp_entry list"
  netmask :: u32
  sport :: u16
  xid :: u32
  packet :: "byte list"
  packetlen :: u32
  bootp_data :: "byte list"
  dhcp_reply :: int
  dhcp_server :: u32
  dhcp_addr :: u32
  hostname :: "nat option"
  hostnamelen :: int
  end_of_rfc1533 :: "nat option"
  addparam :: "nat option"
  addparamlen :: int
  vendorext_isvalid :: int
  extdata :: "nat option"
  extend_ :: "nat option"
  in_encapsulated_options :: byte
  lport :: u16
  rport :: u16
  xmit :: "byte list"
  xmitlen :: u16
  blockidx :: u16
  tftp_retry :: u16
  blksize :: int

definition ETH_ALEN :: nat where "ETH_ALEN = 6"
definition ETH_HLEN :: nat where "ETH_HLEN = 14"
definition ETH_FRAME_LEN :: nat where "ETH_FRAME_LEN = 1514"
definition ETH_MAX_MTU :: u16 where "ETH_MAX_MTU = 1500"
definition ETH_P_IP :: u16 where "ETH_P_IP = 0x0800"
definition ETH_P_ARP :: u16 where "ETH_P_ARP = 0x0806"
definition IP_UDP :: byte where "IP_UDP = 17"
definition IP_BROADCAST :: u32 where "IP_BROADCAST = 0xFFFFFFFF"
definition ARP_REQUEST :: u16 where "ARP_REQUEST = 1"
definition ARP_REPLY :: u16 where "ARP_REPLY = 2"
definition ARP_CLIENT :: nat where "ARP_CLIENT = 0"
definition ARP_SERVER :: nat where "ARP_SERVER = 1"
definition ARP_GATEWAY :: nat where "ARP_GATEWAY = 2"
definition MAX_ARP :: nat where "MAX_ARP = 3"
definition TIMEOUT :: u32 where "TIMEOUT = 10 * 1000"
definition MAX_ARP_RETRIES :: nat where "MAX_ARP_RETRIES = 20"
definition RAND_MAX :: int where "RAND_MAX = 2147483647"

definition broadcast :: "byte list" where "broadcast = replicate 6 0xFF"

abbreviation htons :: "u16 \<Rightarrow> u16" where "htons \<equiv> bswap_16"
abbreviation ntohs :: "u16 \<Rightarrow> u16" where "ntohs \<equiv> bswap_16"
abbreviation htonl :: "u32 \<Rightarrow> u32" where "htonl \<equiv> bswap_32"
abbreviation ntohl :: "u32 \<Rightarrow> u32" where "ntohl \<equiv> bswap_32"

lemmas eth_consts = ETH_ALEN_def ETH_HLEN_def ETH_FRAME_LEN_def ETH_MAX_MTU_def ETH_P_IP_def ETH_P_ARP_def IP_UDP_def
  ARP_CLIENT_def ARP_SERVER_def ARP_GATEWAY_def MAX_ARP_def

text \<open>An entry of the table of addresses.\<close>

abbreviation arp :: "'h net \<Rightarrow> nat \<Rightarrow> arp_entry" where
  "arp s i \<equiv> arptable s ! i"

definition upd_arp :: "nat \<Rightarrow> (arp_entry \<Rightarrow> arp_entry) \<Rightarrow> 'h net \<Rightarrow> 'h net" where
  "upd_arp i f s = s\<lparr>arptable := (arptable s)[i := f (arptable s ! i)]\<rparr>"

section \<open>The card and the clock\<close>

definition get_ticks :: "'h nic_env \<Rightarrow> 'h net \<Rightarrow> u32 \<times> 'h net" where
  "get_ticks env s = (let (t, h) = nic_ticks env (n_hw s) in (t, s\<lparr>n_hw := h\<rparr>))"

definition eth_poll :: "'h nic_env \<Rightarrow> 'h net \<Rightarrow> (bool \<times> 'h net) option" where
  "eth_poll env s =
     (case nic_poll env (n_hw s) of
        (None, h) \<Rightarrow> Some (False, s\<lparr>n_hw := h\<rparr>)
      | (Some f, h) \<Rightarrow> do {
          p \<leftarrow> wr (packet s) 0 f;
          Some (True, s\<lparr>n_hw := h, packet := p, packetlen := of_nat (length f)\<rparr>)
        })"

definition eth_transmit :: "'h nic_env \<Rightarrow> byte list \<Rightarrow> u16 \<Rightarrow> byte list \<Rightarrow> 'h net \<Rightarrow> 'h net" where
  "eth_transmit env d t p s =
     s\<lparr>n_hw := nic_transmit env d (ucast t) p (n_hw s), n_sent := n_sent s @ [(d, ucast t, p)]\<rparr>"

text \<open>\<open>random ()\<close> reads the tick counter only to initialise its seed.\<close>

definition next_random :: "'h nic_env \<Rightarrow> 'h net \<Rightarrow> int \<times> 'h net" where
  "next_random env s =
     (let (t, s) = (if n_seed s = 0 then get_ticks env s else (0, s));
          r = random t (node (arp s ARP_CLIENT)) (n_seed s)
      in (r, s\<lparr>n_seed := r\<rparr>))"

definition rfc2131_sleep_interval :: "'h nic_env \<Rightarrow> u32 \<Rightarrow> nat \<Rightarrow> 'h net \<Rightarrow> u32 \<times> 'h net" where
  "rfc2131_sleep_interval env base exp s =
     (let (r, s) = next_random env s
      in (push_bit exp base + (1000 - of_int (c_div r (RAND_MAX div 1000))), s))"

section \<open>Headers\<close>

text \<open>The checksum over the pseudo header and what follows the IP header, which is at \<open>ip\<close>.\<close>

definition tcpudpchksum :: "byte list \<Rightarrow> nat \<Rightarrow> u16 option" where
  "tcpudpchksum buf ip =
     do {
       src \<leftarrow> rd buf (ip + 12) 4;
       dest \<leftarrow> rd buf (ip + 16) 4;
       protocol \<leftarrow> rd1 buf (ip + 9);
       let len = (ucast (ntohs (field16 (ip + 2) buf)) - 20 :: u32);
       checksum \<leftarrow> ipchksum (src @ dest @ [0, protocol] @ le_bytes 2 (htons (ucast len))) 12;
       rest \<leftarrow> ipchksum (drop (ip + 20) buf) len;
       Some (add_ipchksums 12 checksum rest)
     }"

definition build_ip_hdr :: "'h net \<Rightarrow> u32 \<Rightarrow> byte \<Rightarrow> byte \<Rightarrow> nat \<Rightarrow> u16 \<Rightarrow> byte list \<Rightarrow> byte list option" where
  "build_ip_hdr s destip ttl protocol option_len len buf =
     do {
       buf \<leftarrow> wr buf 0 ([0x45 + of_nat (option_len div 4), 0] @ le_bytes 2 (htons len) @ [0, 0, 0, 0, ttl, protocol, 0, 0]
         @ le_bytes 4 (ipaddr (arp s ARP_CLIENT)) @ le_bytes 4 destip);
       c \<leftarrow> ipchksum buf (of_nat (20 + option_len));
       wr buf 10 (le_bytes 2 c)
     }"

definition build_udp_hdr :: "'h net \<Rightarrow> u32 \<Rightarrow> u16 \<Rightarrow> u16 \<Rightarrow> byte \<Rightarrow> u16 \<Rightarrow> byte list \<Rightarrow> byte list option" where
  "build_udp_hdr s destip srcsock destsock ttl len buf =
     do {
       buf \<leftarrow> build_ip_hdr s destip ttl IP_UDP 0 len buf;
       buf \<leftarrow> wr buf 20 (le_bytes 2 (htons srcsock) @ le_bytes 2 (htons destsock) @ le_bytes 2 (htons (len - 20)) @ [0, 0]);
       c \<leftarrow> tcpudpchksum buf 0;
       wr buf 26 (le_bytes 2 (if c = 0 then 0xFFFF else c))
     }"

section \<open>Receiving\<close>

text \<open>A receive function: the packet type, whether there is an IP and a UDP header.\<close>

type_synonym 'h reply = "u16 \<Rightarrow> bool \<Rightarrow> bool \<Rightarrow> 'h net \<Rightarrow> (int \<times> 'h net) option"

text \<open>
  The checks of the IP header; \<open>None\<close> inside when the packet is dropped, otherwise whether there is
  one and its length.  Options are deleted.
\<close>

definition verify_ip :: "u16 \<Rightarrow> 'h net \<Rightarrow> (bool \<times> u32 \<times> 'h net) option option" where
  "verify_ip ptype s =
     (if ptype = ETH_P_IP \<and> packetlen s \<ge> 34 then do {
        v \<leftarrow> rd1 (packet s) 14;
        if v < 0x45 \<or> v > 0x4F then Some None
        else do {
          let iplen = (ucast v AND 0xF) * 4;
          c \<leftarrow> ipchksum (drop 14 (packet s)) iplen;
          if c \<noteq> 0 then Some None
          else if field16 20 (packet s) AND htons 0x3FFF \<noteq> 0 then Some None
          else if ntohs (field16 16 (packet s)) > ETH_MAX_MTU then Some None
          else do {
            let ipoptlen = iplen - 20;
            if ipoptlen \<noteq> 0 then do {
              d \<leftarrow> rd (packet s) (14 + unat iplen) (unat (packetlen s - ipoptlen));
              p \<leftarrow> wr (packet s) 34 d;
              Some (Some (True, iplen, s\<lparr>packet := p, packetlen := packetlen s - ipoptlen\<rparr>))
            }
            else Some (Some (True, iplen, s))
          }
        }
      }
      else Some (Some (False, 0, s)))"

definition verify_udp :: "bool \<Rightarrow> u32 \<Rightarrow> 'h net \<Rightarrow> bool option option" where
  "verify_udp ip iplen s =
     (if ip \<and> packet s ! 23 = IP_UDP \<and> packetlen s \<ge> 42 then
        (if ucast (ntohs (field16 38 (packet s))) > (ucast (ntohs (field16 16 (packet s))) - iplen :: u32) then Some None
         else if field16 40 (packet s) \<noteq> 0 then do {
           c \<leftarrow> tcpudpchksum (packet s) 14;
           Some (if c \<noteq> 0 then None else Some True)
         }
         else Some (Some True))
      else Some (Some False))"

text \<open>The answer to an ARP request for our address, made in place.\<close>

definition answer_arp :: "'h nic_env \<Rightarrow> u16 \<Rightarrow> 'h net \<Rightarrow> 'h net option" where
  "answer_arp env ptype s =
     (if ptype = ETH_P_ARP \<and> packetlen s \<ge> 42
         \<and> field16 20 (packet s) = htons ARP_REQUEST \<and> field32 38 (packet s) = ipaddr (arp s ARP_CLIENT)
      then do {
        p \<leftarrow> wr (packet s) 20 (le_bytes 2 (htons ARP_REPLY));
        sip \<leftarrow> rd p 28 4;
        p \<leftarrow> wr p 38 sip;
        shw \<leftarrow> rd p 22 ETH_ALEN;
        p \<leftarrow> wr p 32 shw;
        p \<leftarrow> wr p 28 (le_bytes 4 (ipaddr (arp s ARP_CLIENT)));
        p \<leftarrow> wr p 22 (node (arp s ARP_CLIENT));
        Some (eth_transmit env (bytes_at 32 6 p) ETH_P_ARP (bytes_at 14 28 p) (s\<lparr>packet := p\<rparr>))
      }
      else Some s)"

text \<open>One packet; the result is not positive if the loop is to go on.\<close>

definition handle_packet :: "'h nic_env \<Rightarrow> 'h reply \<Rightarrow> 'h net \<Rightarrow> (int \<times> 'h net) option" where
  "handle_packet env reply s =
     (if packetlen s < 14 then Some (0, s)
      else do {
        hi \<leftarrow> rd1 (packet s) 12;
        lo \<leftarrow> rd1 (packet s) 13;
        let ptype = push_bit 8 (ucast hi) OR ucast lo;
        i \<leftarrow> verify_ip ptype s;
        (case i of
           None \<Rightarrow> Some (0, s)
         | Some (ip, iplen, s) \<Rightarrow> do {
             u \<leftarrow> verify_udp ip iplen s;
             (case u of
                None \<Rightarrow> Some (0, s)
              | Some udp \<Rightarrow> do {
                  (result, s) \<leftarrow> reply ptype ip udp s;
                  if result > 0 then Some (result, s)
                  else do {
                    s \<leftarrow> answer_arp env ptype s;
                    Some (0, s)
                  }
                })
           })
      })"

partial_function (option) await_loop :: "'h nic_env \<Rightarrow> 'h reply \<Rightarrow> u32 \<Rightarrow> u32 \<Rightarrow> 'h net \<Rightarrow> (int \<times> 'h net) option" where
  "await_loop env reply timeout time s =
     do {
       let (now, s) = get_ticks env s;
       (got, s) \<leftarrow> eth_poll env s;
       if \<not> got then do {
         let s = s\<lparr>n_hw := nic_keys env (n_hw s)\<rparr>;
         if timeout = 0 then Some (0, s)
         else do {
           let (t, s) = get_ticks env s;
           if t > time then Some (0, s) else await_loop env reply timeout time s
         }
       }
       else do {
         (result, s) \<leftarrow> handle_packet env reply s;
         if result > 0 then Some (result, s) else await_loop env reply timeout time s
       }
     }"

definition await_reply :: "'h nic_env \<Rightarrow> 'h reply \<Rightarrow> u32 \<Rightarrow> 'h net \<Rightarrow> (int \<times> 'h net) option" where
  "await_reply env reply timeout s =
     do {
       let (t, s) = get_ticks env s;
       await_loop env reply timeout (timeout + t) s
     }"

definition await_qdrain :: "'h reply" where
  "await_qdrain ptype ip udp s = Some (0, s)"

definition rx_qdrain :: "'h nic_env \<Rightarrow> 'h net \<Rightarrow> 'h net option" where
  "rx_qdrain env s = do { (_, s) \<leftarrow> await_reply env await_qdrain 0 s; Some s }"

section \<open>Sending\<close>

definition await_arp :: "nat \<Rightarrow> byte list \<Rightarrow> 'h reply" where
  "await_arp ival ptr ptype ip udp s =
     (if ptype \<noteq> ETH_P_ARP then Some (0, s)
      else if packetlen s < 42 then Some (0, s)
      else if field16 20 (packet s) \<noteq> htons ARP_REPLY then Some (0, s)
      else if bytes_at 28 4 (packet s) \<noteq> ptr then Some (0, s)
      else do {
        shw \<leftarrow> rd (packet s) 22 ETH_ALEN;
        Some (1, upd_arp ival (\<lambda>a. a\<lparr>node := shw\<rparr>) s)
      })"

text \<open>The retries of an ARP request from the \<open>retry\<close>th on, \<open>k\<close> of them.\<close>

fun arp_retries :: "'h nic_env \<Rightarrow> nat \<Rightarrow> byte list \<Rightarrow> byte list \<Rightarrow> nat \<Rightarrow> nat \<Rightarrow> 'h net \<Rightarrow> (bool \<times> 'h net) option" where
  "arp_retries env arpentry arpreq tip retry 0 s = Some (False, s)"
| "arp_retries env arpentry arpreq tip retry (Suc k) s =
     do {
       let s = eth_transmit env broadcast ETH_P_ARP arpreq s;
       let (timeout, s) = rfc2131_sleep_interval env TIMEOUT retry s;
       (r, s) \<leftarrow> await_reply env (await_arp arpentry tip) timeout s;
       if r \<noteq> 0 then Some (True, s) else arp_retries env arpentry arpreq tip (retry + 1) k s
     }"

definition arp_request :: "'h net \<Rightarrow> u32 \<Rightarrow> byte list" where
  "arp_request s destip =
     le_bytes 2 (htons 1) @ le_bytes 2 (htons ETH_P_IP) @ [6, 4] @ le_bytes 2 (htons ARP_REQUEST)
     @ node (arp s ARP_CLIENT) @ le_bytes 4 (ipaddr (arp s ARP_CLIENT)) @ replicate 6 0 @ le_bytes 4 destip"

fun find_arp :: "u32 \<Rightarrow> arp_entry list \<Rightarrow> nat \<Rightarrow> nat" where
  "find_arp destip [] i = i"
| "find_arp destip (a # as) i = (if ipaddr a = destip then i else find_arp destip as (i + 1))"

definition next_hop :: "'h net \<Rightarrow> u32 \<Rightarrow> u32" where
  "next_hop s destip =
     (if destip AND netmask s \<noteq> ipaddr (arp s ARP_CLIENT) AND netmask s \<and> ipaddr (arp s ARP_GATEWAY) \<noteq> 0
      then ipaddr (arp s ARP_GATEWAY) else destip)"

definition ip_transmit :: "'h nic_env \<Rightarrow> nat \<Rightarrow> byte list \<Rightarrow> 'h net \<Rightarrow> (int \<times> 'h net) option" where
  "ip_transmit env len buf s =
     do {
       data \<leftarrow> rd buf 0 len;
       d \<leftarrow> rd buf 16 4;
       let destip = (le_word d :: u32);
       if destip = IP_BROADCAST then Some (1, eth_transmit env broadcast ETH_P_IP data s)
       else do {
         let destip = next_hop s destip;
         let arpentry = find_arp destip (arptable s) 0;
         if arpentry = MAX_ARP then Some (0, s)
         else if node (arp s arpentry) = replicate 6 0 then do {
           (r, s) \<leftarrow> arp_retries env arpentry (arp_request s destip) (le_bytes 4 destip) 1 MAX_ARP_RETRIES s;
           if \<not> r then Some (0, s)
           else Some (1, eth_transmit env (node (arp s arpentry)) ETH_P_IP data s)
         }
         else Some (1, eth_transmit env (node (arp s arpentry)) ETH_P_IP data s)
       }
     }"

text \<open>The buffer comes back with its headers filled in.\<close>

definition udp_transmit ::
  "'h nic_env \<Rightarrow> u32 \<Rightarrow> u16 \<Rightarrow> u16 \<Rightarrow> u16 \<Rightarrow> byte list \<Rightarrow> 'h net \<Rightarrow> (int \<times> byte list \<times> 'h net) option" where
  "udp_transmit env destip srcsock destsock len buf s =
     do {
       let s = s\<lparr>sport := srcsock\<rparr>;
       buf \<leftarrow> build_udp_hdr s destip srcsock destsock 60 len buf;
       (r, s) \<leftarrow> ip_transmit env (unat len) buf s;
       Some (r, buf, s)
     }"

section \<open>Checksums of datagrams\<close>

lemma bswap_16_bswap_16 [simp]: "bswap_16 (bswap_16 w) = w"
proof (rule bit_word_eqI)
  fix n assume "n < LENGTH(16)"
  then show "bit (bswap_16 (bswap_16 w)) n = bit w n"
    by (cases "n < 8") (auto simp: bswap_16_def bit_simps dest: bit_imp_le_length)
qed

lemma ipchksum_take: "unat n \<le> length xs \<Longrightarrow> ipchksum xs n = ipchksum (take (unat n) xs) n"
  by (simp add: ipchksum_def rd_def bytes_at_def)

lemma ipchksum_exists: "unat n \<le> length xs \<Longrightarrow> \<exists>c. ipchksum xs n = Some c"
  by (simp add: ipchksum_def rd_def)

text \<open>A checksum of zero may be stored as \<open>0xFFFF\<close>.\<close>

lemma ipchksum_verifies_or_ones:
  assumes "even (length a)" "length a + 2 + length b < 2 ^ 32"
    "ipchksum (a @ [0, 0] @ b) (of_nat (length a + 2 + length b)) = Some c" "u = c \<or> c = 0 \<and> u = 0xFFFF"
  shows "ipchksum (a @ le_bytes 2 u @ b) (of_nat (length a + 2 + length b)) = Some 0"
proof -
  define t where "t = ones_total 0 (a @ [0, 0] @ b)"
  have c: "unat c = 65535 - ones_rep t"
    using ipchksum_rep [of "a @ [0, 0] @ b"] assms(2,3) by (auto simp: t_def)
  have "ones_total 0 (a @ le_bytes 2 u @ b) = t + unat u"
    using assms(1) ones_total_two [of "length a" u b] ones_total_two [of "length a" 0 b] by (simp add: ones_total_append t_def)
  moreover have "unat u = 65535 - ones_rep t \<or> ones_rep t = 65535 \<and> unat u = 65535"
    using assms(4) c ones_rep_le [of t] by auto
  ultimately have "ones_rep (ones_total 0 (a @ le_bytes 2 u @ b)) = 65535"
    using ones_rep_le [of t] ones_rep_add [of "unat u" t] by auto
  then show ?thesis
    using ipchksum_rep [of "a @ le_bytes 2 u @ b"] assms(2) by (auto simp: word_unat_eq_iff)
qed

definition pseudo_header :: "byte list \<Rightarrow> nat \<Rightarrow> byte list" where
  "pseudo_header buf ip = bytes_at (ip + 12) 4 buf @ bytes_at (ip + 16) 4 buf @ [0, buf ! (ip + 9)]
     @ le_bytes 2 (htons (ntohs (field16 (ip + 2) buf) - 20))"

lemma tcpudpchksum_whole:
  assumes "unat (ntohs (field16 (ip + 2) buf)) = 20 + m" "ip + 20 + m \<le> length buf"
  shows "tcpudpchksum buf ip = ipchksum (pseudo_header buf ip @ bytes_at (ip + 20) m buf) (of_nat (12 + m))"
proof -
  let ?n = "ntohs (field16 (ip + 2) buf)"
  have t: "20 + m < 65536" using unat_u16_less [of ?n] unfolding assms(1) .
  have l: "unat (ucast ?n - 20 :: u32) = m" "unat (?n - 20) = m"
    using assms(1) by (simp_all add: unat_sub word_le_nat_alt unat_ucast_u16_u32)
  have u: "unat (of_nat m :: u32) = m" using t by (simp add: unat_of_nat)
  then have n: "(ucast (of_nat m :: u32) :: u16) = ?n - 20"
    using t l(2) by (simp add: word_unat_eq_iff unsigned_ucast_eq take_bit_nat_eq_self del: add_2_eq_Suc')
  have n2: "(ucast ?n - 20 :: u32) = of_nat m" using l u by (simp add: word_unat_eq_iff)
  have p: "length (pseudo_header buf ip) = 12" "length (bytes_at (ip + 20) m buf) = m" using assms(2) by (simp_all add: pseudo_header_def)
  obtain c where c: "ipchksum (pseudo_header buf ip) 12 = Some c" using ipchksum_exists [of 12 "pseudo_header buf ip"] p by auto
  obtain d where d: "ipchksum (bytes_at (ip + 20) m buf) (of_nat m) = Some d"
    using ipchksum_exists [of "of_nat m" "bytes_at (ip + 20) m buf"] unfolding p(2) u by blast
  have "take m (drop (ip + 20) buf) = bytes_at (ip + 20) m buf" by (simp add: bytes_at_def)
  then have "ipchksum (drop (ip + 20) buf) (of_nat m) = Some d"
    using ipchksum_take [of "of_nat m :: u32" "drop (ip + 20) buf"] assms(2) u d by simp
  then have "tcpudpchksum buf ip = Some (add_ipchksums 12 c d)"
    using c assms(2) by (simp add: tcpudpchksum_def Let_def rd_def rd1_def n n2 pseudo_header_def del: add_2_eq_Suc' le_bytes_numeral)
  moreover have "ipchksum (pseudo_header buf ip @ bytes_at (ip + 20) m buf) (of_nat (12 + m)) = Some (add_ipchksums 12 c d)"
    using add_ipchksums_parts [of "pseudo_header buf ip" "bytes_at (ip + 20) m buf" c d] c d p t by simp
  ultimately show ?thesis by simp
qed

section \<open>What a datagram looks like\<close>

definition ip_head :: "'h net \<Rightarrow> u32 \<Rightarrow> byte \<Rightarrow> byte \<Rightarrow> u16 \<Rightarrow> u16 \<Rightarrow> byte list" where
  "ip_head s destip ttl protocol len c = [0x45, 0] @ le_bytes 2 (htons len) @ [0, 0, 0, 0, ttl, protocol] @ le_bytes 2 c
     @ le_bytes 4 (ipaddr (arp s ARP_CLIENT)) @ le_bytes 4 destip"

definition udp_head :: "u16 \<Rightarrow> u16 \<Rightarrow> u16 \<Rightarrow> u16 \<Rightarrow> byte list" where
  "udp_head srcsock destsock len c =
     le_bytes 2 (htons srcsock) @ le_bytes 2 (htons destsock) @ le_bytes 2 (htons (len - 20)) @ le_bytes 2 c"

lemma length_heads [simp]: "length (ip_head s d ttl p len c) = 20" "length (udp_head a b len c) = 8"
  by (simp_all add: ip_head_def udp_head_def)

lemma build_ip_hdr_eq:
  assumes "20 \<le> length buf"
  shows "\<exists>c. build_ip_hdr s destip ttl p 0 len buf = Some (ip_head s destip ttl p len c @ drop 20 buf)
    \<and> ipchksum (ip_head s destip ttl p len c) 20 = Some 0"
proof -
  define a where "a = [0x45 :: byte, 0] @ le_bytes 2 (htons len) @ [0, 0, 0, 0, ttl, p]"
  define b where "b = le_bytes 4 (ipaddr (arp s ARP_CLIENT)) @ le_bytes 4 destip"
  have l: "length a = 10" "length b = 8" by (simp_all add: a_def b_def)
  have h: "ip_head s destip ttl p len c = a @ le_bytes 2 c @ b" for c by (simp add: ip_head_def a_def b_def)
  obtain c where c: "ipchksum (a @ [0, 0] @ b) 20 = Some c" using ipchksum_exists [of 20 "a @ [0, 0] @ b"] l by auto
  then have v: "ipchksum (a @ le_bytes 2 c @ b) 20 = Some 0"
    using ipchksum_verifies_or_ones [of a b c c] l by simp
  have w: "wr buf 0 (a @ [0, 0] @ b) = Some ((a @ [0, 0] @ b) @ drop 20 buf)" using assms l by (simp add: wr_def)
  have "ipchksum ((a @ [0, 0] @ b) @ drop 20 buf) 20 = Some c"
    using ipchksum_take [of 20 "(a @ [0, 0] @ b) @ drop 20 buf"] c l by simp
  moreover have "wr ((a @ [0, 0] @ b) @ drop 20 buf) 10 (le_bytes 2 c) = Some (a @ le_bytes 2 c @ b @ drop 20 buf)"
    using l by (simp add: wr_def put_bytes_def)
  ultimately have "build_ip_hdr s destip ttl p 0 len buf = Some (a @ le_bytes 2 c @ b @ drop 20 buf)"
    using w unfolding a_def b_def by (simp add: build_ip_hdr_def)
  then show ?thesis using v by (intro exI [of _ c]) (simp add: h)
qed

lemma ip_head_fields:
  "bytes_at 2 2 (ip_head s d ttl p len c) = le_bytes 2 (htons len)" "bytes_at 6 2 (ip_head s d ttl p len c) = [0, 0]"
  "ip_head s d ttl p len c ! 0 = 0x45" "ip_head s d ttl p len c ! 9 = p"
  "bytes_at 12 4 (ip_head s d ttl p len c) = le_bytes 4 (ipaddr (arp s ARP_CLIENT))" "bytes_at 16 4 (ip_head s d ttl p len c) = le_bytes 4 d"
  by (simp_all add: ip_head_def bytes_at_def del: le_bytes_numeral) (simp_all add: nth_append nth_Cons')

lemma udp_head_fields:
  "bytes_at 0 2 (udp_head a b len c) = le_bytes 2 (htons a)" "bytes_at 2 2 (udp_head a b len c) = le_bytes 2 (htons b)"
  "bytes_at 4 2 (udp_head a b len c) = le_bytes 2 (htons (len - 20))" "bytes_at 6 2 (udp_head a b len c) = le_bytes 2 c"
  by (simp_all add: udp_head_def bytes_at_def del: le_bytes_numeral)

lemma build_udp_hdr_eq:
  assumes "28 \<le> unat len" "unat len \<le> length buf"
  shows "\<exists>c u. build_udp_hdr s destip a b ttl len buf = Some (ip_head s destip ttl IP_UDP len c @ udp_head a b len u @ drop 28 buf)
    \<and> ipchksum (ip_head s destip ttl IP_UDP len c) 20 = Some 0 \<and> u \<noteq> 0
    \<and> tcpudpchksum (ip_head s destip ttl IP_UDP len c @ udp_head a b len u @ drop 28 buf) 0 = Some 0"
proof -
  define m where "m = unat len - 20"
  have m: "unat len = 20 + m" "8 \<le> m" using assms(1) by (simp_all add: m_def)
  have t: "20 + m < 65536" using unat_u16_less [of len] unfolding m(1) .
  have l: "20 \<le> length buf" using assms by linarith
  obtain c where c: "build_ip_hdr s destip ttl IP_UDP 0 len buf = Some (ip_head s destip ttl IP_UDP len c @ drop 20 buf)"
    "ipchksum (ip_head s destip ttl IP_UDP len c) 20 = Some 0"
    using build_ip_hdr_eq [OF l] by blast
  let ?h = "ip_head s destip ttl IP_UDP len c"
  define a6 where "a6 = le_bytes 2 (htons a) @ le_bytes 2 (htons b) @ le_bytes 2 (htons (len - 20))"
  define r where "r = take (m - 8) (drop 28 buf)"
  define q where "q = le_bytes 4 (ipaddr (arp s ARP_CLIENT)) @ le_bytes 4 destip @ [0, IP_UDP] @ le_bytes 2 (htons (len - 20))"
  have lens: "length a6 = 6" "length r = m - 8" "length q = 12" using assms m by (simp_all add: a6_def r_def q_def)
  have u: "udp_head a b len u = a6 @ le_bytes 2 u" for u by (simp add: udp_head_def a6_def)
  have f: "field16 2 (?h @ udp_head a b len u @ drop 28 buf) = htons len" for u
    by (simp add: field16_def bytes_at_append_left ip_head_fields le_word_le_bytes del: le_bytes_numeral)
  have p: "pseudo_header (?h @ udp_head a b len u @ drop 28 buf) 0 = q" for u
    using f [of u] by (simp add: pseudo_header_def q_def bytes_at_append_left ip_head_fields nth_append del: le_bytes_numeral add_2_eq_Suc')
  have g: "bytes_at 20 m (?h @ udp_head a b len u @ drop 28 buf) = a6 @ le_bytes 2 u @ r" for u
    using m(2) by (simp add: bytes_at_def u lens r_def del: le_bytes_numeral)
  have k: "tcpudpchksum (?h @ udp_head a b len u @ drop 28 buf) 0 = ipchksum ((q @ a6) @ le_bytes 2 u @ r) (of_nat (length (q @ a6) + 2 + length r))" for u
  proof -
    have "unat (ntohs (field16 (0 + 2) (?h @ udp_head a b len u @ drop 28 buf))) = 20 + m"
      using f [of u] m(1) by (simp del: add_2_eq_Suc')
    moreover have "0 + 20 + m \<le> length (?h @ udp_head a b len u @ drop 28 buf)" using assms(2) m by simp
    moreover have e: "length (q @ a6) + 2 + length r = 12 + m" using lens m by simp
    ultimately show ?thesis using tcpudpchksum_whole by (simp only: p g e append_assoc add_0)
  qed
  have e: "length ((q @ a6) @ [0, 0] @ r) = length (q @ a6) + 2 + length r" by simp
  have small: "length (q @ a6) + 2 + length r < 2 ^ 32" using lens t by simp
  obtain d where d: "ipchksum ((q @ a6) @ [0, 0] @ r) (of_nat (length (q @ a6) + 2 + length r)) = Some d"
    using ipchksum_rep [of "(q @ a6) @ [0, 0] @ r"] small unfolding e by blast
  let ?u = "if d = 0 then 0xFFFF else d"
  have v: "ipchksum ((q @ a6) @ le_bytes 2 ?u @ r) (of_nat (length (q @ a6) + 2 + length r)) = Some 0"
    by (rule ipchksum_verifies_or_ones [OF _ small d]) (use lens in auto)
  have w: "wr (?h @ drop 20 buf) 20 (le_bytes 2 (htons a) @ le_bytes 2 (htons b) @ le_bytes 2 (htons (len - 20)) @ [0, 0])
      = Some (?h @ udp_head a b len 0 @ drop 28 buf)"
    using assms by (simp add: wr_def put_bytes_def udp_head_def)
  have w2: "wr (?h @ udp_head a b len 0 @ drop 28 buf) 26 (le_bytes 2 ?u) = Some (?h @ udp_head a b len ?u @ drop 28 buf)"
    using assms by (simp add: wr_def put_bytes_def u lens del: le_bytes_numeral)
  have "tcpudpchksum (?h @ udp_head a b len 0 @ drop 28 buf) 0 = Some d" using d by (simp add: k)
  then have "build_udp_hdr s destip a b ttl len buf = Some (?h @ udp_head a b len ?u @ drop 28 buf)"
    using c(1) w w2 by (simp add: build_udp_hdr_def del: le_bytes_numeral)
  then show ?thesis using c(2) v by (intro exI [of _ c] exI [of _ ?u]) (simp add: k)
qed


section \<open>A datagram in the receive buffer\<close>

lemma tcpudpchksum_cong:
  assumes "bytes_at i (20 + m) x = bytes_at j (20 + m) y" "i + 20 + m \<le> length x" "j + 20 + m \<le> length y"
    and "unat (ntohs (field16 (i + 2) x)) = 20 + m"
  shows "tcpudpchksum x i = tcpudpchksum y j"
proof -
  have b: "bytes_at (i + k) n x = bytes_at (j + k) n y" if "k + n \<le> 20 + m" for k n
    using bytes_at_bytes_at [OF that, of i x] bytes_at_bytes_at [OF that, of j y] assms(1) by simp
  have f: "field16 (i + 2) x = field16 (j + 2) y" using b [of 2 2] by (simp add: field16_def del: add_2_eq_Suc')
  have "x ! (i + 9) = y ! (j + 9)"
    using arg_cong [OF assms(1), of "\<lambda>z. z ! 9"] assms(2,3) by simp
  then have "pseudo_header x i = pseudo_header y j"
    using b [of 12 4] b [of 16 4] f by (simp add: pseudo_header_def del: add_2_eq_Suc')
  moreover have "bytes_at (i + 20) m x = bytes_at (j + 20) m y" using b [of 20 m] by simp
  ultimately show ?thesis
    using tcpudpchksum_whole [OF assms(4,2)] tcpudpchksum_whole [of j y m] assms(3,4) f by simp
qed

text \<open>The frame in the buffer carries the first \<open>len\<close> bytes of \<open>b\<close> as an IP packet.\<close>

definition carries :: "'h net \<Rightarrow> u16 \<Rightarrow> byte list \<Rightarrow> bool" where
  "carries s len b \<longleftrightarrow> length (packet s) = ETH_FRAME_LEN \<and> bytes_at 12 2 (packet s) = [8, 0]
     \<and> bytes_at 14 (unat len) (packet s) = take (unat len) b \<and> 14 + unat len \<le> unat (packetlen s)"

lemma nth_of_bytes_at: "bytes_at off n xs = ys \<Longrightarrow> i < n \<Longrightarrow> off + i < length xs \<Longrightarrow> xs ! (off + i) = ys ! i"
  using nth_bytes_at by metis

lemma udp_received:
  assumes "build_udp_hdr s destip a b ttl len buf = Some d" "28 \<le> unat len" "unat len \<le> 1500" "unat len \<le> length buf"
    and "carries r len d"
  shows "verify_ip ETH_P_IP r = Some (Some (True, 20, r))" "verify_udp True 20 r = Some (Some True)"
    "field16 34 (packet r) = htons a" "field16 36 (packet r) = htons b" "field16 38 (packet r) = htons (len - 20)"
    "field32 30 (packet r) = destip" "bytes_at 42 (unat len - 28) (packet r) = bytes_at 28 (unat len - 28) buf"
proof -
  define m where "m = unat len - 28"
  have m: "unat len = 28 + m" using assms(2) by (simp add: m_def)
  have pk: "length (packet r) = 1514" "bytes_at 14 (28 + m) (packet r) = take (28 + m) d" "14 + (28 + m) \<le> unat (packetlen r)"
    using assms(5) by (simp_all add: carries_def ETH_FRAME_LEN_def m)
  obtain c u where h: "d = ip_head s destip ttl IP_UDP len c @ udp_head a b len u @ drop 28 buf"
    "ipchksum (ip_head s destip ttl IP_UDP len c) 20 = Some 0" "u \<noteq> 0" "tcpudpchksum d 0 = Some 0"
    using build_udp_hdr_eq [OF assms(2,4), of s destip a b ttl] assms(1) by auto
  let ?h = "ip_head s destip ttl IP_UDP len c" and ?u = "udp_head a b len u" and ?p = "packet r"
  have d: "28 + m \<le> length d" using assms(4) m h(1) by simp
  have pk2: "bytes_at 14 (28 + m) ?p = bytes_at 0 (28 + m) d" using pk(2) by (simp add: bytes_at_def)
  have at: "bytes_at (14 + k) n ?p = bytes_at k n d" if "k + n \<le> 28 + m" for k n
    using bytes_at_bytes_at [OF that, of 14 ?p] bytes_at_bytes_at [OF that, of 0 d] pk2 by simp
  have ith: "?p ! (14 + k) = d ! k" if "k < 28 + m" for k
    using nth_of_bytes_at [OF pk(2) that] pk(1) that d m assms(3) by simp
  have f: "field16 16 ?p = htons len" "field16 20 ?p = 0" "?p ! 14 = 0x45" "?p ! 23 = IP_UDP" "field16 40 ?p = u"
    using at [of 2 2] at [of 6 2] ith [of 0] ith [of 9] at [of 26 2]
    by (simp_all add: field16_def h(1) bytes_at_append_left bytes_at_append_right ip_head_fields udp_head_fields le_word_le_bytes nth_append del: le_bytes_numeral)
  show g: "field16 34 ?p = htons a" "field16 36 ?p = htons b" "field16 38 ?p = htons (len - 20)" "field32 30 ?p = destip"
    using at [of 20 2] at [of 22 2] at [of 24 2] at [of 16 4]
    by (simp_all add: field16_def field32_def h(1) bytes_at_append_left bytes_at_append_right ip_head_fields udp_head_fields le_word_le_bytes del: le_bytes_numeral)
  show "bytes_at 42 (unat len - 28) ?p = bytes_at 28 (unat len - 28) buf"
    using at [of 28 m] m assms(4) by (simp add: h(1) bytes_at_append_right) (simp add: bytes_at_def)
  have big: "unat (packetlen r) \<ge> 42 + m" using pk(3) by simp
  then have gt: "packetlen r \<ge> 34" "packetlen r \<ge> 42" by (simp_all add: word_le_nat_alt)
  have "ipchksum (drop 14 ?p) 20 = ipchksum ?h 20"
    using ipchksum_take [of 20 "drop 14 ?p"] pk(1) at [of 0 20] by (simp add: bytes_at_def h(1))
  then have ck: "ipchksum (drop 14 ?p) 20 = Some 0" using h(2) by simp
  have "len \<le> 1500" using assms(3) by (simp add: word_le_nat_alt)
  then show "verify_ip ETH_P_IP r = Some (Some (True, 20, r))"
    using gt ck pk(1) f by (simp add: verify_ip_def rd1_def ETH_MAX_MTU_def)
  have "unat (ntohs (field16 16 ?p)) = 20 + (8 + m)" using f(1) m by simp
  then have "tcpudpchksum ?p 14 = tcpudpchksum d 0"
    using at [of 0 "20 + (8 + m)"] pk(1) d m assms(3) by (intro tcpudpchksum_cong [of _ "8 + m"]) simp_all
  moreover have "ucast (len - 20) = (ucast len - 20 :: u32)"
    using m by (simp add: word_unat_eq_iff unat_sub word_le_nat_alt unat_ucast_u16_u32)
  ultimately show "verify_udp True 20 r = Some (Some True)"
    using gt f g h(4) by (simp add: verify_udp_def)
qed

text \<open>
  C10: What \<open>build_udp_hdr\<close> puts before a payload, the receiver accepts: a frame that carries such a
  datagram passes the length, fragment and checksum tests and is passed to the receive function as UDP
  with the ports, the address and the payload that went in.\<close>

theorem udp_datagram_received:
  assumes "build_udp_hdr s destip a b ttl len buf = Some d" "28 \<le> unat len" "unat len \<le> 1500" "unat len \<le> length buf"
    and "carries r len d"
  shows "handle_packet env reply r = do { (x, r) \<leftarrow> reply ETH_P_IP True True r; Some (if x > 0 then (x, r) else (0, r)) }
    \<and> ntohs (field16 34 (packet r)) = a \<and> ntohs (field16 36 (packet r)) = b \<and> field32 30 (packet r) = destip
    \<and> bytes_at 42 (unat len - 28) (packet r) = bytes_at 28 (unat len - 28) buf"
proof -
  note u = udp_received [OF assms]
  have p: "bytes_at 12 2 (packet r) = [8, 0]" "length (packet r) = 1514" "14 + unat len \<le> unat (packetlen r)"
    using assms(5) by (simp_all add: carries_def ETH_FRAME_LEN_def)
  have t: "packet r ! 12 = 8" "packet r ! 13 = 0"
    using nth_of_bytes_at [OF p(1), of 0] nth_of_bytes_at [OF p(1), of 1] p(2) by simp_all
  have "\<not> packetlen r < 14" using p(3) by (simp add: word_less_nat_alt)
  moreover have "answer_arp env ETH_P_IP s' = Some s'" for s' :: "'b net" by (simp add: answer_arp_def eth_consts)
  ultimately have "handle_packet env reply r = do { (x, r) \<leftarrow> reply ETH_P_IP True True r; Some (if x > 0 then (x, r) else (0, r)) }"
    using t p(2) u(1,2) by (simp add: handle_packet_def rd1_def eth_consts if_distrib cong: if_cong)
  then show ?thesis using u(3-7) by simp
qed

section \<open>Packets that the checks do not stop\<close>

text \<open>
  C40: Two kinds of packets make \<open>await_reply\<close> leave its buffer, whoever sent them and whatever it is
  waiting for: a UDP packet with a checksum whose IP length is less than 20, because the length that is
  left for the checksum wraps around, and an IP packet with options of more than 1480 bytes, because
  the move over the options copies the Ethernet header's length too many.\<close>

theorem handle_packet_overruns:
  assumes "length (packet s) = ETH_FRAME_LEN" "bytes_at 12 2 (packet s) = [8, 0]" "packetlen s \<ge> 42" "packetlen s \<le> 1514"
    and "0x45 \<le> packet s ! 14" "packet s ! 14 \<le> 0x4F" "field16 20 (packet s) = 0"
    and "ipchksum (drop 14 (packet s)) ((ucast (packet s ! 14) AND 0xF) * 4) = Some 0"
    and "ntohs (field16 16 (packet s)) \<le> ETH_MAX_MTU"
    and "packet s ! 14 = 0x45 \<and> packet s ! 23 = IP_UDP \<and> field16 40 (packet s) \<noteq> 0 \<and> ntohs (field16 16 (packet s)) < 20
       \<or> packet s ! 14 \<noteq> 0x45 \<and> packetlen s > 1480"
  shows "handle_packet env reply s = None"
proof -
  have l: "length (packet s) = 1514" using assms(1) by (simp add: ETH_FRAME_LEN_def)
  have t: "packet s ! 12 = 8" "packet s ! 13 = 0"
    using nth_of_bytes_at [OF assms(2), of 0] nth_of_bytes_at [OF assms(2), of 1] l by simp_all
  have pl: "\<not> packetlen s < 14" "packetlen s \<ge> 34" "unat (packetlen s) \<le> 1514"
    using assms(3,4) by (simp_all add: word_le_nat_alt word_less_nat_alt)
  have v: "\<not> (packet s ! 14 < 0x45 \<or> packet s ! 14 > 0x4F)" using assms(5,6) by (simp add: not_less)
  let ?il = "(ucast (packet s ! 14) AND 0xF) * 4 :: u32"
  have h: "handle_packet env reply s = None" if "verify_ip ETH_P_IP s = None \<or> verify_ip ETH_P_IP s = Some (Some (True, 20, s)) \<and> verify_udp True 20 s = None"
    using that t l pl(1) by (auto simp: handle_packet_def rd1_def eth_consts)
  show ?thesis
  proof (cases "packet s ! 14 = 0x45")
    case True
    let ?n = "ntohs (field16 16 (packet s))"
    have n: "unat ?n < 20" "packet s ! 23 = IP_UDP" "field16 40 (packet s) \<noteq> 0"
      using assms(10) True by (auto simp: word_less_nat_alt)
    have i: "verify_ip ETH_P_IP s = Some (Some (True, 20, s))"
      using assms(7-9) True v pl l by (simp add: verify_ip_def rd1_def)
    have w: "unat (ucast ?n - 20 :: u32) = 4294967276 + unat ?n"
    proof -
      have e: "ucast ?n - 20 = ucast ?n + (4294967276 :: u32)" by simp
      have c: "unat (4294967276 :: u32) = 4294967276" by simp
      have "unat (ucast ?n + (4294967276 :: u32)) = (unat ?n + 4294967276) mod 2 ^ LENGTH(32)"
        unfolding unat_word_ariths(1) c unat_ucast_u16_u32 ..
      then show ?thesis using n(1) unfolding e by simp
    qed
    have "unat (ntohs (field16 38 (packet s))) < 65536" by (rule unat_u16_less)
    then have "\<not> ucast (ntohs (field16 38 (packet s))) > (ucast ?n - 20 :: u32)"
      using w by (simp add: word_less_nat_alt unat_ucast_u16_u32)
    moreover have "tcpudpchksum (packet s) 14 = None"
      using w l by (simp add: tcpudpchksum_def ipchksum_def rd_def bind_eq_None_conv Let_def)
    ultimately have "verify_udp True 20 s = None" using n assms(3) by (simp add: verify_udp_def)
    then show ?thesis using h i by blast
  next
    case False
    then have pl2: "1480 < unat (packetlen s)" using assms(10) by (simp add: word_less_nat_alt)
    let ?v = "packet s ! 14"
    have v2: "0x45 \<le> unat ?v" "unat ?v \<le> 0x4F" "unat ?v \<noteq> 0x45"
      using assms(5,6) False by (auto simp: word_le_nat_alt word_unat_eq_iff)
    have u: "unat (ucast ?v :: u32) = unat ?v" using unat_u8_less [of ?v] by (simp add: unsigned_ucast_eq take_bit_nat_eq_self)
    then have "unat (ucast ?v AND 0xF :: u32) = unat ?v - 64"
      using v2 unat_and_15 [of "ucast ?v :: u32"] by (simp add: mod_if le_mod_geq)
    then have il: "unat ?il = 4 * (unat ?v - 64)" using v2 by (simp add: unat_word_ariths)
    then have ol: "unat (?il - 20) = 4 * (unat ?v - 64) - 20" "?il - 20 \<noteq> 0"
      using v2 by (simp_all add: unat_sub word_le_nat_alt word_unat_eq_iff)
    then have "unat (packetlen s - (?il - 20)) = unat (packetlen s) - (4 * (unat ?v - 64) - 20)"
      using v2 pl2 by (subst unat_sub) (simp_all add: word_le_nat_alt)
    then have "rd (packet s) (14 + unat ?il) (unat (packetlen s - (?il - 20))) = None"
      using il v2 pl2 l by (simp add: rd_def)
    then have "verify_ip ETH_P_IP s = None"
      using assms(7-9) v pl l ol(2) by (simp add: verify_ip_def rd1_def Let_def)
    then show ?thesis using h by blast
  qed
qed

section \<open>Answers to ARP requests\<close>

lemma drop_bytes_at: "drop n xs = bytes_at n k xs @ drop (n + k) xs"
  by (simp add: bytes_at_def) (metis append_take_drop_id drop_drop add.commute)

text \<open>
  C22: Whatever \<open>await_reply\<close> is waiting for, a request for our address that the receive function
  does not take is answered to its sender with our address, and with nothing else.\<close>

theorem arp_request_answered:
  assumes "length (packet s) = ETH_FRAME_LEN" "bytes_at 12 2 (packet s) = [8, 6]" "packetlen s \<ge> 42"
    and "bytes_at 14 8 (packet s) = [0, 1, 8, 0, 6, 4, 0, 1]" "bytes_at 38 4 (packet s) = le_bytes 4 (ipaddr (arp s ARP_CLIENT))"
    and "length (node (arp s ARP_CLIENT)) = 6" "reply ETH_P_ARP False False s = Some (0, s)"
  shows "\<exists>s'. handle_packet env reply s = Some (0, s') \<and> n_sent s' = n_sent s @ [(bytes_at 22 6 (packet s), 0x0806,
      [0, 1, 8, 0, 6, 4, 0, 2] @ node (arp s ARP_CLIENT) @ le_bytes 4 (ipaddr (arp s ARP_CLIENT))
      @ bytes_at 22 6 (packet s) @ bytes_at 28 4 (packet s))]"
proof -
  let ?p = "packet s" and ?n = "node (arp s ARP_CLIENT)" and ?i = "le_bytes 4 (ipaddr (arp s ARP_CLIENT))"
  have l: "length ?p = 1514" using assms(1) by (simp add: ETH_FRAME_LEN_def)
  have t: "?p ! 12 = 8" "?p ! 13 = 6"
    using nth_of_bytes_at [OF assms(2), of 0] nth_of_bytes_at [OF assms(2), of 1] l by simp_all
  have pl: "\<not> packetlen s < 14" using assms(3) by (simp add: word_less_nat_alt word_le_nat_alt)
  have at: "bytes_at (14 + k) n ?p = bytes_at k n [0, 1, 8, 0, 6, 4, 0, 1]" if "k + n \<le> 8" for k n
    using bytes_at_bytes_at [OF that, of 14 ?p] assms(4) by simp
  have op: "field16 20 ?p = htons ARP_REQUEST"
    using at [of 6 2] by (simp add: field16_def bytes_at_def ARP_REQUEST_def bswap_16_def)
  have ip: "field32 38 ?p = ipaddr (arp s ARP_CLIENT)" using assms(5) by (simp add: field32_def le_word_le_bytes del: le_bytes_numeral)
  define a b c d e r where "a = take 20 ?p" and "b = bytes_at 22 6 ?p" and "c = bytes_at 28 4 ?p" and "d = bytes_at 32 6 ?p"
    and "e = bytes_at 38 4 ?p" and "r = drop 42 ?p"
  have ls: "length a = 20" "length b = 6" "length c = 4" "length d = 6" "length e = 4"
    using l by (simp_all add: a_def b_def c_def d_def e_def)
  define q where "q = bytes_at 20 2 ?p"
  have lq: "length q = 2" using l by (simp add: q_def)
  have "drop 20 ?p = q @ b @ c @ d @ e @ r"
    using drop_bytes_at [of 20 ?p 2] drop_bytes_at [of 22 ?p 6] drop_bytes_at [of 28 ?p 4] drop_bytes_at [of 32 ?p 6] drop_bytes_at [of 38 ?p 4]
    by (simp add: q_def b_def c_def d_def e_def r_def)
  then have p: "?p = a @ q @ b @ c @ d @ e @ r" using append_take_drop_id [of 20 ?p] by (simp add: a_def)
  define p1 where "p1 = a @ le_bytes 2 (htons ARP_REPLY) @ ?n @ ?i @ b @ c @ r"
  have "answer_arp env ETH_P_ARP s = Some (eth_transmit env (bytes_at 32 6 p1) ETH_P_ARP (bytes_at 14 28 p1) (s\<lparr>packet := p1\<rparr>))"
    using assms(3,6) op ip ls lq unfolding p1_def
    by (simp add: answer_arp_def p wr_def rd_def put_bytes_def bytes_at_def ETH_ALEN_def del: le_bytes_numeral)
  moreover have "bytes_at 32 6 p1 = b" "bytes_at 14 28 p1 = bytes_at 14 6 ?p @ le_bytes 2 (htons ARP_REPLY) @ ?n @ ?i @ b @ c"
    using ls assms(6) by (simp_all add: p1_def p bytes_at_def del: le_bytes_numeral)
  moreover have "bytes_at 14 6 ?p = [0, 1, 8, 0, 6, 4]" using at [of 0 6] by (simp add: bytes_at_def)
  moreover have "le_bytes 2 (htons ARP_REPLY) = [0, 2]" by (simp add: ARP_REPLY_def bswap_16_def)
  moreover have "handle_packet env reply s = do { s \<leftarrow> answer_arp env ETH_P_ARP s; Some (0, s) }"
    using t l pl assms(7) by (simp add: handle_packet_def rd1_def eth_consts verify_ip_def verify_udp_def)
  ultimately show ?thesis by (simp add: eth_transmit_def ETH_P_ARP_def b_def c_def del: le_bytes_numeral)
qed

section \<open>A card without traffic\<close>

definition silent_nic :: "nat nic_env" where
  "silent_nic = \<lparr>nic_poll = (\<lambda>h. (None, h)), nic_transmit = (\<lambda>d t p h. h), nic_ticks = (\<lambda>h. (of_nat h, h + 1000)),
     nic_keys = id, bootp_address = 0x100000\<rparr>"

definition sample_net :: "'h \<Rightarrow> byte list \<Rightarrow> u32 \<Rightarrow> 'h net" where
  "sample_net h p n = \<lparr>n_hw = h, n_sent = [], n_seed = 1,
     arptable = [\<lparr>ipaddr = 0x0200000A, node = [2, 0, 0, 0, 0, 2]\<rparr>, \<lparr>ipaddr = 0x0100000A, node = [2, 0, 0, 0, 0, 1]\<rparr>,
       \<lparr>ipaddr = 0, node = replicate 6 0\<rparr>],
     netmask = 0xFF, sport = 0, xid = 0, packet = p, packetlen = n, bootp_data = replicate 1472 0, dhcp_reply = 0, dhcp_server = 0,
     dhcp_addr = 0, hostname = None, hostnamelen = 0, end_of_rfc1533 = None, addparam = None, addparamlen = 0, vendorext_isvalid = 0,
     extdata = None, extend_ = None, in_encapsulated_options = 0, lport = 2000, rport = 69, xmit = replicate 542 0, xmitlen = 0,
     blockidx = 0, tftp_retry = 0, blksize = 0\<rparr>"

lemma sample_net_sel [simp]:
  "packet (sample_net h p n) = p" "packetlen (sample_net h p n) = n" "n_hw (sample_net h p n) = h" "n_sent (sample_net h p n) = []"
  "ipaddr (arp (sample_net h p n) ARP_CLIENT) = 0x0200000A" "node (arp (sample_net h p n) ARP_CLIENT) = [2, 0, 0, 0, 0, 2]"
  by (simp_all add: sample_net_def ARP_CLIENT_def)

theorem udp_datagram_received_witness:
  "\<exists>d p s'. build_udp_hdr (sample_net (0 :: nat) [] 0) 0x0100000A 2001 69 60 30 (replicate 28 0 @ [0x61, 0x62]) = Some d
    \<and> take 30 (drop 14 p) = d \<and> handle_packet silent_nic (\<lambda>t i u s. Some (if i \<and> u then 7 else 0, s)) (sample_net 0 p 44) = Some (7, s')
    \<and> take 2 (drop 42 p) = [0x61, 0x62]"
proof -
  let ?b = "replicate 28 0 @ [0x61, 0x62]"
  obtain c u where d: "build_udp_hdr (sample_net (0 :: nat) [] 0) 0x0100000A 2001 69 60 30 ?b =
      Some (ip_head (sample_net (0 :: nat) [] 0) 0x0100000A 60 IP_UDP 30 c @ udp_head 2001 69 30 u @ drop 28 ?b)"
    using build_udp_hdr_eq [of 30 ?b "sample_net (0 :: nat) [] 0" "0x0100000A" 2001 69 60] by auto
  define b where "b = ip_head (sample_net (0 :: nat) [] 0) 0x0100000A 60 IP_UDP 30 c @ udp_head 2001 69 30 u @ drop 28 ?b"
  have l: "length b = 30" by (simp add: b_def)
  define p where "p = replicate 12 0 @ [8, 0] @ b @ replicate 1470 0"
  have c: "carries (sample_net 0 p 44) 30 b" using l by (simp add: carries_def p_def ETH_FRAME_LEN_def bytes_at_def)
  have d': "build_udp_hdr (sample_net (0 :: nat) [] 0) 0x0100000A 2001 69 60 30 ?b = Some b" using d unfolding b_def .
  let ?r = "\<lambda>t i u s. Some (if i \<and> u then 7 else 0, s) :: (int \<times> nat net) option"
  have "handle_packet silent_nic ?r (sample_net 0 p 44) =
      do { (x, r) \<leftarrow> ?r ETH_P_IP True True (sample_net 0 p 44); Some (if x > 0 then (x, r) else (0, r)) }
      \<and> bytes_at 42 (unat (30 :: u16) - 28) (packet (sample_net 0 p 44)) = bytes_at 28 (unat (30 :: u16) - 28) ?b"
    using udp_datagram_received [OF d' _ _ _ c, of silent_nic ?r] by simp
  then have h: "handle_packet silent_nic ?r (sample_net 0 p 44) = Some (7, sample_net 0 p 44)" "bytes_at 42 2 p = [0x61, 0x62]"
    by (simp_all add: bytes_at_append_right)
  show ?thesis using d' l h
    by (intro exI [of _ b] exI [of _ p] exI [of _ "sample_net 0 p 44"]) (simp add: p_def bytes_at_def)
qed

theorem handle_packet_overruns_witness:
  "\<exists>p. length p = 1514 \<and> handle_packet silent_nic await_qdrain (sample_net 0 p 60) = None"
proof -
  obtain c where c: "ipchksum (ip_head (sample_net (0 :: nat) [] 0) 0x0200000A 60 IP_UDP 0 c) 20 = Some 0"
    using build_ip_hdr_eq [of "replicate 20 0" "sample_net (0 :: nat) [] 0" "0x0200000A" 60 IP_UDP 0] by auto
  let ?h = "ip_head (sample_net (0 :: nat) [] 0) 0x0200000A 60 IP_UDP 0 c"
  define p where "p = replicate 12 0 @ [8, 0] @ ?h @ replicate 6 0 @ [1] @ replicate 1473 0"
  have l: "length p = 1514" by (simp add: p_def)
  have at: "bytes_at (14 + k) n p = bytes_at k n ?h" if "k + n \<le> 20" for k n
    using that by (simp add: p_def bytes_at_def del: replicate_numeral)
  have f: "bytes_at 12 2 p = [8, 0]" "field16 20 p = 0" "field16 16 p = 0" "field16 40 p = 1"
    using at [of 6 2] at [of 2 2]
    by (simp_all add: field16_def ip_head_fields le_word_le_bytes bswap_16_def del: le_bytes_numeral)
      (simp_all add: p_def bytes_at_def del: replicate_numeral)
  have n: "p ! 14 = 0x45" "p ! 23 = IP_UDP"
    using nth_of_bytes_at [OF at [of 0 20], of 0] nth_of_bytes_at [OF at [of 0 20], of 9] l ip_head_fields(3,4) by simp_all
  have "take 20 (drop 14 p) = ?h" using at [of 0 20] by (simp add: bytes_at_def)
  then have k: "ipchksum (drop 14 p) 20 = Some 0" using ipchksum_take [of 20 "drop 14 p"] l c by simp
  have "handle_packet silent_nic await_qdrain (sample_net 0 p 60) = None"
    using l f n k by (intro handle_packet_overruns) (simp_all add: ETH_FRAME_LEN_def ETH_MAX_MTU_def bswap_16_def)
  then show ?thesis using l by blast
qed

theorem arp_request_answered_witness:
  "\<exists>s'. handle_packet silent_nic await_qdrain (sample_net 0 (replicate 12 0 @ [8, 6, 0, 1, 8, 0, 6, 4, 0, 1, 2, 0, 0, 0, 0, 1, 10, 0, 0, 1]
     @ replicate 6 0 @ [10, 0, 0, 2] @ replicate 1472 0) 60) = Some (0, s')
    \<and> n_sent s' = [([2, 0, 0, 0, 0, 1], 0x0806,
        [0, 1, 8, 0, 6, 4, 0, 2, 2, 0, 0, 0, 0, 2, 10, 0, 0, 2, 2, 0, 0, 0, 0, 1, 10, 0, 0, 1])]"
proof -
  let ?p = "replicate 12 0 @ [8, 6, 0, 1, 8, 0, 6, 4, 0, 1, 2, 0, 0, 0, 0, 1, 10, 0, 0, 1] @ replicate 6 0 @ [10, 0, 0, 2] @ replicate 1472 0 :: byte list"
  have b: "bytes_at 12 2 ?p = [8, 6]" "bytes_at 14 8 ?p = [0, 1, 8, 0, 6, 4, 0, 1]" "bytes_at 38 4 ?p = [10, 0, 0, 2]"
    "bytes_at 22 6 ?p = [2, 0, 0, 0, 0, 1]" "bytes_at 28 4 ?p = [10, 0, 0, 1]"
    by (simp_all add: bytes_at_def del: replicate_numeral)
  have i: "le_bytes 4 (0x0200000A :: u32) = [10, 0, 0, 2]" by simp
  show ?thesis
    using arp_request_answered [of "sample_net 0 ?p 60" await_qdrain silent_nic] b
    by (simp add: ETH_FRAME_LEN_def await_qdrain_def i del: le_bytes_numeral)
qed

end
