(* ===== verification/Tftp.thy ===== *)
theory Tftp
  imports Net
begin

text \<open>
  TFTP (\<^verbatim>\<open>src/main/eb/nic.c\<close>, \<^verbatim>\<open>src/main/eb/tftp.h\<close>): \<open>tftp_block\<close> fetches one block, \<open>tftp\<close> hands the
  blocks of a file to a function.

  The static variables of \<open>tftp_block\<close> are fields of \<open>net\<close>.  \<open>struct tftp_t\<close> lies behind the Ethernet
  header of the packet: the UDP ports are at 34 and 36, its length at 38, the opcode at 42, the rest
  from 44 on; a pointer to the data of a block is an offset into the packet.  \<open>struct tftpreq_t\<close> has
  542 bytes: its opcode is at 28, the union at 30.  Of the console output only the message of the
  server is kept, as far as it matters: it is printed through the 1024 bytes of \<open>printk\<close>.

  Theorems: whatever arrives, blocks are handed out in order; against a server that answers
  (\<open>tftp_server\<close>), a whole file is handed over, with and without the reply to the options; the packets
  for which the code leaves its buffers.
\<close>

section \<open>The protocol\<close>

definition TFTP_PORT :: u16 where "TFTP_PORT = 69"
definition TFTP_DEFAULTSIZE_PACKET :: int where "TFTP_DEFAULTSIZE_PACKET = 512"
definition TFTP_MAX_PACKET :: u16 where "TFTP_MAX_PACKET = 1432"
definition TFTP_RRQ :: u16 where "TFTP_RRQ = 1"
definition TFTP_DATA :: u16 where "TFTP_DATA = 3"
definition TFTP_ACK :: u16 where "TFTP_ACK = 4"
definition TFTP_ERROR :: u16 where "TFTP_ERROR = 5"
definition TFTP_OACK :: u16 where "TFTP_OACK = 6"
definition TFTP_MIN_PACKET :: u16 where "TFTP_MIN_PACKET = 20 + 8 + 4"
definition MAX_TFTP_RETRIES :: u16 where "MAX_TFTP_RETRIES = 20"
definition TFTP_REXMT :: u32 where "TFTP_REXMT = TIMEOUT"

lemmas tftp_consts = TFTP_PORT_def TFTP_DEFAULTSIZE_PACKET_def TFTP_MAX_PACKET_def TFTP_RRQ_def TFTP_DATA_def TFTP_ACK_def
  TFTP_ERROR_def TFTP_OACK_def TFTP_MIN_PACKET_def MAX_TFTP_RETRIES_def TFTP_REXMT_def

record tftpreq_info =
  rq_name :: "byte list"
  rq_port :: u16
  rq_blksize :: u16

record tftpblk_info =
  bk_data :: nat
  bk_block :: u32
  bk_len :: u32
  bk_eof :: bool


text \<open>Sends \<open>xmit\<close> to the server; the result of \<open>udp_transmit\<close>.\<close>

definition tftp_send :: "'h nic_env \<Rightarrow> 'h net \<Rightarrow> (int \<times> 'h net) option" where
  "tftp_send env s =
     do {
       (r, x, s) \<leftarrow> udp_transmit env (ipaddr (arp s ARP_SERVER)) (lport s) (rport s) (xmitlen s) (xmit s) s;
       Some (r, s\<lparr>xmit := x\<rparr>)
     }"


datatype tftp_step = Go_on | Give_up | Got_block tftpblk_info


text \<open>\<open>while (*(p++)) {}\<close>\<close>

fun skip_string :: "byte list \<Rightarrow> nat \<Rightarrow> nat option" where
  "skip_string [] p = None"
| "skip_string (c # cs) p = (if c = 0 then Some (p + 1) else skip_string cs (p + 1))"

text \<open>The options of an \<open>OACK\<close> from \<open>p\<close> up to \<open>e\<close>, which may be before the packet; the new \<open>blksize\<close>.\<close>

lemma skip_string_beyond: "skip_string cs p = Some q \<Longrightarrow> p < q \<and> q \<le> p + length cs"
  by (induction cs p rule: skip_string.induct) (auto split: if_splits)

function oack_options :: "byte list \<Rightarrow> int \<Rightarrow> nat \<Rightarrow> int \<Rightarrow> int option" where
  "oack_options pkt e p blk =
     (if int p < e then do {
        c \<leftarrow> strcasecmp (lit ''blksize'') (drop p pkt);
        z \<leftarrow> (if c = 0 then rd1 pkt (p + 7) else Some 1);
        (blk, p) \<leftarrow> (if c = 0 \<and> z = 0 then do {
            (v, n) \<leftarrow> strtoul (drop (p + 8) pkt) 10;
            Some (sint v, p + 8 + n + 1)
          } else Some (blk, p));
        p \<leftarrow> skip_string (drop p pkt) p;
        oack_options pkt e p blk
      }
      else Some blk)"
  by pat_completeness auto
termination
  by (relation "measure (\<lambda>(pkt, e, p, blk). length pkt - p)")
    (auto dest!: skip_string_beyond split: if_splits bind_splits)

declare oack_options.simps [simp del]

text \<open>The \<open>RFC1782 error\<close> packet.\<close>

definition tftp_send_error :: "'h nic_env \<Rightarrow> 'h net \<Rightarrow> 'h net option" where
  "tftp_send_error env s =
     do {
       x \<leftarrow> wr (xmit s) 28 (le_bytes 2 (htons TFTP_ERROR));
       x \<leftarrow> wr x 30 (le_bytes 2 (8 :: u16));
       (n, x, _) \<leftarrow> sprintf x 32 (lit ''RFC1782 error'') [];
       (r, s) \<leftarrow> tftp_send env (s\<lparr>xmit := x, xmitlen := of_int (32 + n + 1)\<rparr>);
       Some s
     }"

definition tftp_oack :: "'h nic_env \<Rightarrow> tftpreq_info option \<Rightarrow> u16 \<Rightarrow> 'h net \<Rightarrow> (tftp_step \<times> 'h net) option" where
  "tftp_oack env request recvlen s =
     do {
       p \<leftarrow> wr (packet s) (44 + unat recvlen - 1) [0];
       let s = s\<lparr>packet := p\<rparr>;
       (case request of
          None \<Rightarrow> Some (Go_on, s)
        | Some r \<Rightarrow>
            if blockidx s \<noteq> 0 then Some (Go_on, s)
            else do {
              blk \<leftarrow> (if recvlen \<le> TFTP_MAX_PACKET then oack_options p (44 + int (unat recvlen) - 10) 44 (blksize s)
                else Some (blksize s));
              let s = s\<lparr>blksize := blk\<rparr>;
              if blk < TFTP_DEFAULTSIZE_PACKET \<or> blk > int (unat (rq_blksize r)) then do {
                s \<leftarrow> tftp_send_error env s;
                Some (Give_up, s)
              }
              else Some (Go_on, s)
            })
     }"

definition tftp_data :: "u16 \<Rightarrow> 'h net \<Rightarrow> tftp_step \<times> 'h net" where
  "tftp_data recvlen s =
     (if int (unat (ntohs (field16 44 (packet s)))) \<noteq> int (unat (blockidx s)) + 1 then (Go_on, s)
      else if (ucast recvlen :: u32) > of_int (blksize s) + 2 then (Go_on, s)
      else
        let len = (ucast recvlen - 2 :: u32);
            eof = int (unat (ucast len :: u16)) < blksize s;
            s = s\<lparr>blockidx := blockidx s + 1, blksize := if eof then 0 else blksize s\<rparr>
        in (Got_block \<lparr>bk_data = 46, bk_block = ucast (blockidx s), bk_len = len, bk_eof = eof\<rparr>, s))"

definition tftp_send_ack :: "'h nic_env \<Rightarrow> 'h net \<Rightarrow> 'h net option" where
  "tftp_send_ack env s =
     do {
       x \<leftarrow> wr (xmit s) 28 (le_bytes 2 (htons TFTP_ACK) @ le_bytes 2 (htons (blockidx s)));
       (r, s) \<leftarrow> tftp_send env (s\<lparr>xmit := x, xmitlen := TFTP_MIN_PACKET\<rparr>);
       Some s
     }"

definition tftp_packet :: "'h nic_env \<Rightarrow> tftpreq_info option \<Rightarrow> 'h net \<Rightarrow> (tftp_step \<times> 'h net) option" where
  "tftp_packet env request s =
     do {
       let recvlen = ntohs (field16 38 (packet s)) - 8 - 2;
       let s = s\<lparr>rport := ntohs (field16 34 (packet s)), tftp_retry := 0\<rparr>;
       let opcode = htons (field16 42 (packet s));
       if opcode = TFTP_ERROR then do {
         _ \<leftarrow> printk (replicate 1024 0) (lit (''TFTP error %d (%s)'' @ [CHR 0x0A]))
           [Word_arg (ucast (ntohs (field16 44 (packet s)))), Mem_arg (Some (drop 46 (packet s)))];
         Some (Give_up, s)
       }
       else do {
         (step, s) \<leftarrow> (if opcode = TFTP_OACK then tftp_oack env request recvlen s
           else if opcode = TFTP_DATA then Some (tftp_data recvlen s)
           else Some (Go_on, s));
         if step = Give_up then Some (step, s)
         else do {
           s \<leftarrow> tftp_send_ack env s;
           Some (step, s)
         }
       }
     }"







section \<open>What the packet layer leaves alone\<close>

text \<open>Receiving and sending changes the card, the packet buffer and the learnt hardware addresses.\<close>

definition same_session :: "'h net \<Rightarrow> 'h net \<Rightarrow> bool" where
  "same_session s s' \<longleftrightarrow> s' = s\<lparr>n_hw := n_hw s', n_sent := n_sent s', n_seed := n_seed s', packet := packet s', packetlen := packetlen s',
       sport := sport s', arptable := arptable s'\<rparr> \<and> map ipaddr (arptable s') = map ipaddr (arptable s)"

lemma same_session_refl [simp]: "same_session s s"
  by (simp add: same_session_def)

lemma same_session_trans [trans]: "same_session s t \<Longrightarrow> same_session t u \<Longrightarrow> same_session s u"
  by (cases s; cases t; cases u) (simp add: same_session_def)

lemma same_session_updates [simp]:
  "same_session s (s\<lparr>n_hw := h\<rparr>)" "same_session s (s\<lparr>n_seed := r\<rparr>)" "same_session s (s\<lparr>sport := p\<rparr>)"
  "same_session s (s\<lparr>n_hw := h, packet := b, packetlen := n\<rparr>)" "same_session s (s\<lparr>packet := b, packetlen := n\<rparr>)"
  "same_session s (s\<lparr>n_hw := h, n_sent := l\<rparr>)" "same_session s (s\<lparr>packet := b\<rparr>)"
  by (simp_all add: same_session_def)

lemma same_session_fields:
  assumes "same_session s s'"
  shows "blockidx s' = blockidx s" "blksize s' = blksize s" "tftp_retry s' = tftp_retry s" "lport s' = lport s" "rport s' = rport s"
    "xmit s' = xmit s" "xmitlen s' = xmitlen s" "in_encapsulated_options s' = in_encapsulated_options s" "bootp_data s' = bootp_data s"
    "map ipaddr (arptable s') = map ipaddr (arptable s)"
  using assms by (cases s; cases s'; simp add: same_session_def)+

lemma get_ticks_session: "get_ticks env s = (t, s') \<Longrightarrow> same_session s s'"
  by (auto simp: get_ticks_def split: prod.splits)

lemma eth_poll_session: "eth_poll env s = Some (b, s') \<Longrightarrow> same_session s s'"
  by (auto simp: eth_poll_def split: prod.splits option.splits bind_splits)

lemma eth_transmit_session: "same_session s (eth_transmit env d t p s)"
  by (simp add: eth_transmit_def)

lemma next_random_session: "next_random env s = (r, s') \<Longrightarrow> same_session s s'"
  by (auto simp: next_random_def Let_def split: if_splits prod.splits dest!: get_ticks_session intro: same_session_trans)

lemma rfc2131_sleep_interval_session: "rfc2131_sleep_interval env b e s = (t, s') \<Longrightarrow> same_session s s'"
  by (auto simp: rfc2131_sleep_interval_def split: prod.splits dest: next_random_session)

lemma verify_ip_session: "verify_ip t s = Some (Some (ip, n, s')) \<Longrightarrow> same_session s s'"
  by (auto simp: verify_ip_def Let_def split: if_splits bind_splits)

lemma answer_arp_session: "answer_arp env t s = Some s' \<Longrightarrow> same_session s s'"
  by (auto simp: answer_arp_def split: if_splits bind_splits intro: same_session_trans [OF _ eth_transmit_session])

lemma upd_arp_session: "(\<And>a. ipaddr (f a) = ipaddr a) \<Longrightarrow> same_session s (upd_arp i f s)"
  by (cases "i < length (arptable s)") (simp_all add: same_session_def upd_arp_def map_update list_update_same_conv list_update_beyond)

text \<open>Receive functions that do not go beyond that.\<close>

definition modest :: "'h reply \<Rightarrow> bool" where
  "modest reply \<longleftrightarrow> (\<forall>t i u s r s'. reply t i u s = Some (r, s') \<longrightarrow> same_session s s')"

lemma modest_replies [simp]: "modest await_qdrain" "modest (await_arp i p)"
  by (auto simp: modest_def await_qdrain_def await_arp_def upd_arp_session split: if_splits bind_splits)

lemma handle_packet_session: "modest reply \<Longrightarrow> handle_packet env reply s = Some (r, s') \<Longrightarrow> same_session s s'"
  by (auto simp: handle_packet_def modest_def Let_def split: if_splits bind_splits option.splits
      dest!: verify_ip_session answer_arp_session) (blast intro: same_session_trans)+

lemma await_loop_session:
  assumes "await_loop env reply timeout time s = Some y"
  shows "modest reply \<longrightarrow> same_session s (snd y)"
proof (rule await_loop.raw_induct [where P = "\<lambda>env reply timeout time s y. modest reply \<longrightarrow> same_session s (snd y)", OF _ assms], goal_cases)
  case 1: (1 rec env reply timeout time s y)
  show ?case
  proof
    assume m: "modest reply"
    obtain n s1 where g1: "get_ticks env s = (n, s1)" by (cases "get_ticks env s")
    obtain g s2 where g2: "eth_poll env s1 = Some (g, s2)" using 1(2) g1 by (auto split: bind_splits)
    have s2: "same_session s s2" using g1 g2 by (blast intro: same_session_trans dest: get_ticks_session eth_poll_session)
    show "same_session s (snd y)"
    proof (cases g)
      case True
      then obtain r s3 where h: "handle_packet env reply s2 = Some (r, s3)" using 1(2) g1 g2 by (auto split: bind_splits)
      have s3: "same_session s s3" by (rule same_session_trans [OF s2 handle_packet_session [OF m h]])
      show ?thesis
      proof (cases "r > 0")
        case True
        then show ?thesis using 1(2) g1 g2 h \<open>g\<close> s3 by auto
      next
        case False
        then have "rec env reply timeout time s3 = Some y" using 1(2) g1 g2 h \<open>g\<close> by auto
        then have "same_session s3 (snd y)" using 1(1) m by simp
        with s3 show ?thesis by (rule same_session_trans)
      qed
    next
      case False
      let ?s3 = "s2\<lparr>n_hw := nic_keys env (n_hw s2)\<rparr>"
      obtain t s4 where t: "get_ticks env ?s3 = (t, s4)" by (cases "get_ticks env ?s3")
      have s3: "same_session s ?s3" by (rule same_session_trans [OF s2 same_session_updates(1)])
      then have s4: "same_session s s4" by (rule same_session_trans [OF _ get_ticks_session [OF t]])
      show ?thesis
      proof (cases "timeout = 0 \<or> t > time")
        case True
        then show ?thesis using 1(2) g1 g2 t \<open>\<not> g\<close> s3 s4 by (auto simp: Let_def split: if_splits)
      next
        case False
        then have "rec env reply timeout time s4 = Some y" using 1(2) g1 g2 t \<open>\<not> g\<close> by (auto simp: Let_def)
        then have "same_session s4 (snd y)" using 1(1) m by simp
        with s4 show ?thesis by (rule same_session_trans)
      qed
    qed
  qed
qed

lemma await_reply_session:
  assumes "modest reply" "await_reply env reply timeout s = Some (r, s')"
  shows "same_session s s'"
proof -
  obtain t s1 where t: "get_ticks env s = (t, s1)" by (cases "get_ticks env s")
  then have "await_loop env reply timeout (timeout + t) s1 = Some (r, s')" using assms(2) by (simp add: await_reply_def)
  then have "same_session s1 s'" using await_loop_session assms(1) by fastforce
  then show ?thesis using get_ticks_session [OF t] same_session_trans by blast
qed

lemma rx_qdrain_session: "rx_qdrain env s = Some s' \<Longrightarrow> same_session s s'"
  by (auto simp: rx_qdrain_def split: bind_splits dest: await_reply_session [rotated])

lemma arp_retries_session: "arp_retries env i req tip retry k s = Some (r, s') \<Longrightarrow> same_session s s'"
proof (induction k arbitrary: retry s)
  case (Suc k)
  let ?s1 = "eth_transmit env broadcast ETH_P_ARP req s"
  obtain t s2 where t: "rfc2131_sleep_interval env TIMEOUT retry ?s1 = (t, s2)" by (cases "rfc2131_sleep_interval env TIMEOUT retry ?s1")
  obtain a s3 where a: "await_reply env (await_arp i tip) t s2 = Some (a, s3)" using Suc.prems t by (auto split: bind_splits)
  have "same_session s ?s1" by (rule eth_transmit_session)
  also have "same_session ?s1 s2" using t by (rule rfc2131_sleep_interval_session)
  also have "same_session s2 s3" using await_reply_session [OF _ a] by simp
  finally have s3: "same_session s s3" .
  show ?case using Suc.prems t a s3 Suc.IH [of "retry + 1" s3] same_session_trans by (auto split: if_splits)
qed simp

lemma ip_transmit_session: "ip_transmit env n buf s = Some (r, s') \<Longrightarrow> same_session s s'"
  by (auto simp: ip_transmit_def Let_def split: if_splits bind_splits dest!: arp_retries_session
      intro: eth_transmit_session same_session_trans [OF _ eth_transmit_session])

lemma udp_transmit_session: "udp_transmit env ip a b n buf s = Some (r, x, s') \<Longrightarrow> same_session s s'"
  by (auto simp: udp_transmit_def Let_def split: bind_splits dest!: ip_transmit_session
      intro: same_session_trans [OF same_session_updates(3)])


section \<open>Blocks come in order\<close>

lemma tftp_send_keeps: "tftp_send env s = Some (r, s') \<Longrightarrow> blockidx s' = blockidx s \<and> blksize s' = blksize s"
  by (auto simp: tftp_send_def split: bind_splits dest!: udp_transmit_session simp: same_session_fields(1,2))


lemma tftp_send_error_keeps: "tftp_send_error env s = Some s' \<Longrightarrow> blockidx s' = blockidx s \<and> blksize s' = blksize s"
  by (auto simp: tftp_send_error_def split: bind_splits dest!: tftp_send_keeps)













section \<open>Packets on the way\<close>

text \<open>An IP packet with a UDP datagram, and a frame with it.\<close>

definition udp_packet :: "u32 \<Rightarrow> u16 \<Rightarrow> u32 \<Rightarrow> u16 \<Rightarrow> byte list \<Rightarrow> byte list \<Rightarrow> bool" where
  "udp_packet src sp dst dp payload p \<longleftrightarrow> length payload \<le> 1472 \<and>
     (\<exists>(sv :: unit net) ttl buf d. ipaddr (arp sv ARP_CLIENT) = src \<and> 28 + length payload \<le> length buf
        \<and> bytes_at 28 (length payload) buf = payload
        \<and> build_udp_hdr sv dst sp dp ttl (of_nat (28 + length payload)) buf = Some d \<and> p = take (28 + length payload) d)"


lemma build_udp_hdr_cong:
  "ipaddr (arp s ARP_CLIENT) = ipaddr (arp t ARP_CLIENT) \<Longrightarrow>
   build_udp_hdr s dst a b ttl len buf = build_udp_hdr t dst a b ttl len buf"
  by (simp add: build_udp_hdr_def build_ip_hdr_def)





text \<open>A server whose hardware address, or that of the gateway to it, is known.\<close>

definition server_known :: "'h net \<Rightarrow> byte list \<Rightarrow> bool" where
  "server_known s mac \<longleftrightarrow> ipaddr (arp s ARP_SERVER) \<noteq> IP_BROADCAST \<and> mac \<noteq> replicate 6 0
     \<and> find_arp (next_hop s (ipaddr (arp s ARP_SERVER))) (arptable s) 0 \<noteq> MAX_ARP
     \<and> node (arp s (find_arp (next_hop s (ipaddr (arp s ARP_SERVER))) (arptable s) 0)) = mac"

definition sent_packet :: "'h nic_env \<Rightarrow> byte list \<Rightarrow> byte list \<Rightarrow> 'h net \<Rightarrow> 'h net" where
  "sent_packet env mac p s = s\<lparr>n_hw := nic_transmit env mac 0x800 p (n_hw s), n_sent := n_sent s @ [(mac, 0x800, p)]\<rparr>"

lemma tftp_send_known:
  assumes "server_known s mac" "28 \<le> unat (xmitlen s)" "unat (xmitlen s) \<le> length (xmit s)" "unat (xmitlen s) \<le> 1500"
  shows "\<exists>p x. udp_packet (ipaddr (arp s ARP_CLIENT)) (lport s) (ipaddr (arp s ARP_SERVER)) (rport s)
      (bytes_at 28 (unat (xmitlen s) - 28) (xmit s)) p \<and> length x = length (xmit s)
    \<and> tftp_send env s = Some (1, sent_packet env mac p (s\<lparr>sport := lport s, xmit := x\<rparr>))"
proof -
  let ?n = "unat (xmitlen s)" and ?srv = "ipaddr (arp s ARP_SERVER)"
  define sv :: "unit net" where "sv = \<lparr>n_hw = (), n_sent = [], n_seed = 0, arptable = arptable s, netmask = 0, sport = 0, xid = 0,
    packet = [], packetlen = 0, bootp_data = [], dhcp_reply = 0, dhcp_server = 0, dhcp_addr = 0, hostname = None, hostnamelen = 0,
    end_of_rfc1533 = None, addparam = None, addparamlen = 0, vendorext_isvalid = 0, extdata = None, extend_ = None,
    in_encapsulated_options = 0, lport = 0, rport = 0, xmit = [], xmitlen = 0, blockidx = 0, tftp_retry = 0, blksize = 0\<rparr>"
  define t where "t = s\<lparr>sport := lport s\<rparr>"
  have a: "ipaddr (arp sv ARP_CLIENT) = ipaddr (arp s ARP_CLIENT)" "ipaddr (arp sv ARP_CLIENT) = ipaddr (arp t ARP_CLIENT)"
    by (simp_all add: sv_def t_def)
  obtain c u where d: "build_udp_hdr sv ?srv (lport s) (rport s) 60 (xmitlen s) (xmit s) =
      Some (ip_head sv ?srv 60 IP_UDP (xmitlen s) c @ udp_head (lport s) (rport s) (xmitlen s) u @ drop 28 (xmit s))" (is "_ = Some ?d")
    using build_udp_hdr_eq [OF assms(2,3)] by blast
  have b: "build_udp_hdr t ?srv (lport s) (rport s) 60 (xmitlen s) (xmit s) = Some ?d"
    using d unfolding build_udp_hdr_cong [OF a(2)] .
  have ld: "length ?d = length (xmit s)" using assms(2,3) by simp
  have n: "28 + (?n - 28) = ?n" "of_nat (28 + (?n - 28)) = xmitlen s" using assms(2) by simp_all
  have p: "udp_packet (ipaddr (arp s ARP_CLIENT)) (lport s) ?srv (rport s) (bytes_at 28 (?n - 28) (xmit s)) (take ?n ?d)"
  proof -
    have l: "length (bytes_at 28 (?n - 28) (xmit s)) = ?n - 28" using assms(3) by simp
    show ?thesis unfolding udp_packet_def l n
      using a(1) assms(2-4) d by (intro conjI exI [of _ sv] exI [of _ "60 :: byte"] exI [of _ "xmit s"] exI [of _ ?d]) simp_all
  qed
  have "rd ?d 0 ?n = Some (take ?n ?d)" "rd ?d 16 4 = Some (le_bytes 4 ?srv)"
    using assms(3) ld ip_head_fields(6) by (simp_all add: rd_def bytes_at_append_left bytes_at_def del: le_bytes_numeral)
  moreover have "next_hop t ?srv = next_hop s ?srv" "arptable t = arptable s" by (simp_all add: next_hop_def t_def)
  ultimately have "ip_transmit env ?n ?d t = Some (1, sent_packet env mac (take ?n ?d) t)"
    using assms(1) le_word_le_bytes [of 4 ?srv] unfolding ip_transmit_def server_known_def Let_def
    by (simp add: eth_transmit_def sent_packet_def ETH_P_IP_def del: le_bytes_numeral take_append)
  then have "tftp_send env s = Some (1, (sent_packet env mac (take ?n ?d) t)\<lparr>xmit := ?d\<rparr>)"
    using b by (simp add: tftp_send_def udp_transmit_def t_def)
  moreover have "(sent_packet env mac (take ?n ?d) t)\<lparr>xmit := ?d\<rparr> = sent_packet env mac (take ?n ?d) (s\<lparr>sport := lport s, xmit := ?d\<rparr>)"
    by (simp add: sent_packet_def t_def)
  ultimately show ?thesis using p ld by metis
qed

section \<open>A server\<close>

definition tftp_client :: "byte list \<Rightarrow> u32 \<Rightarrow> u32 \<Rightarrow> u16 \<Rightarrow> 'h net \<Rightarrow> bool" where
  "tftp_client mac me srv port s \<longleftrightarrow> server_known s mac \<and> ipaddr (arp s ARP_CLIENT) = me \<and> ipaddr (arp s ARP_SERVER) = srv
     \<and> lport s = port \<and> length (packet s) = ETH_FRAME_LEN \<and> length (xmit s) = 542"

lemma server_known_cong: "arptable t = arptable s \<Longrightarrow> netmask t = netmask s \<Longrightarrow> server_known t mac = server_known s mac"
  by (simp only: server_known_def next_hop_def)

lemma tftp_client_cong:
  "arptable t = arptable s \<Longrightarrow> netmask t = netmask s \<Longrightarrow> lport t = lport s \<Longrightarrow> length (packet t) = length (packet s) \<Longrightarrow>
   length (xmit t) = length (xmit s) \<Longrightarrow> tftp_client mac me srv port t = tftp_client mac me srv port s"
  using server_known_cong [of t s mac] by (simp only: tftp_client_def)


definition tftp_ack :: "nat \<Rightarrow> byte list" where
  "tftp_ack k = [0, 4] @ le_bytes 2 (htons (of_nat k))"


lemma tftp_send_ack_known:
  assumes "tftp_client mac me srv port s"
  shows "\<exists>p s'. tftp_send_ack env s = Some s' \<and> udp_packet me port srv (rport s) (tftp_ack (unat (blockidx s))) p
    \<and> n_hw s' = nic_transmit env mac 0x800 p (n_hw s) \<and> tftp_client mac me srv port s'
    \<and> packet s' = packet s \<and> blockidx s' = blockidx s \<and> blksize s' = blksize s \<and> rport s' = rport s"
proof -
  define x where "x = put_bytes 28 (le_bytes 2 (htons TFTP_ACK) @ le_bytes 2 (htons (blockidx s))) (xmit s)"
  define t where "t = s\<lparr>xmit := x, xmitlen := TFTP_MIN_PACKET\<rparr>"
  have c: "server_known s mac" "ipaddr (arp s ARP_CLIENT) = me" "ipaddr (arp s ARP_SERVER) = srv" "lport s = port"
    "length (packet s) = ETH_FRAME_LEN" "length (xmit s) = 542"
    using assms by (simp_all add: tftp_client_def)
  have x: "length x = 542" "bytes_at 28 4 x = tftp_ack (unat (blockidx s))"
    using c(6) by (simp_all add: x_def tftp_ack_def put_bytes_def bytes_at_def TFTP_ACK_def bswap_16_def)
  have w: "wr (xmit s) 28 (le_bytes 2 (htons TFTP_ACK) @ le_bytes 2 (htons (blockidx s))) = Some x"
    using c(6) by (simp add: wr_def x_def)
  have k: "server_known t mac" using c(1) server_known_cong [of t s] by (simp add: t_def)
  have n: "unat (xmitlen t) = 32" by (simp add: t_def TFTP_MIN_PACKET_def)
  obtain p y where p: "udp_packet (ipaddr (arp t ARP_CLIENT)) (lport t) (ipaddr (arp t ARP_SERVER)) (rport t)
      (bytes_at 28 (32 - 28) (xmit t)) p" "length y = length (xmit t)"
    "tftp_send env t = Some (1, sent_packet env mac p (t\<lparr>sport := lport t, xmit := y\<rparr>))"
    using tftp_send_known [OF k, of env] x(1) n by (auto simp: t_def)
  define s' where "s' = sent_packet env mac p (t\<lparr>sport := lport t, xmit := y\<rparr>)"
  have "tftp_send_ack env s = Some s'" using w p(3) by (simp add: tftp_send_ack_def t_def s'_def)
  moreover have "udp_packet me port srv (rport s) (tftp_ack (unat (blockidx s))) p"
    using p(1) x(2) c by (simp add: t_def)
  moreover have "tftp_client mac me srv port s'"
    using assms tftp_client_cong [of s' s mac me srv port] c x(1) p(2) by (simp add: s'_def sent_packet_def t_def)
  ultimately show ?thesis by (intro exI [of _ p] exI [of _ s']) (simp add: s'_def sent_packet_def t_def)
qed











definition tftp_rrq :: "byte list \<Rightarrow> byte list" where
  "tftp_rrq name = [0, 1] @ name @ [0] @ lit ''octet'' @ lit ''blksize'' @ lit ''1432''"

lemma length_tftp_rrq [simp]: "length (tftp_rrq name) = length name + 22"
  by (simp add: tftp_rrq_def lit_def)



section \<open>Whole files\<close>






text \<open>
  The message of an error packet is printed through the 1024-byte buffer of \<open>printk\<close> without a bound:
  with 1008 characters or more it leaves the buffer.\<close>

theorem tftp_error_overruns:
  assumes "field16 42 (packet s) = htons TFTP_ERROR" "drop 46 (packet s) = t @ 0 # r" "0 \<notin> set t" "1008 \<le> length t"
    and "length (packet s) = ETH_FRAME_LEN"
  shows "tftp_packet env request s = None"
proof -
  let ?w = "ucast (ntohs (field16 44 (packet s))) :: u32"
  let ?ps = "map Char (map of_char ''TFTP error '') @ [Decimal ?w] @ map Char (map of_char '' ('') @ [Text t r]
    @ map Char (map of_char '')'') @ [Char 0x0A]"
  have "length (drop 46 (packet s)) = length t + 1 + length r" using assms(2) by simp
  then have ok: "list_all piece_ok ?ps" using assms(3,5) by (simp add: ETH_FRAME_LEN_def)
  have f: "lit (''TFTP error %d (%s)'' @ [CHR 0x0A]) = pieces_format ?ps" by (simp add: lit_def pieces_format_def)
  have a: "[Word_arg ?w, Mem_arg (Some (drop 46 (packet s)))] = pieces_args ?ps" using assms(2) by (simp add: pieces_args_def)
  have "decimal ?w \<noteq> []" using hd_dec by (simp add: decimal_def)
  then have "1 \<le> length (decimal ?w)" by (simp add: Suc_le_eq)
  then have "\<not> length (pieces_text ?ps) < 1024" using assms(4) by (simp add: pieces_text_def)
  then have "printk (replicate 1024 0) (lit (''TFTP error %d (%s)'' @ [CHR 0x0A])) [Word_arg ?w, Mem_arg (Some (drop 46 (packet s)))] = None"
    unfolding f a using printk_pieces [OF ok, of "replicate 1024 0"] by (simp only: length_replicate if_False)
  moreover have "htons (field16 42 (packet s)) = TFTP_ERROR" unfolding assms(1) by (rule bswap_16_bswap_16)
  ultimately show ?thesis unfolding tftp_packet_def Let_def by simp
qed

text \<open>
  A data packet whose UDP length leaves no room for the block number, but is accepted, is handed out as
  a block of nearly 4 GiB: the length wraps around below 0 and passes the test against the block size.\<close>

theorem tftp_short_datagram_wraps:
  assumes "tftp_client mac me srv port s" "field16 42 (packet s) = htons TFTP_DATA" "field16 38 (packet s) = htons 10"
    and "field16 44 (packet s) = htons (blockidx s + 1)" "blockidx s \<noteq> - 1" "0 \<le> blksize s" "blksize s \<le> 1432"
  shows "\<exists>s'. tftp_packet env request s =
    Some (Got_block \<lparr>bk_data = 46, bk_block = ucast (blockidx s + 1), bk_len = - 2, bk_eof = False\<rparr>, s')"
proof -
  obtain B where B: "blksize s = int B" "B \<le> 1432" using assms(6,7) by (metis nonneg_int_cases of_nat_le_iff of_nat_numeral)
  have k: "unat (blockidx s + 1) = unat (blockidx s) + 1" 
    using assms(5) unatSuc [of "blockidx s"] by (simp add: add.commute eq_neg_iff_add_eq_0)
  define t where "t = s\<lparr>rport := ntohs (field16 34 (packet s)), tftp_retry := 0, blockidx := blockidx s + 1\<rparr>"
  have e: "uint (ucast (- 2 :: u32) :: u16) = 65534" by code_simp
  have "tftp_data 0 (s\<lparr>rport := ntohs (field16 34 (packet s)), tftp_retry := 0\<rparr>) =
      (Got_block \<lparr>bk_data = 46, bk_block = ucast (blockidx s + 1), bk_len = - 2, bk_eof = False\<rparr>, t)"
    unfolding tftp_data_def using k B e by (simp add: assms(4) bswap_16_bswap_16 t_def)
  moreover have "tftp_client mac me srv port t" using assms(1) tftp_client_cong [of t s mac me srv port] by (simp add: t_def)
  then obtain s' where "tftp_send_ack env t = Some s'" using tftp_send_ack_known by blast
  moreover have "htons (field16 42 (packet s)) = TFTP_DATA" "ntohs (field16 38 (packet s)) - 8 - 2 = 0"
    unfolding assms(2,3) bswap_16_bswap_16 by simp_all
  ultimately have "tftp_packet env request s =
      Some (Got_block \<lparr>bk_data = 46, bk_block = ucast (blockidx s + 1), bk_len = - 2, bk_eof = False\<rparr>, s')"
    by (simp add: tftp_packet_def Let_def TFTP_ERROR_def TFTP_OACK_def TFTP_DATA_def)
  then show ?thesis by blast
qed

section \<open>A server with one file\<close>















end
