(* ===== verification/Spec2Isabelle.thy ===== *)
theory Spec2Isabelle
  imports Sha1 Config Efi Ext2_Read Ext2_Path Probe Loader Clock Boot Diskboot Net Tftp
begin

text \<open>
  A model of mb_boot_tv, the boot loader of the AppleTV: it finds a Linux kernel on an ext2
  partition of the disk or on a TFTP server, and starts it.  The code is C for the i386; the paths
  below are relative to \<^verbatim>\<open>src/\<close>.

  \<^bold>\<open>The program.\<close>  \<open>do_main\<close> (\<^verbatim>\<open>main/main.c\<close>) tries the disk first: \<open>try_disk_boot\<close> probes the PCI bus
  for an IDE controller, reads the GUID partition table, and mounts each partition in turn as ext2
  until one holds a configuration file; \<open>parse_config\<close> reads it, and it either names kernel, ramdisk
  and options or sends the boot to the network.  A kernel that has been read is handed to
  \<open>boot_kernel\<close> (\<^verbatim>\<open>loader_init.c\<close>), which moves the parts to the places where Linux expects them, fills
  in the boot parameters and jumps.  If nothing can be started, \<open>spin\<close> loops for ever.

  \<^bold>\<open>Conventions.\<close>  Machine integers are words of their width, so that arithmetic wraps where the code
  wraps.  An object in memory is a list of bytes; access outside of it, and any loop that does not
  end, is \<open>None\<close> (\<open>rd\<close>, \<open>wr\<close>, \<open>rd1\<close>, \<open>wr1\<close> in Prelude).  A C function that works on global state is a
  function on a record of that state.  Ports, time and devices are a record of operations on an
  abstract hardware state (\<open>io\<close> in Io).  Output to the console is left out where its length is bounded,
  but for the messages of the boot sequence, which form a log.  Where a string of the configuration
  or of the server is printed, the call goes through the model of \<open>printk\<close> (\<open>console\<close> in Vsprintf): it
  is \<open>None\<close> if the text leaves the 1024-byte buffer on the stack.

  \<^bold>\<open>Theories.\<close>  In the order of the imports:
  \<^item> Prelude: byte lists, little endian fields, checked access, the lemma collections.
  \<^item> Sha1 (\<^verbatim>\<open>sha1.c\<close>): the streaming digest, equal to a definition of FIPS 180 on whole messages.
  \<^item> Cstring (\<^verbatim>\<open>main/string.c\<close>, \<^verbatim>\<open>loader_init.c\<close>): the string functions.
  \<^item> Config (\<^verbatim>\<open>main/main.c\<close>): the parser of the configuration file, against its reading line by line.
  \<^item> Io, Ide (\<^verbatim>\<open>main/eb/ide_disk.c\<close>): programmed input from a drive that meets the contract \<open>ata_drive\<close>,
    a locale that a concrete simulated drive interprets.
  \<^item> Disk (\<^verbatim>\<open>main/disk.c\<close>): the sector cache; locale \<open>sector_driver\<close> is what it needs, \<open>block_device\<close>
    what it gives; the IDE driver interprets the first and the cache the second.
  \<^item> Partition (\<^verbatim>\<open>main/partition.c\<close>), Crc (\<^verbatim>\<open>main/crc.c\<close>), Efi (\<^verbatim>\<open>main/efi.c\<close>): a window on the disk, the
    checksum, and the partition table on top of \<open>block_device\<close>.
  \<^item> Ext2 (\<^verbatim>\<open>main/e2/ext2fs.c\<close>): all operations of the file system; Ext2_Read: the block map and reading,
    against an abstract file (locale \<open>volume\<close>); Ext2_Path: mounting and path look-up, against a
    definition of \<open>resolve\<close> that follows directory entries of the image.
  \<^item> Pci (\<^verbatim>\<open>main/pci.c\<close>, \<^verbatim>\<open>main/eb/pci.c\<close>, \<^verbatim>\<open>main/eb-pci_bios.c\<close>), Probe (\<^verbatim>\<open>main/eb-probe.c\<close>,
    \<^verbatim>\<open>main/eb/pci_probe.c\<close>, the start-up half of \<^verbatim>\<open>main/eb/ide_disk.c\<close>, \<^verbatim>\<open>main/disk.c\<close>): finding the devices.
  \<^item> Misc (\<^verbatim>\<open>main/eb/misc.c\<close>): checksums, random numbers and addresses; Vsprintf (\<^verbatim>\<open>vsprintf.c\<close>, \<open>printk\<close>).
  \<^item> Clock (\<^verbatim>\<open>main/time.c\<close>, \<^verbatim>\<open>main/sleep.c\<close>): the time stamp counter and the busy waits.
  \<^item> Loader (\<^verbatim>\<open>loader_init.c\<close>, \<^verbatim>\<open>system.c\<close>, \<^verbatim>\<open>sysdeps.h\<close>): the hand-over on a flat memory of 32-bit addresses.
  \<^item> Boot (\<^verbatim>\<open>main/diskboot.c\<close>, \<^verbatim>\<open>main/netboot.c\<close>, \<^verbatim>\<open>main/main.c\<close>): the composition; Diskboot: a whole boot from
    a partition, from the sectors of the drive to the entry of the kernel.
  \<^item> Net (\<^verbatim>\<open>main/eb/nic.c\<close>): the packet layer, ARP, IP and UDP, over a network card given by its operations;
    Tftp (\<^verbatim>\<open>main/eb/nic.c\<close>, \<^verbatim>\<open>main/eb/tftp.h\<close>): the file transfer on top of it.

  \<^bold>\<open>The allocator.\<close>  \<open>bl_malloc\<close> is a function from the size to the block that is granted, with its initial
  contents; blocks have no addresses, and so two requests of one size get blocks of the same contents.
  \<open>volume_ready\<close> asks for a block of at least the size that was asked for.  The parser of the
  configuration stores its terminator one byte behind the file: Diskboot shows both that a boot
  succeeds when the allocator grants this byte and that it leaves the buffer when it does not.

  \<^bold>\<open>Fuel and termination.\<close>  Loops over data are structural or have a measure.  Loops that wait for
  hardware or time are \<open>partial_function (option)\<close>: a run that never ends is \<open>None\<close>, and the properties
  state that the result is \<open>Some\<close>.

  \<^bold>\<open>Not in the tree\<close>, and so arguments of the model: \<^verbatim>\<open>main/eb.c\<close> (\<open>network_init\<close>, \<open>network_load_file\<close>,
  \<open>network_shutdown\<close>), \<^verbatim>\<open>main/e2.c\<close> (the calls of \<open>ext2fs.c\<close> that it wraps), \<^verbatim>\<open>main/malloc.c\<close>,
  \<^verbatim>\<open>main/timer.c\<close>, \<^verbatim>\<open>main/efi.h\<close> (\<open>efi_guidcmp\<close>, \<open>NULL_GUID\<close>), and \<open>find_pci\<close>.

  \<^bold>\<open>Not modelled.\<close>  DHCP (the rest of \<^verbatim>\<open>main/eb/nic.c\<close>), the driver of the network card
  (\<^verbatim>\<open>main/eb/rtl8139.c\<close>), the pixels of the console (\<^verbatim>\<open>BootVideoHelpers.c\<close>), the start-up code in assembly,
  the tools that run on the build host, and the vendored allocator.
\<close>

end
